(* ===== verification/Duan_Prelude.thy ===== *)
theory Duan_Prelude
  imports Main "HOL-Library.Word"
begin

text \<open>
  Shared vocabulary of the development: machine integers, the ways a call can fail
  (a failed \<^verbatim>\<open>DUAN_ASSERT\<close>, a thrown exception, undefined behaviour), function objects,
  reachability in a transition system with its invariant rule, and the list and word
  facts the components share.
\<close>

named_theorems duan_simps \<open>unfolding of the small operations of the model\<close>

section \<open>Machine integers\<close>

type_synonym u64 = "64 word"
type_synonym u32 = "32 word"

text \<open>\<^verbatim>\<open>(int)x\<close> of a 64-bit value: the low 32 bits read as two's complement.\<close>

definition int_cast :: "u64 \<Rightarrow> int" where
  "int_cast x = sint (ucast x :: 32 word)"

lemma unat_add_no_wrap:
  fixes a b :: "'a::len word"
  assumes "unat a + unat b < 2 ^ LENGTH('a)"
  shows "unat (a + b) = unat a + unat b"
  using assms by (simp add: unat_word_ariths)

lemma unat_add_wrap:
  fixes a b :: "'a::len word"
  assumes "2 ^ LENGTH('a) \<le> unat a + unat b"
  shows "unat (a + b) = unat a + unat b - 2 ^ LENGTH('a)"
proof -
  have "unat a + unat b < 2 ^ LENGTH('a) + 2 ^ LENGTH('a)"
    using unsigned_less [of a] unsigned_less [of b] by (rule add_strict_mono)
  with assms show ?thesis by (simp add: unat_word_ariths le_mod_geq)
qed

lemma word_le_add_no_wrap:
  fixes a b :: "'a::len word"
  assumes "unat a + unat b < 2 ^ LENGTH('a)"
  shows "a \<le> a + b"
  using assms by (simp add: word_le_nat_alt unat_add_no_wrap)

lemma unat_sub_le:
  fixes a b :: "'a::len word"
  shows "b \<le> a \<Longrightarrow> unat (a - b) = unat a - unat b"
  by (simp add: unat_sub)

lemma word_less_add_one:
  fixes x :: "'a::len word"
  assumes "x \<noteq> - 1"
  shows "x + 1 \<noteq> 0" and "x < x + 1"
proof -
  show nz: "x + 1 \<noteq> 0" using assms by (simp add: add_eq_0_iff2)
  then have "unat (1 + x) = Suc (unat x)" by (intro unatSuc) (simp add: add.commute)
  then show "x < x + 1" by (simp add: word_less_nat_alt add.commute)
qed

lemma of_nat_word_eq_0D:
  assumes "(of_nat n :: 'a::len word) = 0" and "n < 2 ^ LENGTH('a)"
  shows "n = 0"
  using assms by (auto simp: word_of_nat_eq_0_iff dest: dvd_imp_le)

lemma u64_of_nat_eq_0_iff: "k < 2 ^ 64 \<Longrightarrow> (of_nat k :: u64) = 0 \<longleftrightarrow> k = 0"
  using of_nat_word_eq_0D [of k, where 'a = 64] by auto

section \<open>Failing calls\<close>

text \<open>
  A call returns a value, or the process stops: an assertion of \<^verbatim>\<open>macro.h\<close> fails and
  \<^verbatim>\<open>assert\<close> aborts, an exception leaves the call, or the call has undefined behaviour
  (a null pointer or a past-the-end iterator is used).
\<close>

datatype error = Assert string | Throw string | UB string

type_synonym 'a res = "error + 'a"

definition bind_res :: "'a res \<Rightarrow> ('a \<Rightarrow> 'b res) \<Rightarrow> 'b res" where
  "bind_res m f = (case m of Inl e \<Rightarrow> Inl e | Inr x \<Rightarrow> f x)"

definition DUAN_ASSERT :: "string \<Rightarrow> bool \<Rightarrow> 'a res \<Rightarrow> 'a res" where
  "DUAN_ASSERT msg x k = (if x then k else Inl (Assert msg))"

definition deref :: "string \<Rightarrow> 'a option \<Rightarrow> ('a \<Rightarrow> 'b res) \<Rightarrow> 'b res" where
  "deref what p k = (case p of None \<Rightarrow> Inl (UB what) | Some x \<Rightarrow> k x)"

lemma bind_res_simps [simp]:
  "bind_res (Inl e) f = Inl e"
  "bind_res (Inr x) f = f x"
  by (simp_all add: bind_res_def)

lemma bind_res_Inr_iff:
  "bind_res m f = Inr y \<longleftrightarrow> (\<exists>x. m = Inr x \<and> f x = Inr y)"
  by (cases m) auto

lemma bind_res_Inl_iff:
  "bind_res m f = Inl e \<longleftrightarrow> m = Inl e \<or> (\<exists>x. m = Inr x \<and> f x = Inl e)"
  by (cases m) auto

lemma DUAN_ASSERT_Inr_iff: "DUAN_ASSERT msg x k = Inr y \<longleftrightarrow> x \<and> k = Inr y"
  by (simp add: DUAN_ASSERT_def)

lemma DUAN_ASSERT_simps [simp]:
  "DUAN_ASSERT msg True k = k"
  "DUAN_ASSERT msg False k = Inl (Assert msg)"
  by (simp_all add: DUAN_ASSERT_def)

lemma deref_simps [simp]:
  "deref w None k = Inl (UB w)"
  "deref w (Some x) k = k x"
  by (simp_all add: deref_def)

lemma deref_Inr_iff: "deref w p k = Inr y \<longleftrightarrow> (\<exists>x. p = Some x \<and> k x = Inr y)"
  by (cases p) auto

lemmas res_iffs = bind_res_Inr_iff DUAN_ASSERT_Inr_iff deref_Inr_iff

section \<open>Function objects\<close>

datatype callback =
    Fn nat
  | OnTimerBind nat callback
  | SchedulerRun
  | SchedulerIdle

text \<open>
  A \<^verbatim>\<open>std::function<void()>\<close> is \<^typ>\<open>callback option\<close> (\<^term>\<open>None\<close> when empty). The function
  objects the library builds itself are named: \<^verbatim>\<open>std::bind(&OnTimer, weak_cond, cb)\<close>,
  \<^verbatim>\<open>std::bind(&Scheduler::run, this)\<close> and \<^verbatim>\<open>std::bind(&Scheduler::idle, this)\<close>; a function of
  the application is \<^term>\<open>Fn n\<close>.
\<close>

section \<open>Reachability\<close>

inductive reach :: "('s \<Rightarrow> bool) \<Rightarrow> ('s \<Rightarrow> 's \<Rightarrow> bool) \<Rightarrow> 's \<Rightarrow> bool"
  for init :: "'s \<Rightarrow> bool" and step :: "'s \<Rightarrow> 's \<Rightarrow> bool" where
  reach_init: "init s \<Longrightarrow> reach init step s"
| reach_step: "reach init step s \<Longrightarrow> step s t \<Longrightarrow> reach init step t"

text \<open>An inductive invariant of a transition system holds in every reachable state.\<close>

locale inductive_invariant =
  fixes init :: "'s \<Rightarrow> bool"
    and step :: "'s \<Rightarrow> 's \<Rightarrow> bool"
    and inv :: "'s \<Rightarrow> bool"
  assumes inv_init: "init s \<Longrightarrow> inv s"
    and inv_step: "inv s \<Longrightarrow> step s t \<Longrightarrow> inv t"
begin

lemma inv_reach: "reach init step s \<Longrightarrow> inv s"
  by (induction rule: reach.induct) (auto intro: inv_init inv_step)

lemma inv_steps: "step\<^sup>*\<^sup>* s t \<Longrightarrow> inv s \<Longrightarrow> inv t"
  by (induction rule: rtranclp_induct) (auto intro: inv_step)

end

end
