(* ===== verification/Duan_Fiber.thy ===== *)
theory Duan_Fiber
  imports Duan_Prelude
begin

text \<open>
  \<^verbatim>\<open>fiber.h\<close>, \<^verbatim>\<open>fiber.cc\<close>: coroutines over \<^verbatim>\<open>ucontext\<close>. The objects live in a heap shared by
  the threads, together with the two atomic counters; every thread has its own record of
  thread-local variables and a CPU, which says whose context is loaded and at which point of
  the library's code it continues. \<^verbatim>\<open>swapcontext\<close> stores the point of the caller in one object
  and loads the CPU from another. Objects live until their destructor runs; the counting of
  \<^verbatim>\<open>shared_ptr\<close> references is not modelled. \<^verbatim>\<open>getcontext\<close> and \<^verbatim>\<open>swapcontext\<close> report failure by
  a nonzero result, the field \<open>ctx_rt\<close>.
\<close>

section \<open>Data\<close>

text \<open>\<^verbatim>\<open>Fiber::State\<close>; \<open>TERM_ST\<close> is the source's \<^verbatim>\<open>TERM\<close>, a reserved word here.\<close>

datatype State = INIT | HOLD | EXEC | TERM_ST | READY | EXCEPT

text \<open>The points at which a context can continue.\<close>

datatype resume_point =
    AtMainFunc
  | AtCallerMainFunc
  | InSwapIn
  | InCallback
  | AtNeverReach

record ucontext =
  ss_sp :: nat
  ss_size :: u32
  resume :: resume_point

record fiber =
  m_id :: u64
  m_stacksize :: u32
  m_state :: State
  m_ctx :: ucontext
  m_stack :: nat
  fiber_cb :: "callback option"

record fiber_env =
  fheap :: "nat \<Rightarrow> fiber option"
  s_fiber_id :: u64
  s_fiber_count :: u64
  g_fiber_stack_size :: u32
  ctx_rt :: int

text \<open>
  The thread-local variables: \<^verbatim>\<open>t_fiber\<close> and \<^verbatim>\<open>t_threadFiber\<close> of \<^verbatim>\<open>fiber.cc\<close>, and
  \<^verbatim>\<open>t_fiber\<close> of \<^verbatim>\<open>scheduler.cc\<close> (what \<^verbatim>\<open>Scheduler::GetMainFiber\<close> returns), and the CPU.
\<close>

record tls =
  t_fiber :: "nat option"
  t_threadFiber :: "nat option"
  t_mainFiber :: "nat option"
  cpu :: "nat \<times> resume_point"

type_synonym fstate = "fiber_env \<times> tls"

definition set_fiber :: "nat \<Rightarrow> fiber \<Rightarrow> fiber_env \<Rightarrow> fiber_env" where
  "set_fiber p f g = g\<lparr>fheap := (fheap g)(p \<mapsto> f)\<rparr>"

section \<open>Current fiber\<close>

definition SetThis :: "nat option \<Rightarrow> tls \<Rightarrow> tls" where
  "SetThis f t = t\<lparr>t_fiber := f\<rparr>"

definition GetFiberId :: "fstate \<Rightarrow> u64 res" where
  "GetFiberId s =
     (case t_fiber (snd s) of
        None \<Rightarrow> Inr 0
      | Some p \<Rightarrow> deref ''t_fiber'' (fheap (fst s) p) (\<lambda>f. Inr (m_id f)))"

definition TotalFibers :: "fiber_env \<Rightarrow> u64" where
  "TotalFibers g = s_fiber_count g"

section \<open>Construction and destruction\<close>

definition getcontext :: "nat \<Rightarrow> u32 \<Rightarrow> ucontext" where
  "getcontext sp sz = \<lparr>ss_sp = sp, ss_size = sz, resume = InCallback\<rparr>"

definition makecontext :: "resume_point \<Rightarrow> ucontext \<Rightarrow> ucontext" where
  "makecontext entry c = c\<lparr>resume := entry\<rparr>"

text \<open>The private constructor: the main fiber of a thread, at the address \<open>p\<close>.\<close>

definition Fiber_main :: "nat \<Rightarrow> fstate \<Rightarrow> fstate res" where
  "Fiber_main p s =
     (let (g, t) = s;
          t1 = SetThis (Some p) t;
          f = \<lparr>m_id = 0, m_stacksize = 0, m_state = EXEC, m_ctx = getcontext 0 0,
               m_stack = 0, fiber_cb = None\<rparr>
      in DUAN_ASSERT ''getcontext'' (ctx_rt g = 0)
           (Inr ((set_fiber p f g)\<lparr>s_fiber_count := s_fiber_count g + 1\<rparr>, t1)))"

text \<open>
  \<^verbatim>\<open>Fiber(cb, stacksize, use_caller)\<close> at the address \<open>p\<close>, with the stack \<^verbatim>\<open>malloc\<close> returned
  at \<open>stk\<close>. The last \<^verbatim>\<open>makecontext\<close> of the constructor runs on both paths.
\<close>

definition Fiber_new ::
  "nat \<Rightarrow> nat \<Rightarrow> callback option \<Rightarrow> u64 \<Rightarrow> bool \<Rightarrow> fiber_env \<Rightarrow> fiber_env res" where
  "Fiber_new p stk cb stacksize use_caller g =
     (let g1 = g\<lparr>s_fiber_id := s_fiber_id g + 1, s_fiber_count := s_fiber_count g + 1\<rparr>;
          sz = (if stacksize \<noteq> 0 then ucast stacksize else g_fiber_stack_size g)
      in DUAN_ASSERT ''getcontext'' (ctx_rt g1 = 0)
           (let c = getcontext stk sz;
                c1 = (if use_caller then makecontext AtMainFunc c
                      else makecontext AtCallerMainFunc c);
                c2 = makecontext AtMainFunc c1
            in Inr (set_fiber p
                 \<lparr>m_id = s_fiber_id g1, m_stacksize = sz, m_state = INIT, m_ctx = c2,
                  m_stack = stk, fiber_cb = cb\<rparr> g1)))"

definition Fiber_delete :: "nat \<Rightarrow> fstate \<Rightarrow> fstate res" where
  "Fiber_delete p s =
     (let (g, t) = s in
      deref ''Fiber'' (fheap g p) (\<lambda>f.
        let g1 = g\<lparr>s_fiber_count := s_fiber_count g - 1, fheap := (fheap g)(p := None)\<rparr>
        in if m_stack f \<noteq> 0 then
             DUAN_ASSERT ''m_state == TERM || m_state == INIT || m_state == EXCEPT''
               (m_state f \<in> {TERM_ST, INIT, EXCEPT}) (Inr (g1, t))
           else
             DUAN_ASSERT ''!m_cb'' (fiber_cb f = None)
               (DUAN_ASSERT ''m_state == EXEC'' (m_state f = EXEC)
                 (Inr (g1, if t_fiber t = Some p then SetThis None t else t)))))"

definition fiber_reset :: "nat \<Rightarrow> callback option \<Rightarrow> fiber_env \<Rightarrow> fiber_env res" where
  "fiber_reset p cb g =
     deref ''Fiber'' (fheap g p) (\<lambda>f.
       DUAN_ASSERT ''m_stack'' (m_stack f \<noteq> 0)
         (DUAN_ASSERT ''m_state == TERM || m_state == INIT || m_state == EXCEPT''
           (m_state f \<in> {TERM_ST, INIT, EXCEPT})
           (DUAN_ASSERT ''getcontext'' (ctx_rt g = 0)
             (Inr (set_fiber p
                (f\<lparr>fiber_cb := cb,
                   m_ctx := makecontext AtMainFunc (getcontext (m_stack f) (m_stacksize f)),
                   m_state := INIT\<rparr>) g)))))"

text \<open>\<^verbatim>\<open>Fiber::GetThis\<close>; \<open>p\<close> is the address of the main fiber it may have to create.\<close>

definition GetThis :: "nat \<Rightarrow> fstate \<Rightarrow> (nat \<times> fstate) res" where
  "GetThis p s =
     (case t_fiber (snd s) of
        Some f \<Rightarrow> Inr (f, s)
      | None \<Rightarrow>
          bind_res (Fiber_main p s) (\<lambda>s1.
            DUAN_ASSERT ''t_fiber == main_fiber.get()'' (t_fiber (snd s1) = Some p)
              (Inr (p, fst s1, (snd s1)\<lparr>t_threadFiber := Some p\<rparr>))))"

section \<open>Context switches\<close>

text \<open>
  \<^verbatim>\<open>swapcontext(&a->m_ctx, &b->m_ctx)\<close>, called at the point \<open>rp\<close>; a null or dead object is
  undefined behaviour.
\<close>

definition swapcontext :: "nat option \<Rightarrow> nat option \<Rightarrow> resume_point \<Rightarrow> fstate \<Rightarrow> fstate res" where
  "swapcontext a b rp s =
     (let (g, t) = s in
      deref ''null context'' a (\<lambda>pa. deref ''null context'' b (\<lambda>pb.
        deref ''dead context'' (fheap g pa) (\<lambda>fa.
          let g1 = set_fiber pa (fa\<lparr>m_ctx := (m_ctx fa)\<lparr>resume := rp\<rparr>\<rparr>) g
          in deref ''dead context'' (fheap g1 pb) (\<lambda>fb.
               DUAN_ASSERT ''swapcontext'' (ctx_rt g = 0)
                 (Inr (g1, t\<lparr>cpu := (pb, resume (m_ctx fb))\<rparr>)))))))"

definition set_state :: "nat \<Rightarrow> State \<Rightarrow> fiber_env \<Rightarrow> fiber_env res" where
  "set_state p st g = deref ''Fiber'' (fheap g p) (\<lambda>f. Inr (set_fiber p (f\<lparr>m_state := st\<rparr>) g))"

definition call :: "nat \<Rightarrow> fstate \<Rightarrow> fstate res" where
  "call p s =
     (let (g, t) = s; t1 = SetThis (Some p) t in
      bind_res (set_state p EXEC g) (\<lambda>g1.
        swapcontext (t_threadFiber t1) (Some p) InSwapIn (g1, t1)))"

definition fiber_back :: "fstate \<Rightarrow> fstate res" where
  "fiber_back s = Inr s"

definition swapIn :: "nat \<Rightarrow> fstate \<Rightarrow> fstate res" where
  "swapIn p s =
     (let (g, t) = s; t1 = SetThis (Some p) t in
      deref ''Fiber'' (fheap g p) (\<lambda>f.
        DUAN_ASSERT ''m_state != EXEC'' (m_state f \<noteq> EXEC)
          (bind_res (set_state p EXEC g) (\<lambda>g1.
             swapcontext (t_mainFiber t1) (Some p) InSwapIn (g1, t1)))))"

definition swapOut :: "nat \<Rightarrow> resume_point \<Rightarrow> fstate \<Rightarrow> fstate res" where
  "swapOut p rp s =
     (let (g, t) = s in
      if Some p \<noteq> t_mainFiber t
      then swapcontext (Some p) (t_mainFiber t) rp (g, SetThis (t_mainFiber t) t)
      else swapcontext (Some p) (t_threadFiber t) rp (g, SetThis (t_threadFiber t) t))"

text \<open>\<^verbatim>\<open>YieldToReady\<close> and \<^verbatim>\<open>YieldToHold\<close>.\<close>

definition YieldTo :: "State \<Rightarrow> nat \<Rightarrow> fstate \<Rightarrow> fstate res" where
  "YieldTo st p s =
     bind_res (GetThis p s) (\<lambda>(cur, s1).
       bind_res (set_state cur st (fst s1)) (\<lambda>g.
         swapOut cur InCallback (g, snd s1)))"

abbreviation YieldToReady :: "nat \<Rightarrow> fstate \<Rightarrow> fstate res" where
  "YieldToReady \<equiv> YieldTo READY"

abbreviation YieldToHold :: "nat \<Rightarrow> fstate \<Rightarrow> fstate res" where
  "YieldToHold \<equiv> YieldTo HOLD"

text \<open>
  How the fiber's function ends. \<^verbatim>\<open>MainFunc\<close> calls \<^verbatim>\<open>m_cb\<close> (an empty one throws
  \<^verbatim>\<open>std::bad_function_call\<close>), records the outcome in the state and leaves for good; a context
  that comes back after the last \<^verbatim>\<open>swapOut\<close> fails the assertion.
\<close>

datatype outcome = Returns | Throws

definition call_outcome :: "callback option \<Rightarrow> outcome \<Rightarrow> outcome" where
  "call_outcome cb o1 = (case cb of None \<Rightarrow> Throws | Some _ \<Rightarrow> o1)"

definition finished :: "outcome \<Rightarrow> fiber \<Rightarrow> fiber" where
  "finished o1 f =
     (case call_outcome (fiber_cb f) o1 of
        Returns \<Rightarrow> f\<lparr>fiber_cb := None, m_state := TERM_ST\<rparr>
      | Throws \<Rightarrow> f\<lparr>m_state := EXCEPT\<rparr>)"

definition MainFunc_body :: "nat \<Rightarrow> outcome \<Rightarrow> fstate \<Rightarrow> (nat \<times> fstate) res" where
  "MainFunc_body q o1 s =
     bind_res (GetThis q s) (\<lambda>(cur, g, t).
       deref ''Fiber'' (fheap g cur) (\<lambda>f.
         Inr (cur, set_fiber cur (finished o1 f) g, t)))"

definition MainFunc :: "nat \<Rightarrow> outcome \<Rightarrow> fstate \<Rightarrow> fstate res" where
  "MainFunc q o1 s =
     bind_res (MainFunc_body q o1 s) (\<lambda>(cur, s1). swapOut cur AtNeverReach s1)"

definition never_reach :: "fstate \<Rightarrow> fstate res" where
  "never_reach s = Inl (Assert ''never reach fiber_id'')"

definition CallerMainFunc :: "nat \<Rightarrow> outcome \<Rightarrow> fstate \<Rightarrow> fstate res" where
  "CallerMainFunc q o1 s =
     bind_res (MainFunc_body q o1 s) (\<lambda>(cur, s1).
       bind_res (fiber_back s1) never_reach)"

text \<open>
  What a thread does when a context has been loaded: a fresh fiber enters its function, a
  suspended one goes on after its switch (\<^term>\<open>Inr\<close> without a change here), a finished one
  runs into the assertion at the end of \<^verbatim>\<open>MainFunc\<close>.
\<close>

definition resumed :: "fstate \<Rightarrow> fstate res" where
  "resumed s = (if snd (cpu (snd s)) = AtNeverReach then never_reach s else Inr s)"

section \<open>The fiber system\<close>

text \<open>All threads over one heap: the shared part and the thread-local part of each thread.\<close>

type_synonym fsystem = "fiber_env \<times> (int \<Rightarrow> tls)"

definition idle_tls :: tls where
  "idle_tls = \<lparr>t_fiber = None, t_threadFiber = None, t_mainFiber = None, cpu = (0, InCallback)\<rparr>"

definition fiber_init :: "fsystem \<Rightarrow> bool" where
  "fiber_init s \<longleftrightarrow>
     fheap (fst s) = Map.empty \<and> s_fiber_id (fst s) = 0 \<and> s_fiber_count (fst s) = 0 \<and>
     snd s = (\<lambda>_. idle_tls)"

text \<open>
  The steps of thread \<open>i\<close>. \<^verbatim>\<open>new\<close> returns unused addresses and \<^verbatim>\<open>malloc\<close> a nonnull one; fewer
  than \<open>2 ^ 64\<close> fibers are created; the main fiber of a thread, which \<^verbatim>\<open>t_threadFiber\<close> owns, is
  not destroyed while the thread lives; \<^verbatim>\<open>swapIn\<close> is called by the scheduling fiber, as
  \<^verbatim>\<open>Scheduler::run\<close> does, so the fiber whose context it overwrites is executing.
\<close>

inductive fiber_step :: "fsystem \<Rightarrow> fsystem \<Rightarrow> bool" where
  f_new: "fheap g p = None \<Longrightarrow> stk \<noteq> 0 \<Longrightarrow> s_fiber_id g \<noteq> - 1 \<Longrightarrow>
    Fiber_new p stk cb sz uc g = Inr g' \<Longrightarrow> fiber_step (g, T) (g', T)"
| f_this: "fheap g p = None \<Longrightarrow> GetThis p (g, T i) = Inr (r, g', t') \<Longrightarrow>
    fiber_step (g, T) (g', T(i := t'))"
| f_delete: "\<forall>j. t_threadFiber (T j) \<noteq> Some p \<Longrightarrow> Fiber_delete p (g, T i) = Inr (g', t') \<Longrightarrow>
    fiber_step (g, T) (g', T(i := t'))"
| f_reset: "fiber_reset p cb g = Inr g' \<Longrightarrow> fiber_step (g, T) (g', T)"
| f_main: "fiber_step (g, T) (g, T(i := (T i)\<lparr>t_mainFiber := mf\<rparr>))"
| f_call: "call p (g, T i) = Inr (g', t') \<Longrightarrow> fiber_step (g, T) (g', T(i := t'))"
| f_swapIn: "t_mainFiber (T i) = Some mf \<Longrightarrow> fheap g mf = Some f \<Longrightarrow>
    m_stack f = 0 \<or> m_state f = EXEC \<Longrightarrow> swapIn p (g, T i) = Inr (g', t') \<Longrightarrow>
    fiber_step (g, T) (g', T(i := t'))"
| f_yield: "fheap g q = None \<Longrightarrow> st = READY \<or> st = HOLD \<Longrightarrow> YieldTo st q (g, T i) = Inr (g', t') \<Longrightarrow>
    fiber_step (g, T) (g', T(i := t'))"
| f_finish: "fheap g q = None \<Longrightarrow> MainFunc q o1 (g, T i) = Inr (g', t') \<Longrightarrow>
    fiber_step (g, T) (g', T(i := t'))"
| f_sched_hold: "fheap g p = Some f \<Longrightarrow> m_state f = EXEC \<Longrightarrow> set_state p HOLD g = Inr g' \<Longrightarrow>
    fiber_step (g, T) (g', T)"

text \<open>A fresh fiber starts in its function, a finished one can only run into the assertion.\<close>

definition fiber_ok :: "fiber \<Rightarrow> bool" where
  "fiber_ok f \<longleftrightarrow>
     m_stack f \<noteq> 0 \<longrightarrow>
       m_id f \<noteq> 0 \<and>
       (m_state f = INIT \<longrightarrow> resume (m_ctx f) = AtMainFunc) \<and>
       (m_state f \<in> {TERM_ST, EXCEPT} \<longrightarrow> resume (m_ctx f) = AtNeverReach)"

definition ids_ok :: "fiber_env \<Rightarrow> bool" where
  "ids_ok g \<longleftrightarrow>
     (\<forall>p f. fheap g p = Some f \<longrightarrow> m_id f \<le> s_fiber_id g) \<and>
     (\<forall>p q f f'. fheap g p = Some f \<longrightarrow> fheap g q = Some f' \<longrightarrow> m_id f = m_id f' \<longrightarrow>
        m_id f \<noteq> 0 \<longrightarrow> p = q)"

definition count_ok :: "fiber_env \<Rightarrow> bool" where
  "count_ok g \<longleftrightarrow> finite (dom (fheap g)) \<and> s_fiber_count g = of_nat (card (dom (fheap g)))"

definition fibers_inv :: "fsystem \<Rightarrow> bool" where
  "fibers_inv s \<longleftrightarrow>
     count_ok (fst s) \<and> ids_ok (fst s) \<and> (\<forall>f\<in>ran (fheap (fst s)). fiber_ok f) \<and>
     (\<forall>i p. t_threadFiber (snd s i) = Some p \<longrightarrow>
        (\<exists>f. fheap (fst s) p = Some f \<and> m_stack f = 0))"

section \<open>Effects of the operations\<close>

text \<open>An operation that only fiber_rewrite live objects, keeping their identity.\<close>

definition identity :: "fiber_env \<Rightarrow> nat \<Rightarrow> (u64 \<times> nat) option" where
  "identity g p = map_option (\<lambda>f. (m_id f, m_stack f)) (fheap g p)"

definition same_objects :: "fiber_env \<Rightarrow> fiber_env \<Rightarrow> bool" where
  "same_objects g g' \<longleftrightarrow>
     identity g' = identity g \<and> s_fiber_id g' = s_fiber_id g \<and>
     s_fiber_count g' = s_fiber_count g \<and> ctx_rt g' = ctx_rt g"

lemma same_objects_refl [simp]: "same_objects g g"
  by (simp add: same_objects_def)

lemma same_objects_trans: "same_objects g g' \<Longrightarrow> same_objects g' g'' \<Longrightarrow> same_objects g g''"
  by (simp add: same_objects_def)

lemma same_objects_set:
  "fheap g p = Some f \<Longrightarrow> m_id f' = m_id f \<Longrightarrow> m_stack f' = m_stack f \<Longrightarrow>
     same_objects g (set_fiber p f' g)"
  by (auto simp: same_objects_def set_fiber_def identity_def fun_eq_iff)

lemma same_objects_old:
  assumes "same_objects g g'" and "fheap g' p = Some f'"
  shows "\<exists>f. fheap g p = Some f \<and> m_id f' = m_id f \<and> m_stack f' = m_stack f"
proof -
  have "identity g' p = identity g p" using assms(1) by (simp add: same_objects_def)
  with assms(2) show ?thesis by (cases "fheap g p") (auto simp: identity_def)
qed

lemma dom_identity: "dom (fheap g) = dom (identity g)"
  by (auto simp: identity_def)

lemma count_ok_same: "same_objects g g' \<Longrightarrow> count_ok g \<Longrightarrow> count_ok g'"
  by (simp add: same_objects_def count_ok_def dom_identity)

lemma ids_ok_same:
  assumes so: "same_objects g g'" and ok: "ids_ok g"
  shows "ids_ok g'"
proof -
  note old = same_objects_old [OF so]
  have sid: "s_fiber_id g' = s_fiber_id g" using so by (simp add: same_objects_def)
  show ?thesis
    unfolding ids_ok_def sid
  proof (intro conjI allI impI)
    show "m_id f \<le> s_fiber_id g" if "fheap g' p = Some f" for p f
      using old [OF that] ok by (auto simp: ids_ok_def)
    show "p = q" if "fheap g' p = Some f" "fheap g' q = Some f'" "m_id f = m_id f'" "m_id f \<noteq> 0"
      for p q f f'
      using old [OF that(1)] old [OF that(2)] that(3,4) ok unfolding ids_ok_def by fastforce
  qed
qed

lemma swapcontextD:
  assumes "swapcontext a b rp (g, t) = Inr (g', t')"
  shows "\<exists>pa pb fa fb. a = Some pa \<and> b = Some pb \<and> fheap g pa = Some fa \<and>
     g' = set_fiber pa (fa\<lparr>m_ctx := (m_ctx fa)\<lparr>resume := rp\<rparr>\<rparr>) g \<and>
     fheap g' pb = Some fb \<and> t' = t\<lparr>cpu := (pb, resume (m_ctx fb))\<rparr> \<and> ctx_rt g = 0"
  using assms by (auto simp: swapcontext_def res_iffs Let_def)

lemma set_stateD:
  "set_state p st g = Inr g' \<Longrightarrow>
     \<exists>f. fheap g p = Some f \<and> g' = set_fiber p (f\<lparr>m_state := st\<rparr>) g"
  by (auto simp: set_state_def res_iffs)

lemma set_fiber_simps [simp]:
  "fheap (set_fiber p f g) = (fheap g)(p \<mapsto> f)"
  "s_fiber_id (set_fiber p f g) = s_fiber_id g"
  "s_fiber_count (set_fiber p f g) = s_fiber_count g"
  "ctx_rt (set_fiber p f g) = ctx_rt g"
  "g_fiber_stack_size (set_fiber p f g) = g_fiber_stack_size g"
  "set_fiber p f (set_fiber p f' g) = set_fiber p f g"
  by (simp_all add: set_fiber_def)

lemma SetThis_simps [simp]:
  "t_fiber (SetThis x t) = x" "t_threadFiber (SetThis x t) = t_threadFiber t"
  "t_mainFiber (SetThis x t) = t_mainFiber t" "cpu (SetThis x t) = cpu t"
  by (simp_all add: SetThis_def)

text \<open>
  A rewriting step: live objects change, keeping their identity and their well-formedness, and
  no thread gets another main fiber.
\<close>

definition fiber_rewrite :: "fiber_env \<Rightarrow> tls \<Rightarrow> fiber_env \<Rightarrow> tls \<Rightarrow> bool" where
  "fiber_rewrite g t g' t' \<longleftrightarrow>
     same_objects g g' \<and> t_threadFiber t' = t_threadFiber t \<and>
     ((\<forall>f\<in>ran (fheap g). fiber_ok f) \<longrightarrow> (\<forall>f\<in>ran (fheap g'). fiber_ok f))"

lemma ran_updD: "f \<in> ran (h(p \<mapsto> f')) \<Longrightarrow> f = f' \<or> f \<in> ran h"
  by (auto simp: ran_def split: if_splits)

lemma fiber_rewrite_set:
  assumes "fheap g p = Some f" and "m_id f' = m_id f" and "m_stack f' = m_stack f"
    and "fiber_ok f \<Longrightarrow> fiber_ok f'"
    and "t_threadFiber t' = t_threadFiber t"
  shows "fiber_rewrite g t (set_fiber p f' g) t'"
  using assms same_objects_set [of g p f f']
  by (auto simp: fiber_rewrite_def dest!: ran_updD intro: ranI)

lemma fiber_rewrite_trans:
  "fiber_rewrite g t g' t' \<Longrightarrow> fiber_rewrite g' t' g'' t'' \<Longrightarrow> fiber_rewrite g t g'' t''"
  by (auto simp: fiber_rewrite_def intro: same_objects_trans)

lemma same_objects_new:
  assumes "same_objects g g'" and "fheap g p = Some f"
  shows "\<exists>f'. fheap g' p = Some f' \<and> m_id f' = m_id f \<and> m_stack f' = m_stack f"
proof -
  have "same_objects g' g" using assms(1) by (simp add: same_objects_def)
  from same_objects_old [OF this assms(2)] show ?thesis by auto
qed

lemma threadFiber_stackless:
  "fibers_inv (g, T) \<Longrightarrow> t_threadFiber (T i) = Some p \<Longrightarrow>
     \<exists>f. fheap g p = Some f \<and> m_stack f = 0"
  by (simp add: fibers_inv_def)

lemma fibers_inv_rewrite:
  assumes inv: "fibers_inv (g, T)" and rw: "fiber_rewrite g (T i) g' t'"
  shows "fibers_inv (g', T(i := t'))"
proof -
  have so: "same_objects g g'" and tt: "t_threadFiber t' = t_threadFiber (T i)"
    using rw by (simp_all add: fiber_rewrite_def)
  have "\<exists>f'. fheap g' p = Some f' \<and> m_stack f' = 0"
    if "t_threadFiber ((T(i := t')) j) = Some p" for j p
  proof -
    have "t_threadFiber (T j) = Some p" using that tt by (auto split: if_splits)
    then obtain f where "fheap g p = Some f" "m_stack f = 0"
      using threadFiber_stackless [OF inv] by blast
    with same_objects_new [OF so, of p f] show ?thesis by auto
  qed
  then show ?thesis
    using inv rw count_ok_same [OF so] ids_ok_same [OF so]
    by (simp add: fibers_inv_def fiber_rewrite_def)
qed

lemma swapOut_rewrite:
  assumes "swapOut p rp (g, t) = Inr (g', t')" and "fheap g p = Some f"
    and "fiber_ok f \<Longrightarrow> fiber_ok (f\<lparr>m_ctx := (m_ctx f)\<lparr>resume := rp\<rparr>\<rparr>)"
  shows "fiber_rewrite g t g' t'"
proof -
  have "\<exists>b x. swapcontext (Some p) b rp (g, SetThis x t) = Inr (g', t')"
    using assms(1) by (auto simp: swapOut_def split: if_splits)
  then obtain b x where "swapcontext (Some p) b rp (g, SetThis x t) = Inr (g', t')" by blast
  from swapcontextD [OF this] assms(2)
  have "g' = set_fiber p (f\<lparr>m_ctx := (m_ctx f)\<lparr>resume := rp\<rparr>\<rparr>) g"
    and "t_threadFiber t' = t_threadFiber t" by auto
  then show ?thesis using assms(2,3) by (simp add: fiber_rewrite_set)
qed

lemma GetThis_cases:
  assumes "GetThis p (g, t) = Inr (r, g', t')"
  obtains (Cur) "t_fiber t = Some r" "g' = g" "t' = t"
  | (New) f where "t_fiber t = None" "r = p" "m_stack f = 0" "m_id f = 0"
      "g' = (set_fiber p f g)\<lparr>s_fiber_count := s_fiber_count g + 1\<rparr>"
      "t' = t\<lparr>t_fiber := Some p, t_threadFiber := Some p\<rparr>" "fheap g' p = Some f"
proof (cases "t_fiber t")
  case None
  then show ?thesis
    using assms by (intro New [OF None])
      (auto simp: GetThis_def Fiber_main_def SetThis_def res_iffs Let_def set_fiber_def)
next
  case (Some q)
  with assms show ?thesis by (intro Cur) (auto simp: GetThis_def)
qed

lemma fiber_ok_stackless [simp]: "m_stack f = 0 \<Longrightarrow> fiber_ok f"
  by (simp add: fiber_ok_def)

lemma count_ok_new:
  assumes "count_ok g" and "fheap g p = None" and "fheap g' = (fheap g)(p \<mapsto> f)"
    and "s_fiber_count g' = s_fiber_count g + 1"
  shows "count_ok g'"
proof -
  have "p \<notin> dom (fheap g)" using assms(2) by auto
  then show ?thesis using assms by (simp add: count_ok_def algebra_simps)
qed

lemma fibers_inv_main:
  assumes inv: "fibers_inv (g, T)" and p: "fheap g p = None" and f: "m_stack f = 0" "m_id f = 0"
    and g': "g' = (set_fiber p f g)\<lparr>s_fiber_count := s_fiber_count g + 1\<rparr>"
    and t': "t' = (T i)\<lparr>t_fiber := Some p, t_threadFiber := Some p\<rparr>"
  shows "fibers_inv (g', T(i := t'))"
proof -
  have "count_ok g'" using inv p by (intro count_ok_new [of g p g' f]) (auto simp: fibers_inv_def g')
  moreover have "ids_ok g'" using inv p f by (auto simp: fibers_inv_def ids_ok_def g' split: if_splits)
  moreover have "\<forall>x\<in>ran (fheap g'). fiber_ok x"
    using inv f by (auto simp: fibers_inv_def g' dest!: ran_updD)
  moreover have "\<exists>f'. fheap g' q = Some f' \<and> m_stack f' = 0"
    if "t_threadFiber ((T(i := t')) j) = Some q" for j q
    using that inv f by (auto simp: fibers_inv_def g' t' split: if_splits)
  ultimately show ?thesis by (simp add: fibers_inv_def)
qed

lemma fibers_inv_GetThis:
  assumes "fibers_inv (g, T)" and "fheap g p = None" and "GetThis p (g, T i) = Inr (r, g', t')"
  shows "fibers_inv (g', T(i := t'))"
  using assms(3)
proof (cases rule: GetThis_cases)
  case Cur
  with assms(1) show ?thesis by simp
next
  case (New f)
  with fibers_inv_main [OF assms(1,2) New(3,4,5,6)] show ?thesis by simp
qed

lemma fibers_inv_new:
  assumes inv: "fibers_inv (g, T)" and p: "fheap g p = None" and stk: "stk \<noteq> 0"
    and nw: "s_fiber_id g \<noteq> - 1" and r: "Fiber_new p stk cb sz uc g = Inr g'"
  shows "fibers_inv (g', T)"
proof -
  obtain f where f: "fheap g' = (fheap g)(p \<mapsto> f)" "s_fiber_id g' = s_fiber_id g + 1"
    "s_fiber_count g' = s_fiber_count g + 1" "m_id f = s_fiber_id g + 1" "m_state f = INIT"
    "resume (m_ctx f) = AtMainFunc"
    using r by (auto simp: Fiber_new_def res_iffs Let_def makecontext_def)
  note nz = word_less_add_one(1) [OF nw] and lt = word_less_add_one(2) [OF nw]
  have "count_ok g'" using inv p f by (intro count_ok_new [of g p g' f]) (auto simp: fibers_inv_def)
  moreover have "ids_ok g'"
  proof -
    have old: "m_id x < s_fiber_id g + 1" if "fheap g q = Some x" for q x
      using inv that lt by (auto simp: fibers_inv_def ids_ok_def intro: le_less_trans)
    show ?thesis
      using inv old f(4) unfolding ids_ok_def f(1,2)
      by (auto simp: fibers_inv_def ids_ok_def split: if_splits dest: less_imp_le old)
  qed
  moreover have "\<forall>x\<in>ran (fheap g'). fiber_ok x"
    using inv f nz by (auto simp: fibers_inv_def fiber_ok_def f(1) dest!: ran_updD)
  moreover have "\<exists>x. fheap g' q = Some x \<and> m_stack x = 0" if "t_threadFiber (T j) = Some q" for j q
    using threadFiber_stackless [OF inv that] p by (auto simp: f(1))
  ultimately show ?thesis by (simp add: fibers_inv_def)
qed

lemma fibers_inv_delete:
  assumes inv: "fibers_inv (g, T)" and own: "\<forall>j. t_threadFiber (T j) \<noteq> Some p"
    and r: "Fiber_delete p (g, T i) = Inr (g', t')"
  shows "fibers_inv (g', T(i := t'))"
proof -
  obtain f where f: "fheap g p = Some f" and h: "fheap g' = (fheap g)(p := None)"
    and c: "s_fiber_count g' = s_fiber_count g - 1" "s_fiber_id g' = s_fiber_id g"
    and t: "t_threadFiber t' = t_threadFiber (T i)"
    using r by (auto simp: Fiber_delete_def res_iffs Let_def split: if_splits)
  have "card (dom (fheap g)) = Suc (card (dom (fheap g')))"
    using inv f card.remove [of "dom (fheap g)" p]
    by (simp add: fibers_inv_def count_ok_def h domI)
  then have "count_ok g'" using inv c by (simp add: fibers_inv_def count_ok_def h)
  moreover have "ids_ok g'"
    using inv c by (auto simp: fibers_inv_def ids_ok_def h split: if_splits)
  moreover have "\<forall>x\<in>ran (fheap g'). fiber_ok x"
    using inv by (auto simp: fibers_inv_def h ran_def split: if_splits)
  moreover have "\<exists>x. fheap g' q = Some x \<and> m_stack x = 0"
    if "t_threadFiber ((T(i := t')) j) = Some q" for j q
    using that inv own t by (auto simp: fibers_inv_def h split: if_splits)
  ultimately show ?thesis by (simp add: fibers_inv_def)
qed

lemma set_state_rewrite:
  assumes "set_state p st g = Inr g'" and "st \<notin> {INIT, TERM_ST, EXCEPT}"
    and "t_threadFiber t' = t_threadFiber t"
  shows "fiber_rewrite g t g' t'"
  using set_stateD [OF assms(1)] assms(2,3)
  by (auto intro!: fiber_rewrite_set simp: fiber_ok_def)

text \<open>Saving a context in an object that is executing, or that is a thread's own main fiber.\<close>

lemma swapcontext_rewrite:
  assumes "swapcontext (Some pa) b rp (g, t) = Inr (g', t')" and "fheap g pa = Some fa"
    and "m_stack fa = 0 \<or> m_state fa \<notin> {INIT, TERM_ST, EXCEPT}"
  shows "fiber_rewrite g t g' t'"
  using swapcontextD [OF assms(1)] assms(2,3)
  by (auto intro!: fiber_rewrite_set simp: fiber_ok_def)

lemma call_rewrite:
  assumes inv: "fibers_inv (g, T)" and r: "call p (g, T i) = Inr (g', t')"
  shows "fiber_rewrite g (T i) g' t'"
proof -
  let ?t = "SetThis (Some p) (T i)"
  obtain g1 where g1: "set_state p EXEC g = Inr g1"
    and sw: "swapcontext (t_threadFiber (T i)) (Some p) InSwapIn (g1, ?t) = Inr (g', t')"
    using r by (auto simp: call_def res_iffs Let_def)
  have rw1: "fiber_rewrite g (T i) g1 ?t" using g1 by (rule set_state_rewrite) simp_all
  obtain pa where pa: "t_threadFiber (T i) = Some pa" using swapcontextD [OF sw] by blast
  obtain fa where "fheap g1 pa = Some fa" "m_stack fa = 0"
    using threadFiber_stackless [OF inv pa] rw1 same_objects_new [of g g1 pa]
    by (auto simp: fiber_rewrite_def)
  then have "fiber_rewrite g1 ?t g' t'" using swapcontext_rewrite [of pa] sw pa by simp
  with rw1 show ?thesis by (rule fiber_rewrite_trans)
qed

lemma swapIn_rewrite:
  assumes mf: "t_mainFiber t = Some mf" "fheap g mf = Some f" "m_stack f = 0 \<or> m_state f = EXEC"
    and r: "swapIn p (g, t) = Inr (g', t')"
  shows "fiber_rewrite g t g' t'"
proof -
  let ?t = "SetThis (Some p) t"
  obtain g1 where g1: "set_state p EXEC g = Inr g1"
    and sw: "swapcontext (Some mf) (Some p) InSwapIn (g1, ?t) = Inr (g', t')"
    using r mf(1) by (auto simp: swapIn_def res_iffs Let_def)
  have rw1: "fiber_rewrite g t g1 ?t" using g1 by (rule set_state_rewrite) simp_all
  obtain fa where "fheap g1 mf = Some fa" "m_stack fa = 0 \<or> m_state fa = EXEC"
    using set_stateD [OF g1] mf(2,3) by (cases "mf = p") auto
  then have "fiber_rewrite g1 ?t g' t'" using swapcontext_rewrite [OF sw] by auto
  with rw1 show ?thesis by (rule fiber_rewrite_trans)
qed

lemma yield_inv:
  assumes inv: "fibers_inv (g, T)" and q: "fheap g q = None" and st: "st = READY \<or> st = HOLD"
    and r: "YieldTo st q (g, T i) = Inr (g', t')"
  shows "fibers_inv (g', T(i := t'))"
proof -
  obtain cur g1 t1 g2 where gt: "GetThis q (g, T i) = Inr (cur, g1, t1)"
    and ss: "set_state cur st g1 = Inr g2" and sw: "swapOut cur InCallback (g2, t1) = Inr (g', t')"
    using r by (auto simp: YieldTo_def res_iffs)
  have inv1: "fibers_inv (g1, T(i := t1))" using inv q gt by (rule fibers_inv_GetThis)
  have rw1: "fiber_rewrite g1 t1 g2 t1" using ss by (rule set_state_rewrite) (use st in auto)
  obtain f where "fheap g2 cur = Some f" "m_state f = st" using set_stateD [OF ss] by auto
  then have rw2: "fiber_rewrite g2 t1 g' t'"
    using swapOut_rewrite [OF sw] st by (auto simp: fiber_ok_def)
  show ?thesis
    using fibers_inv_rewrite [OF inv1, of i g' t'] fiber_rewrite_trans [OF rw1 rw2] by simp
qed

lemma finished_simps [simp]:
  "m_id (finished o1 f) = m_id f" "m_stack (finished o1 f) = m_stack f"
  "m_ctx (finished o1 f) = m_ctx f" "m_state (finished o1 f) \<noteq> INIT"
  by (auto simp: finished_def split: outcome.splits)

lemma MainFunc_bodyD:
  "MainFunc_body q o1 (g, t) = Inr (cur, g', t') \<Longrightarrow>
     \<exists>g1 f. GetThis q (g, t) = Inr (cur, g1, t') \<and> fheap g1 cur = Some f \<and>
       g' = set_fiber cur (finished o1 f) g1"
  by (auto simp: MainFunc_body_def res_iffs)

lemma finish_inv:
  assumes inv: "fibers_inv (g, T)" and q: "fheap g q = None"
    and r: "MainFunc q o1 (g, T i) = Inr (g', t')"
  shows "fibers_inv (g', T(i := t'))"
proof -
  obtain cur g2 t1 where b: "MainFunc_body q o1 (g, T i) = Inr (cur, g2, t1)"
    and sw: "swapOut cur AtNeverReach (g2, t1) = Inr (g', t')"
    using r by (auto simp: MainFunc_def res_iffs)
  obtain g1 f where gt: "GetThis q (g, T i) = Inr (cur, g1, t1)" and f: "fheap g1 cur = Some f"
    and g2: "g2 = set_fiber cur (finished o1 f) g1"
    using MainFunc_bodyD [OF b] by blast
  let ?f = "finished o1 f"
  have inv1: "fibers_inv (g1, T(i := t1))" using inv q gt by (rule fibers_inv_GetThis)
  obtain b2 x where "swapcontext (Some cur) b2 AtNeverReach (g2, SetThis x t1) = Inr (g', t')"
    using sw by (auto simp: swapOut_def split: if_splits)
  then have g': "g' = set_fiber cur (?f\<lparr>m_ctx := (m_ctx f)\<lparr>resume := AtNeverReach\<rparr>\<rparr>) g1"
    and tt: "t_threadFiber t' = t_threadFiber t1"
    using swapcontextD g2 by fastforce+
  have "fiber_rewrite g1 t1 g' t'"
    unfolding g' using f tt
    by (intro fiber_rewrite_set) (auto simp: fiber_ok_def)
  then show ?thesis using fibers_inv_rewrite [OF inv1, of i g' t'] by simp
qed

lemma reset_rewrite:
  "fiber_reset p cb g = Inr g' \<Longrightarrow> fiber_rewrite g t g' t"
  by (auto simp: fiber_reset_def res_iffs fiber_ok_def makecontext_def intro!: fiber_rewrite_set)

lemma fiber_step_inv: "fiber_step s s' \<Longrightarrow> fibers_inv s \<Longrightarrow> fibers_inv s'"
proof (induction rule: fiber_step.induct)
  case (f_reset p cb g g' T)
  with fibers_inv_rewrite [OF _ reset_rewrite, of g T p cb g' 0] show ?case by simp
next
  case (f_main g T i mf)
  then show ?case by (intro fibers_inv_rewrite) (auto simp: fiber_rewrite_def)
next
  case (f_call p g T i g' t')
  then show ?case by (intro fibers_inv_rewrite call_rewrite)
next
  case (f_swapIn T i mf g f p g' t')
  then show ?case by (intro fibers_inv_rewrite swapIn_rewrite)
next
  case (f_sched_hold g p f g' T)
  then have "fiber_rewrite g (T 0) g' (T 0)" by (intro set_state_rewrite) auto
  with f_sched_hold fibers_inv_rewrite [of g T 0 g' "T 0"] show ?case by simp
qed (auto intro: fibers_inv_new fibers_inv_GetThis fibers_inv_delete yield_inv finish_inv)

interpretation fiber_system: inductive_invariant fiber_init fiber_step fibers_inv
proof unfold_locales
  show "fibers_inv s" if "fiber_init s" for s
    using that by (cases s) (auto simp: fiber_init_def fibers_inv_def count_ok_def ids_ok_def idle_tls_def)
qed (rule fiber_step_inv)

section \<open>Exact effect of the switches\<close>

lemma swapIn_eq:
  assumes "fheap g p = Some f" "m_state f \<noteq> EXEC" "t_mainFiber t = Some mf" "fheap g mf = Some fm"
    and "p \<noteq> mf" "ctx_rt g = 0"
  shows "swapIn p (g, t) =
    Inr (set_fiber mf (fm\<lparr>m_ctx := (m_ctx fm)\<lparr>resume := InSwapIn\<rparr>\<rparr>) (set_fiber p (f\<lparr>m_state := EXEC\<rparr>) g),
         t\<lparr>t_fiber := Some p, cpu := (p, resume (m_ctx f))\<rparr>)"
  using assms by (simp add: swapIn_def set_state_def swapcontext_def Let_def SetThis_def)

lemma swapOut_eq:
  assumes "fheap g p = Some f" "t_mainFiber t = Some mf" "fheap g mf = Some fm" "p \<noteq> mf" "ctx_rt g = 0"
  shows "swapOut p rp (g, t) =
    Inr (set_fiber p (f\<lparr>m_ctx := (m_ctx f)\<lparr>resume := rp\<rparr>\<rparr>) g,
         t\<lparr>t_fiber := Some mf, cpu := (mf, resume (m_ctx fm))\<rparr>)"
  using assms by (simp add: swapOut_def swapcontext_def Let_def SetThis_def)

lemma GetThis_cur: "t_fiber t = Some p \<Longrightarrow> GetThis q (g, t) = Inr (p, g, t)"
  by (simp add: GetThis_def)

lemma YieldTo_eq:
  assumes "t_fiber t = Some p" "fheap g p = Some f" "t_mainFiber t = Some mf" "fheap g mf = Some fm"
    and "p \<noteq> mf" "ctx_rt g = 0"
  shows "YieldTo st q (g, t) =
    Inr (set_fiber p (f\<lparr>m_state := st, m_ctx := (m_ctx f)\<lparr>resume := InCallback\<rparr>\<rparr>) g,
         t\<lparr>t_fiber := Some mf, cpu := (mf, resume (m_ctx fm))\<rparr>)"
  using assms swapOut_eq [of "set_fiber p (f\<lparr>m_state := st\<rparr>) g" p "f\<lparr>m_state := st\<rparr>" t mf fm InCallback]
  by (simp add: YieldTo_def GetThis_cur set_state_def)

lemma MainFunc_eq:
  assumes "t_fiber t = Some p" "fheap g p = Some f" "t_mainFiber t = Some mf" "fheap g mf = Some fm"
    and "p \<noteq> mf" "ctx_rt g = 0"
  shows "MainFunc q o1 (g, t) =
    Inr (set_fiber p ((finished o1 f)\<lparr>m_ctx := (m_ctx f)\<lparr>resume := AtNeverReach\<rparr>\<rparr>) g,
         t\<lparr>t_fiber := Some mf, cpu := (mf, resume (m_ctx fm))\<rparr>)"
  using assms swapOut_eq [of "set_fiber p (finished o1 f) g" p "finished o1 f" t mf fm AtNeverReach]
  by (simp add: MainFunc_def MainFunc_body_def GetThis_cur)

lemma swapIn_finished:
  assumes "reach fiber_init fiber_step (g, T)" and "fheap g p = Some f" and "m_stack f \<noteq> 0"
    and "m_state f = TERM_ST \<or> m_state f = EXCEPT"
    and "t_mainFiber (T i) = Some mf" and "fheap g mf = Some fm" and "p \<noteq> mf" and "ctx_rt g = 0"
  shows "\<exists>s. swapIn p (g, T i) = Inr s \<and> resumed s = Inl (Assert ''never reach fiber_id'')"
proof -
  have "fibers_inv (g, T)" using assms(1) by (rule fiber_system.inv_reach)
  then have "fiber_ok f" using assms(2) by (auto simp: fibers_inv_def intro: ranI)
  then have "resume (m_ctx f) = AtNeverReach" using assms(3,4) by (auto simp: fiber_ok_def)
  then have "swapIn p (g, T i) =
      Inr (set_fiber mf (fm\<lparr>m_ctx := (m_ctx fm)\<lparr>resume := InSwapIn\<rparr>\<rparr>) (set_fiber p (f\<lparr>m_state := EXEC\<rparr>) g),
           (T i)\<lparr>t_fiber := Some p, cpu := (p, AtNeverReach)\<rparr>)"
    using assms swapIn_eq [of g p f "T i" mf fm] by auto
  then show ?thesis by (simp add: resumed_def never_reach_def)
qed

section \<open>Properties\<close>

text \<open>
  C16. A coroutine switch is undone exactly by the yield: on a thread whose scheduling fiber is
  \<open>mf\<close>, \<^verbatim>\<open>swapIn\<close> of a fiber that is not executing makes it the current fiber and continues it
  where it stopped; its \<^verbatim>\<open>YieldToReady\<close> or \<^verbatim>\<open>YieldToHold\<close> brings the thread back behind that
  \<^verbatim>\<open>swapIn\<close> in \<open>mf\<close>, with only the two switched objects changed, and the next \<^verbatim>\<open>swapIn\<close>
  continues the fiber behind its yield.
\<close>

theorem swapIn_yield_roundtrip:
  assumes "t_mainFiber t = Some mf" "fheap g mf = Some fm" "fheap g p = Some f" "p \<noteq> mf"
    and "m_state f \<noteq> EXEC" "ctx_rt g = 0" "st = READY \<or> st = HOLD"
  shows "\<exists>g1 t1 g2 t2 g3 t3.
    swapIn p (g, t) = Inr (g1, t1) \<and> t_fiber t1 = Some p \<and> cpu t1 = (p, resume (m_ctx f)) \<and>
    YieldTo st q (g1, t1) = Inr (g2, t2) \<and> t_fiber t2 = Some mf \<and> cpu t2 = (mf, InSwapIn) \<and>
    fheap g2 = (fheap g)(mf \<mapsto> fm\<lparr>m_ctx := (m_ctx fm)\<lparr>resume := InSwapIn\<rparr>\<rparr>,
                         p \<mapsto> f\<lparr>m_state := st, m_ctx := (m_ctx f)\<lparr>resume := InCallback\<rparr>\<rparr>) \<and>
    swapIn p (g2, t2) = Inr (g3, t3) \<and> cpu t3 = (p, InCallback)"
proof -
  let ?fm = "fm\<lparr>m_ctx := (m_ctx fm)\<lparr>resume := InSwapIn\<rparr>\<rparr>"
  let ?g1 = "set_fiber mf ?fm (set_fiber p (f\<lparr>m_state := EXEC\<rparr>) g)"
  let ?t1 = "t\<lparr>t_fiber := Some p, cpu := (p, resume (m_ctx f))\<rparr>"
  let ?f2 = "f\<lparr>m_state := st, m_ctx := (m_ctx f)\<lparr>resume := InCallback\<rparr>\<rparr>"
  let ?g2 = "set_fiber p ?f2 ?g1" and ?t2 = "t\<lparr>t_fiber := Some mf, cpu := (mf, InSwapIn)\<rparr>"
  have 1: "swapIn p (g, t) = Inr (?g1, ?t1)" using assms by (simp add: swapIn_eq)
  have 2: "YieldTo st q (?g1, ?t1) = Inr (?g2, ?t2)"
    using assms YieldTo_eq [of ?t1 p ?g1 "f\<lparr>m_state := EXEC\<rparr>" mf ?fm st q] by simp
  have "\<exists>g3 t3. swapIn p (?g2, ?t2) = Inr (g3, t3) \<and> cpu t3 = (p, InCallback)"
    using assms swapIn_eq [of ?g2 p ?f2 ?t2 mf ?fm] by auto
  moreover have "fheap ?g2 = (fheap g)(mf \<mapsto> ?fm, p \<mapsto> ?f2)"
    using assms(4) by (auto simp: fun_upd_def)
  ultimately show ?thesis using 1 2 by fastforce
qed

definition demo_env :: fiber_env where
  "demo_env = \<lparr>fheap = Map.empty, s_fiber_id = 0, s_fiber_count = 0,
     g_fiber_stack_size = 131072, ctx_rt = 0\<rparr>"

text \<open>Thread 0 with its main fiber at 1 as scheduling fiber, and a new fiber at 2.\<close>

definition demo_main :: fiber where
  "demo_main = \<lparr>m_id = 0, m_stacksize = 0, m_state = EXEC, m_ctx = getcontext 0 0,
     m_stack = 0, fiber_cb = None\<rparr>"

definition demo_fiber :: fiber where
  "demo_fiber = \<lparr>m_id = 1, m_stacksize = 131072, m_state = INIT,
     m_ctx = makecontext AtMainFunc (getcontext 9 131072), m_stack = 9, fiber_cb = Some (Fn 5)\<rparr>"

definition demo_env2 :: fiber_env where
  "demo_env2 = \<lparr>fheap = [1 \<mapsto> demo_main, 2 \<mapsto> demo_fiber], s_fiber_id = 1, s_fiber_count = 2,
     g_fiber_stack_size = 131072, ctx_rt = 0\<rparr>"

definition demo_tls :: tls where
  "demo_tls = \<lparr>t_fiber = Some 1, t_threadFiber = Some 1, t_mainFiber = Some 1, cpu = (0, InCallback)\<rparr>"

lemma demo_reach: "reach fiber_init fiber_step (demo_env2, (\<lambda>_. idle_tls)(0 := demo_tls))"
proof -
  let ?t1 = "idle_tls\<lparr>t_fiber := Some 1, t_threadFiber := Some 1\<rparr>"
  let ?g1 = "demo_env\<lparr>fheap := [1 \<mapsto> demo_main], s_fiber_count := 1\<rparr>"
  have "reach fiber_init fiber_step (demo_env, \<lambda>_. idle_tls)"
    by (rule reach.reach_init) (simp add: fiber_init_def demo_env_def)
  then have "reach fiber_init fiber_step (?g1, (\<lambda>_. idle_tls)(0 := ?t1))"
    by (rule reach.reach_step) (rule fiber_step.f_this [of _ 1],
      simp_all add: demo_env_def GetThis_def Fiber_main_def idle_tls_def SetThis_def set_fiber_def
        demo_main_def Let_def)
  then have "reach fiber_init fiber_step (demo_env2, (\<lambda>_. idle_tls)(0 := ?t1))"
    by (rule reach.reach_step) (rule fiber_step.f_new [of _ 2 9 "Some (Fn 5)" 0 False],
      simp_all add: demo_env_def demo_env2_def Fiber_new_def set_fiber_def Let_def demo_fiber_def
        makecontext_def)
  moreover have "(\<lambda>_. idle_tls)(0 := demo_tls) =
      ((\<lambda>_. idle_tls)(0 := ?t1))(0 := (((\<lambda>_. idle_tls)(0 := ?t1)) 0)\<lparr>t_mainFiber := Some 1\<rparr>)"
    by (simp add: demo_tls_def idle_tls_def)
  ultimately show ?thesis by (metis fiber_step.f_main reach.reach_step)
qed

theorem swapIn_yield_roundtrip_witness:
  "\<exists>g1 t1 g2 t2. swapIn 2 (demo_env2, demo_tls) = Inr (g1, t1) \<and> cpu t1 = (2, AtMainFunc) \<and>
     YieldToHold 3 (g1, t1) = Inr (g2, t2) \<and> cpu t2 = (1, InSwapIn)"
  using swapIn_yield_roundtrip [of demo_tls 1 demo_env2 demo_main 2 demo_fiber HOLD 3]
  by (auto simp: demo_tls_def demo_env2_def demo_fiber_def makecontext_def)



text \<open>
  A finished fiber cannot be continued: in every reachable state, \<^verbatim>\<open>swapIn\<close> of a fiber in
  state \<^verbatim>\<open>TERM\<close> or \<^verbatim>\<open>EXCEPT\<close> passes its own check (which asks for "not EXEC" only), loads the
  context behind the last \<^verbatim>\<open>swapOut\<close> of \<^verbatim>\<open>MainFunc\<close>, and the assertion there stops the process.
\<close>

theorem finished_fiber_aborts:
  assumes "reach fiber_init fiber_step (g, T)" and "fheap g p = Some f" and "m_stack f \<noteq> 0"
    and "m_state f = TERM_ST \<or> m_state f = EXCEPT"
    and "t_mainFiber (T i) = Some mf" and "fheap g mf = Some fm" and "p \<noteq> mf" and "ctx_rt g = 0"
  shows "\<exists>s. swapIn p (g, T i) = Inr s \<and> resumed s = Inl (Assert ''never reach fiber_id'')"
  using assms by (rule swapIn_finished)

lemma demo_finished:
  "\<exists>g T f fm. reach fiber_init fiber_step (g, T) \<and> fheap g 2 = Some f \<and> m_stack f \<noteq> 0 \<and>
     m_state f = TERM_ST \<and> t_mainFiber (T 0) = Some 1 \<and> fheap g 1 = Some fm \<and> ctx_rt g = 0"
proof -
  let ?T = "(\<lambda>_. idle_tls)(0 := demo_tls)"
  let ?fm = "demo_main\<lparr>m_ctx := (m_ctx demo_main)\<lparr>resume := InSwapIn\<rparr>\<rparr>"
  let ?f1 = "demo_fiber\<lparr>m_state := EXEC\<rparr>"
  let ?g1 = "set_fiber 1 ?fm (set_fiber 2 ?f1 demo_env2)"
  let ?t1 = "demo_tls\<lparr>t_fiber := Some 2, cpu := (2, AtMainFunc)\<rparr>"
  let ?f2 = "(finished Returns ?f1)\<lparr>m_ctx := (m_ctx ?f1)\<lparr>resume := AtNeverReach\<rparr>\<rparr>"
  let ?t2 = "demo_tls\<lparr>t_fiber := Some 1, cpu := (1, InSwapIn)\<rparr>"
  have "swapIn 2 (demo_env2, ?T 0) = Inr (?g1, ?t1)"
    using swapIn_eq [of demo_env2 2 demo_fiber demo_tls 1 demo_main]
    by (simp add: demo_env2_def demo_tls_def demo_fiber_def makecontext_def)
  then have "fiber_step (demo_env2, ?T) (?g1, ?T(0 := ?t1))"
    by (intro fiber_step.f_swapIn [of ?T 0 1 demo_env2 demo_main 2])
      (auto simp: demo_tls_def demo_env2_def demo_main_def)
  with demo_reach have r1: "reach fiber_init fiber_step (?g1, ?T(0 := ?t1))"
    by (rule reach.reach_step)
  have "MainFunc 3 Returns (?g1, (?T(0 := ?t1)) 0) = Inr (set_fiber 2 ?f2 ?g1, ?t2)"
    using MainFunc_eq [of ?t1 2 ?g1 ?f1 1 ?fm 3 Returns] by (simp add: demo_tls_def demo_env2_def)
  then have "fiber_step (?g1, ?T(0 := ?t1)) (set_fiber 2 ?f2 ?g1, ?T(0 := ?t1, 0 := ?t2))"
    by (intro fiber_step.f_finish [of ?g1 3 Returns]) (simp_all add: demo_env2_def)
  with r1 have "reach fiber_init fiber_step (set_fiber 2 ?f2 ?g1, ?T(0 := ?t1, 0 := ?t2))"
    by (rule reach.reach_step)
  then show ?thesis
    by (intro exI [of _ "set_fiber 2 ?f2 ?g1"] exI [of _ "?T(0 := ?t1, 0 := ?t2)"] exI [of _ ?f2]
        exI [of _ ?fm])
      (simp add: finished_def call_outcome_def demo_fiber_def demo_tls_def demo_env2_def)
qed

theorem finished_fiber_aborts_witness:
  "\<exists>g T s. reach fiber_init fiber_step (g, T) \<and> swapIn 2 (g, T 0) = Inr s \<and>
     resumed s = Inl (Assert ''never reach fiber_id'')"
proof -
  obtain g T f fm where d: "reach fiber_init fiber_step (g, T)" "fheap g 2 = Some f" "m_stack f \<noteq> 0"
    "m_state f = TERM_ST" "t_mainFiber (T 0) = Some 1" "fheap g 1 = Some fm" "ctx_rt g = 0"
    using demo_finished by blast
  from finished_fiber_aborts [OF d(1-3) _ d(5,6) _ d(7)] d(1,4) show ?thesis by auto
qed

text \<open>
  The public constructor: whatever \<^verbatim>\<open>use_caller\<close> says, the context enters \<^verbatim>\<open>MainFunc\<close> (the last
  \<^verbatim>\<open>makecontext\<close> wins, so \<^verbatim>\<open>CallerMainFunc\<close>, which could only abort, is never entered); the
  stack has the configured size when none is given and otherwise the given size cut to 32 bits;
  the id is the next one; and starting the fiber with \<^verbatim>\<open>swapIn\<close> runs its function from the start.
\<close>

theorem Fiber_new_starts_MainFunc:
  assumes "fheap g p = None" and "ctx_rt g = 0" and "t_mainFiber t = Some mf" and "fheap g mf = Some fm"
  shows "\<exists>g1 f g2 t2. Fiber_new p stk cb sz use_caller g = Inr g1 \<and> fheap g1 = (fheap g)(p \<mapsto> f) \<and>
    m_id f = s_fiber_id g + 1 \<and> fiber_cb f = cb \<and> m_state f = INIT \<and>
    unat (m_stacksize f) = (if sz = 0 then unat (g_fiber_stack_size g) else unat sz mod 2 ^ 32) \<and>
    swapIn p (g1, t) = Inr (g2, t2) \<and> cpu t2 = (p, AtMainFunc) \<and>
    (\<exists>e. CallerMainFunc q o1 (g2, t2) = Inl e)"
proof -
  obtain g1 f where n: "Fiber_new p stk cb sz use_caller g = Inr g1" "fheap g1 = (fheap g)(p \<mapsto> f)"
    "m_id f = s_fiber_id g + 1" "fiber_cb f = cb" "m_state f = INIT" "ctx_rt g1 = 0"
    "m_stacksize f = (if sz \<noteq> 0 then ucast sz else g_fiber_stack_size g)"
    "resume (m_ctx f) = AtMainFunc"
    using assms(2) by (auto simp: Fiber_new_def Let_def makecontext_def)
  have "p \<noteq> mf" using assms by auto
  then have sw: "\<exists>g2 t2. swapIn p (g1, t) = Inr (g2, t2) \<and> cpu t2 = (p, AtMainFunc)"
    using n assms swapIn_eq [of g1 p f t mf fm] by auto
  have "\<exists>e. CallerMainFunc q o1 s = Inl e" for s
    by (cases "MainFunc_body q o1 s")
      (auto simp: CallerMainFunc_def fiber_back_def never_reach_def split: prod.splits)
  moreover have "unat (ucast sz :: u32) = unat sz mod 2 ^ 32"
    by (simp add: unsigned_ucast_eq take_bit_eq_mod)
  ultimately show ?thesis using n sw by fastforce
qed

theorem Fiber_new_starts_MainFunc_witness:
  "\<exists>g1 g2 t2. Fiber_new 3 8 (Some (Fn 1)) 4294967297 True demo_env2 = Inr g1 \<and>
     m_stacksize (the (fheap g1 3)) = 1 \<and>
     swapIn 3 (g1, demo_tls) = Inr (g2, t2) \<and> cpu t2 = (3, AtMainFunc)"
proof -
  obtain g1 f g2 t2 where r: "Fiber_new 3 8 (Some (Fn 1)) 4294967297 True demo_env2 = Inr g1"
    "fheap g1 = (fheap demo_env2)(3 \<mapsto> f)"
    "unat (m_stacksize f) = (if (4294967297 :: u64) = 0 then unat (g_fiber_stack_size demo_env2)
       else unat (4294967297 :: u64) mod 2 ^ 32)"
    "swapIn 3 (g1, demo_tls) = Inr (g2, t2)" "cpu t2 = (3, AtMainFunc)"
    using Fiber_new_starts_MainFunc [of demo_env2 3 demo_tls 1 demo_main 8 "Some (Fn 1)" 4294967297 True
      0 Returns]
    by (auto simp: demo_env2_def demo_tls_def)
  then have "unat (m_stacksize f) = 1" by simp
  then have "m_stacksize f = 1" by (simp add: word_unat_eq_iff)
  with r show ?thesis by auto
qed

text \<open>
  Without a scheduler on the thread there is no fiber to return to: \<^verbatim>\<open>swapIn\<close> passes a null
  context to \<^verbatim>\<open>swapcontext\<close>, whatever the fiber.
\<close>

theorem swapIn_without_scheduler:
  assumes "t_mainFiber t = None" and "fheap g p = Some f" and "m_state f \<noteq> EXEC"
  shows "swapIn p (g, t) = Inl (UB ''null context'')"
  using assms by (simp add: swapIn_def set_state_def swapcontext_def Let_def)

theorem swapIn_without_scheduler_witness:
  "swapIn 2 (demo_env2, demo_tls\<lparr>t_mainFiber := None\<rparr>) = Inl (UB ''null context'')"
  using swapIn_without_scheduler [of "demo_tls\<lparr>t_mainFiber := None\<rparr>" demo_env2 2 demo_fiber]
  by (simp add: demo_env2_def demo_fiber_def)

end
