(* ===== verification/Duan_Scheduler.thy ===== *)
theory Duan_Scheduler
  imports Duan_Fiber
begin

text \<open>
  \<^verbatim>\<open>scheduler.h\<close>, \<^verbatim>\<open>scheduler.cc\<close>: the N-M scheduler. One scheduler object, its task queue and
  counters, and any number of threads that execute \<^verbatim>\<open>Scheduler::run\<close>. The loop of \<^verbatim>\<open>run\<close> is cut
  where threads can interleave: the locked scan of the queue (\<open>run_take\<close>), the dispatch up to the
  context switch (\<open>run_dispatch\<close>), and what the loop does when the context comes back
  (\<open>run_return\<close>). What a task does while it runs is arbitrary: it schedules, yields, switches
  out, returns or throws. Thread ids are the \<^verbatim>\<open>pid_t\<close> values of \<^verbatim>\<open>GetThreadId\<close>.
\<close>

section \<open>Data\<close>

record FiberAndThread =
  ft_fiber :: "nat option"
  ft_cb :: "callback option"
  ft_thread :: int

definition ft_reset :: FiberAndThread where
  "ft_reset = \<lparr>ft_fiber = None, ft_cb = None, ft_thread = - 1\<rparr>"

definition ft_of_fiber :: "nat option \<Rightarrow> int \<Rightarrow> FiberAndThread" where
  "ft_of_fiber f thr = \<lparr>ft_fiber = f, ft_cb = None, ft_thread = thr\<rparr>"

definition ft_of_cb :: "callback option \<Rightarrow> int \<Rightarrow> FiberAndThread" where
  "ft_of_cb cb thr = \<lparr>ft_fiber = None, ft_cb = cb, ft_thread = thr\<rparr>"

definition ft_valid :: "FiberAndThread \<Rightarrow> bool" where
  "ft_valid ft \<longleftrightarrow> ft_fiber ft \<noteq> None \<or> ft_cb ft \<noteq> None"

record scheduler =
  m_fibers :: "FiberAndThread list"
  m_threads :: "int list"
  m_rootFiber :: "nat option"
  m_name :: string
  m_threadIds :: "int list"
  m_threadCount :: u64
  m_activeThreadCount :: u64
  m_idleThreadCount :: u64
  m_stopping :: bool
  m_autoStop :: bool
  m_rootThread :: int

section \<open>The queue\<close>

definition scheduleNoLock :: "FiberAndThread \<Rightarrow> scheduler \<Rightarrow> bool \<times> scheduler" where
  "scheduleNoLock ft s =
     (let need_tickle = (m_fibers s = [])
      in (need_tickle, if ft_valid ft then s\<lparr>m_fibers := m_fibers s @ [ft]\<rparr> else s))"

text \<open>
  \<^verbatim>\<open>Scheduler::scheduler(fc, thread)\<close>: the flag says that \<^verbatim>\<open>tickle()\<close> is called.
\<close>

definition schedule :: "FiberAndThread \<Rightarrow> scheduler \<Rightarrow> bool \<times> scheduler" where
  "schedule ft s = scheduleNoLock ft s"

text \<open>
  \<^verbatim>\<open>Scheduler::scheduler(begin, end)\<close> over a range of function objects. Each is swapped into the
  queue, so the range is left empty; the results are the flag, the range and the scheduler.
\<close>

fun schedule_range ::
  "callback option list \<Rightarrow> scheduler \<Rightarrow> bool \<times> callback option list \<times> scheduler" where
  "schedule_range [] s = (False, [], s)"
| "schedule_range (cb # cbs) s =
     (let (n1, s1) = scheduleNoLock (ft_of_cb cb (- 1)) s;
          (n2, rest, s2) = schedule_range cbs s1
      in (n1 \<or> n2, None # rest, s2))"

text \<open>
  What the clients of the queue (the loop itself, the I/O manager) rely on: an accepted task goes
  to the end, nothing else moves, and the caller is told to wake somebody when the queue was empty.
\<close>

locale task_sink =
  fixes put :: "'t \<Rightarrow> 's \<Rightarrow> bool \<times> 's"
    and tasks :: "'s \<Rightarrow> 't list"
    and accepts :: "'t \<Rightarrow> bool"
  assumes tasks_put: "tasks (snd (put t s)) = tasks s @ (if accepts t then [t] else [])"
    and put_wakes: "fst (put t s) \<longleftrightarrow> tasks s = []"
begin

lemma tasks_put_all: "tasks (fold (\<lambda>t s. snd (put t s)) ts s) = tasks s @ filter accepts ts"
  by (induction ts arbitrary: s) (simp_all add: tasks_put)

lemma put_again_silent: "accepts t \<Longrightarrow> \<not> fst (put t' (snd (put t s)))"
  by (simp add: put_wakes tasks_put)

lemma put_keeps_valid:
  "\<forall>t\<in>set (tasks s). accepts t \<Longrightarrow> \<forall>t\<in>set (tasks (snd (put t' s))). accepts t"
  by (auto simp: tasks_put)

end

interpretation sched_queue: task_sink schedule m_fibers ft_valid
  by unfold_locales (simp_all add: schedule_def scheduleNoLock_def Let_def)

text \<open>
  The scan of \<^verbatim>\<open>run\<close> by thread \<open>i\<close>: the task taken, whether another thread is to be woken, and
  the queue that is left.
\<close>

fun scan ::
  "(nat \<Rightarrow> State) \<Rightarrow> int \<Rightarrow> FiberAndThread list \<Rightarrow>
     (FiberAndThread option \<times> bool \<times> FiberAndThread list) res" where
  "scan st i [] = Inr (None, False, [])"
| "scan st i (ft # fts) =
     (if ft_thread ft \<noteq> - 1 \<and> ft_thread ft \<noteq> i
      then bind_res (scan st i fts) (\<lambda>(r, _, q). Inr (r, True, ft # q))
      else DUAN_ASSERT ''it->fiber || it->cb'' (ft_valid ft)
        (if ft_fiber ft \<noteq> None \<and> st (the (ft_fiber ft)) = EXEC
         then bind_res (scan st i fts) (\<lambda>(r, tk, q). Inr (r, tk, ft # q))
         else Inr (Some ft, False, fts)))"

definition stopping :: "scheduler \<Rightarrow> bool" where
  "stopping s \<longleftrightarrow> m_autoStop s \<and> m_stopping s \<and> m_fibers s = [] \<and> m_activeThreadCount s = 0"

definition hasIdleThreads :: "scheduler \<Rightarrow> bool" where
  "hasIdleThreads s \<longleftrightarrow> 0 < m_idleThreadCount s"

section \<open>Construction, start and stop\<close>

text \<open>
  The constructor, run by a thread in state \<open>(g, t)\<close> whose \<^verbatim>\<open>t_scheduler\<close> is set or not
  (\<open>has\<close>). \<open>pm\<close>, \<open>pr\<close> and \<open>stk\<close> are the addresses of the main fiber it may create, of the root
  fiber and of its stack. \<^verbatim>\<open>m_rootThread\<close> gets the current \<^emph>\<open>fiber\<close> id, cut to 32 bits.
\<close>

definition Scheduler_new ::
  "nat \<Rightarrow> nat \<Rightarrow> nat \<Rightarrow> u64 \<Rightarrow> bool \<Rightarrow> string \<Rightarrow> bool \<Rightarrow> fstate \<Rightarrow> (scheduler \<times> bool \<times> fstate) res" where
  "Scheduler_new pm pr stk threads use_caller name has gt =
     (let s0 = \<lparr>m_fibers = [], m_threads = [], m_rootFiber = None, m_name = name, m_threadIds = [],
                m_threadCount = 0, m_activeThreadCount = 0, m_idleThreadCount = 0,
                m_stopping = True, m_autoStop = False, m_rootThread = 0\<rparr>
      in DUAN_ASSERT ''threads > 0'' (threads > 0)
        (if use_caller then
           bind_res (GetThis pm gt) (\<lambda>(_, g1, t1).
             DUAN_ASSERT ''GetThis() == nullptr'' (\<not> has)
               (bind_res (Fiber_new pr stk (Some SchedulerRun) 0 False g1) (\<lambda>g2.
                 let t2 = t1\<lparr>t_mainFiber := Some pr\<rparr>
                 in bind_res (GetFiberId (g2, t2)) (\<lambda>fid.
                      let rt = sint (ucast fid :: u32)
                      in Inr (s0\<lparr>m_rootFiber := Some pr, m_rootThread := rt, m_threadIds := [rt],
                                 m_threadCount := threads - 1\<rparr>, True, g2, t2)))))
         else Inr (s0\<lparr>m_rootThread := - 1, m_threadCount := threads\<rparr>, has, gt)))"

definition Scheduler_delete :: "scheduler \<Rightarrow> bool \<Rightarrow> bool res" where
  "Scheduler_delete s has = DUAN_ASSERT ''m_stopping'' (m_stopping s) (Inr False)"

text \<open>\<^verbatim>\<open>start\<close>; \<open>new_tid k\<close> is the id of the \<open>k\<close>-th thread it creates.\<close>

definition start :: "(nat \<Rightarrow> int) \<Rightarrow> scheduler \<Rightarrow> scheduler res" where
  "start new_tid s =
     (if \<not> m_stopping s then Inr s
      else DUAN_ASSERT ''m_threads.empty()'' (m_threads s = [])
        (let tids = map new_tid [0..<unat (m_threadCount s)]
         in Inr (s\<lparr>m_stopping := False, m_threads := tids, m_threadIds := m_threadIds s @ tids\<rparr>)))"

text \<open>
  \<^verbatim>\<open>stop\<close> up to the point where it hands over or joins: it has returned, it calls the root fiber,
  or it goes on to swap out the thread list and join every thread of it. The number is how often
  \<^verbatim>\<open>tickle()\<close> was called; \<open>root_state\<close> is the state of the root fiber.
\<close>

datatype stop_next = StopReturned | StopCallRoot nat | StopJoin

definition stop ::
  "State \<Rightarrow> bool \<Rightarrow> scheduler \<Rightarrow> (stop_next \<times> nat \<times> scheduler) res" where
  "stop root_state has s =
     (let s1 = s\<lparr>m_autoStop := True\<rparr>;
          early = (m_rootFiber s1 \<noteq> None \<and> m_threadCount s1 = 0 \<and>
                   (root_state = TERM_ST \<or> root_state = INIT));
          s2 = (if early then s1\<lparr>m_stopping := True\<rparr> else s1)
      in if early \<and> stopping s2 then Inr (StopReturned, 0, s2)
         else
           let k = (let s3 = s2\<lparr>m_stopping := True\<rparr>;
                        n = unat (m_threadCount s3) + (if m_rootFiber s3 \<noteq> None then 1 else 0)
                    in case m_rootFiber s3 of
                         Some p \<Rightarrow> if \<not> stopping s3 then Inr (StopCallRoot p, n, s3)
                                   else Inr (StopJoin, n, s3)
                       | None \<Rightarrow> Inr (StopJoin, n, s3))
           in if m_rootThread s2 \<noteq> - 1
              then DUAN_ASSERT ''GetThis() == this'' has k
              else DUAN_ASSERT ''GetThis() != this'' (\<not> has) k)"

definition stop_join :: "scheduler \<Rightarrow> int list \<times> scheduler" where
  "stop_join s = (m_threads s, s\<lparr>m_threads := []\<rparr>)"

section \<open>The scheduling loop\<close>

text \<open>
  Where a thread is in \<^verbatim>\<open>run\<close>: before it, at the top of the loop, after the locked scan (with the
  task and \<^verbatim>\<open>is_active\<close>), inside a task's fiber, inside the fiber of a function, inside the idle
  fiber, or past the loop.
\<close>

datatype run_pc =
    NotRunning
  | Top
  | Got FiberAndThread bool
  | InFiber nat
  | InCb nat
  | InIdle
  | Exited

record run_local =
  pc :: run_pc
  idle_fiber :: nat
  cb_fiber :: "nat option"

text \<open>
  The scheduler, the fibers, every thread's thread-local variables and loop state, which threads
  have \<^verbatim>\<open>t_scheduler\<close> set, and how often the virtual \<^verbatim>\<open>tickle()\<close> was called.
\<close>

record world =
  sch :: scheduler
  env :: fiber_env
  tl :: "int \<Rightarrow> tls"
  rl :: "int \<Rightarrow> run_local"
  t_scheduler :: "int \<Rightarrow> bool"
  tickles :: nat

definition state_of :: "fiber_env \<Rightarrow> nat \<Rightarrow> State" where
  "state_of g p = (case fheap g p of Some f \<Rightarrow> m_state f | None \<Rightarrow> INIT)"

definition set_pc :: "int \<Rightarrow> run_pc \<Rightarrow> world \<Rightarrow> world" where
  "set_pc i c w = w\<lparr>rl := (rl w)(i := (rl w i)\<lparr>pc := c\<rparr>)\<rparr>"

definition tickle_if :: "bool \<Rightarrow> world \<Rightarrow> world" where
  "tickle_if b w = (if b then w\<lparr>tickles := Suc (tickles w)\<rparr> else w)"

definition schedule_w :: "FiberAndThread \<Rightarrow> world \<Rightarrow> world" where
  "schedule_w ft w = (let (n, s) = schedule ft (sch w) in tickle_if n (w\<lparr>sch := s\<rparr>))"

definition add_active :: "u64 \<Rightarrow> world \<Rightarrow> world" where
  "add_active d w = w\<lparr>sch := (sch w)\<lparr>m_activeThreadCount := m_activeThreadCount (sch w) + d\<rparr>\<rparr>"

definition add_idle :: "u64 \<Rightarrow> world \<Rightarrow> world" where
  "add_idle d w = w\<lparr>sch := (sch w)\<lparr>m_idleThreadCount := m_idleThreadCount (sch w) + d\<rparr>\<rparr>"

text \<open>An operation of the fiber module by thread \<open>i\<close>.\<close>

definition on_thread :: "int \<Rightarrow> (fstate \<Rightarrow> fstate res) \<Rightarrow> world \<Rightarrow> world res" where
  "on_thread i f w =
     bind_res (f (env w, tl w i)) (\<lambda>(g, t). Inr (w\<lparr>env := g, tl := (tl w)(i := t)\<rparr>))"

text \<open>The prologue of \<^verbatim>\<open>run\<close>: \<open>pm\<close>, \<open>pi\<close> and \<open>stk\<close> are addresses for new objects.\<close>

definition run_begin :: "nat \<Rightarrow> nat \<Rightarrow> nat \<Rightarrow> int \<Rightarrow> world \<Rightarrow> world res" where
  "run_begin pm pi stk i w =
     (let w1 = w\<lparr>t_scheduler := (t_scheduler w)(i := True)\<rparr> in
      bind_res
        (if i \<noteq> m_rootThread (sch w1)
         then bind_res (GetThis pm (env w1, tl w1 i)) (\<lambda>(cur, g, t).
                Inr (w1\<lparr>env := g, tl := (tl w1)(i := t\<lparr>t_mainFiber := Some cur\<rparr>)\<rparr>))
         else Inr w1)
        (\<lambda>w2.
          bind_res (Fiber_new pi stk (Some SchedulerIdle) 0 False (env w2)) (\<lambda>g.
            Inr (w2\<lparr>env := g,
                    rl := (rl w2)(i := \<lparr>pc = Top, idle_fiber = pi, cb_fiber = None\<rparr>)\<rparr>))))"

definition run_take :: "int \<Rightarrow> world \<Rightarrow> world res" where
  "run_take i w =
     bind_res (scan (state_of (env w)) i (m_fibers (sch w))) (\<lambda>(r, tickle_me, q).
       case r of
         None \<Rightarrow> Inr (tickle_if tickle_me (set_pc i (Got ft_reset False) w))
       | Some ft \<Rightarrow>
           let w1 = w\<lparr>sch := (sch w)\<lparr>m_fibers := q\<rparr>\<rparr>;
               w2 = add_active 1 w1
           in Inr (tickle_if tickle_me (set_pc i (Got ft True) w2)))"

text \<open>
  From the scan to the context switch. A finished context aborts as soon as it is loaded
  (\<open>resumed\<close>). \<open>pn\<close> and \<open>stk\<close> are the addresses of a fiber that may be created.
\<close>

definition run_dispatch :: "nat \<Rightarrow> nat \<Rightarrow> int \<Rightarrow> world \<Rightarrow> world res" where
  "run_dispatch pn stk i w =
     (case pc (rl w i) of
        Got ft is_active \<Rightarrow>
          (let switch_to = (\<lambda>p. on_thread i (\<lambda>gt. bind_res (swapIn p gt) resumed)) in
           if (case ft_fiber ft of
                 None \<Rightarrow> False
               | Some p \<Rightarrow> state_of (env w) p \<noteq> TERM_ST \<or> state_of (env w) p \<noteq> EXCEPT)
           then let p = the (ft_fiber ft) in switch_to p (set_pc i (InFiber p) (add_active 1 w))
           else if ft_cb ft \<noteq> None then
             bind_res
               (case cb_fiber (rl w i) of
                  Some c \<Rightarrow> bind_res (fiber_reset c (ft_cb ft) (env w)) (\<lambda>g. Inr (c, g))
                | None \<Rightarrow> bind_res (Fiber_new pn stk (ft_cb ft) 0 False (env w)) (\<lambda>g. Inr (pn, g)))
               (\<lambda>(c, g).
                 switch_to c (w\<lparr>env := g,
                   rl := (rl w)(i := (rl w i)\<lparr>pc := InCb c, cb_fiber := Some c\<rparr>)\<rparr>))
           else if is_active then Inr (set_pc i Top (add_active (- 1) w))
           else if state_of (env w) (idle_fiber (rl w i)) = TERM_ST
           then Inr (tickle_if True (set_pc i Exited w))
           else switch_to (idle_fiber (rl w i)) (set_pc i InIdle (add_idle 1 w)))
      | _ \<Rightarrow> Inl (UB ''not in the scheduling loop''))"

definition hold_if_live :: "nat \<Rightarrow> world \<Rightarrow> world res" where
  "hold_if_live p w =
     (if state_of (env w) p \<noteq> TERM_ST \<and> state_of (env w) p \<noteq> EXCEPT
      then bind_res (set_state p HOLD (env w)) (\<lambda>g. Inr (w\<lparr>env := g\<rparr>))
      else Inr w)"

text \<open>Back in the scheduling fiber after the switch.\<close>

definition run_return :: "int \<Rightarrow> world \<Rightarrow> world res" where
  "run_return i w =
     (case pc (rl w i) of
        InFiber p \<Rightarrow>
          (let w1 = set_pc i Top (add_active (- 1) w)
           in if state_of (env w1) p = READY
              then Inr (schedule_w (ft_of_fiber (Some p) (- 1)) w1)
              else hold_if_live p w1)
      | InCb c \<Rightarrow>
          (let w1 = set_pc i Top (add_active (- 1) w);
               drop = (\<lambda>w'. w'\<lparr>rl := (rl w')(i := (rl w' i)\<lparr>cb_fiber := None\<rparr>)\<rparr>)
           in if state_of (env w1) c = READY
              then Inr (drop (schedule_w (ft_of_fiber (Some c) (- 1)) w1))
              else if state_of (env w1) c = EXCEPT \<or> state_of (env w1) c = TERM_ST
              then bind_res (fiber_reset c None (env w1)) (\<lambda>g. Inr (w1\<lparr>env := g\<rparr>))
              else bind_res (set_state c HOLD (env w1)) (\<lambda>g. Inr (drop (w1\<lparr>env := g\<rparr>))))
      | InIdle \<Rightarrow> hold_if_live (idle_fiber (rl w i)) (set_pc i Top (add_idle (- 1) w))
      | _ \<Rightarrow> Inl (UB ''not in the scheduling loop''))"

text \<open>The body of \<^verbatim>\<open>Scheduler::idle\<close> once, each time the idle fiber runs.\<close>

definition idle_body :: "nat \<Rightarrow> int \<Rightarrow> world \<Rightarrow> world res" where
  "idle_body q i w =
     (if stopping (sch w) then on_thread i (MainFunc q Returns) w
      else on_thread i (YieldToHold q) w)"

section \<open>The system of threads\<close>

text \<open>
  The threads of \<open>I\<close> execute \<^verbatim>\<open>run\<close>; the number beside the world counts, for the proof only, the
  fiber tasks (not function tasks) whose context has come back to the loop.
\<close>

inductive sched_step :: "int set \<Rightarrow> world \<times> nat \<Rightarrow> world \<times> nat \<Rightarrow> bool" for I :: "int set" where
  s_schedule: "sched_step I (w, n) (schedule_w ft w, n)"
| s_range: "schedule_range cbs (sch w) = (b, r, s') \<Longrightarrow>
    sched_step I (w, n) (tickle_if b (w\<lparr>sch := s'\<rparr>), n)"
| s_start: "start new_tid (sch w) = Inr s' \<Longrightarrow> sched_step I (w, n) (w\<lparr>sch := s'\<rparr>, n)"
| s_stop: "stop rs has (sch w) = Inr (nx, k, s') \<Longrightarrow>
    sched_step I (w, n) (w\<lparr>sch := s', tickles := tickles w + k\<rparr>, n)"
| s_fiber: "fiber_step (env w, tl w) (g', T') \<Longrightarrow>
    sched_step I (w, n) (w\<lparr>env := g', tl := T'\<rparr>, n)"
| s_begin: "i \<in> I \<Longrightarrow> pc (rl w i) = NotRunning \<Longrightarrow> run_begin pm pi stk i w = Inr w' \<Longrightarrow>
    sched_step I (w, n) (w', n)"
| s_take: "i \<in> I \<Longrightarrow> pc (rl w i) = Top \<Longrightarrow> run_take i w = Inr w' \<Longrightarrow>
    sched_step I (w, n) (w', n)"
| s_dispatch: "i \<in> I \<Longrightarrow> pc (rl w i) = Got ft a \<Longrightarrow> run_dispatch pn stk i w = Inr w' \<Longrightarrow>
    sched_step I (w, n) (w', n)"
| s_return: "i \<in> I \<Longrightarrow> run_return i w = Inr w' \<Longrightarrow>
    n' = (case pc (rl w i) of InFiber _ \<Rightarrow> Suc n | _ \<Rightarrow> n) \<Longrightarrow>
    sched_step I (w, n) (w', n')"

definition sched_init :: "int set \<Rightarrow> world \<times> nat \<Rightarrow> bool" where
  "sched_init I wn \<longleftrightarrow>
     (case wn of (w, n) \<Rightarrow>
        finite I \<and> n = 0 \<and> m_fibers (sch w) = [] \<and> m_activeThreadCount (sch w) = 0 \<and>
        m_idleThreadCount (sch w) = 0 \<and> (\<forall>i\<in>I. pc (rl w i) = NotRunning))"

text \<open>How much a thread at each point has added to \<^verbatim>\<open>m_activeThreadCount\<close>.\<close>

fun contrib :: "run_pc \<Rightarrow> nat" where
  "contrib (Got ft a) = (if a then 1 else 0)"
| "contrib (InFiber p) = 2"
| "contrib (InCb c) = 1"
| "contrib _ = 0"

definition pcs :: "world \<Rightarrow> int \<Rightarrow> run_pc" where
  "pcs w i = pc (rl w i)"

definition sched_inv :: "int set \<Rightarrow> world \<times> nat \<Rightarrow> bool" where
  "sched_inv I wn \<longleftrightarrow>
     (case wn of (w, n) \<Rightarrow>
        finite I \<and>
        m_activeThreadCount (sch w) = of_nat ((\<Sum>i\<in>I. contrib (pcs w i)) + n) \<and>
        m_idleThreadCount (sch w) = of_nat (\<Sum>i\<in>I. if pcs w i = InIdle then 1 else 0) \<and>
        (\<forall>ft\<in>set (m_fibers (sch w)). ft_valid ft) \<and>
        (\<forall>i\<in>I. \<forall>ft a. pcs w i = Got ft a \<longrightarrow> (a \<longleftrightarrow> ft_valid ft)))"

section \<open>Effects on the counters and the queue\<close>

lemma sum_upd:
  fixes c :: "'b \<Rightarrow> nat"
  assumes "finite I" and "i \<in> I"
  shows "(\<Sum>j\<in>I. c ((f(i := v)) j)) + c (f i) = (\<Sum>j\<in>I. c (f j)) + c v"
proof -
  have "(\<Sum>j\<in>I - {i}. c ((f(i := v)) j)) = (\<Sum>j\<in>I - {i}. c (f j))"
    by (rule sum.cong) auto
  then show ?thesis using assms by (simp add: sum.remove [of I i])
qed

lemma sum_upd_word:
  fixes c :: "'b \<Rightarrow> nat"
  assumes "finite I" and "i \<in> I"
  shows "(of_nat (\<Sum>j\<in>I. c ((f(i := v)) j)) :: 'w::len word) =
    of_nat (\<Sum>j\<in>I. c (f j)) + of_nat (c v) - of_nat (c (f i))"
  using sum_upd [OF assms, of c f v] by (metis add_diff_cancel_right' of_nat_add)

lemma world_simps [simp]:
  "sch (set_pc i c w) = sch w" "env (set_pc i c w) = env w" "tl (set_pc i c w) = tl w"
  "sch (tickle_if b w) = sch w" "env (tickle_if b w) = env w" "rl (tickle_if b w) = rl w"
  "tl (tickle_if b w) = tl w"
  "env (add_active d w) = env w" "rl (add_active d w) = rl w" "tl (add_active d w) = tl w"
  "env (add_idle d w) = env w" "rl (add_idle d w) = rl w" "tl (add_idle d w) = tl w"
  "m_activeThreadCount (sch (add_active d w)) = m_activeThreadCount (sch w) + d"
  "m_idleThreadCount (sch (add_active d w)) = m_idleThreadCount (sch w)"
  "m_fibers (sch (add_active d w)) = m_fibers (sch w)"
  "m_idleThreadCount (sch (add_idle d w)) = m_idleThreadCount (sch w) + d"
  "m_activeThreadCount (sch (add_idle d w)) = m_activeThreadCount (sch w)"
  "m_fibers (sch (add_idle d w)) = m_fibers (sch w)"
  by (simp_all add: set_pc_def tickle_if_def add_active_def add_idle_def)

lemma pcs_simps [simp]:
  "pcs (set_pc i c w) = (pcs w)(i := c)"
  "pcs (tickle_if b w) = pcs w" "pcs (add_active d w) = pcs w" "pcs (add_idle d w) = pcs w"
  by (auto simp: pcs_def set_pc_def fun_eq_iff tickle_if_def add_active_def add_idle_def)

lemma schedule_w_simps [simp]:
  "m_activeThreadCount (sch (schedule_w ft w)) = m_activeThreadCount (sch w)"
  "m_idleThreadCount (sch (schedule_w ft w)) = m_idleThreadCount (sch w)"
  "pcs (schedule_w ft w) = pcs w" "rl (schedule_w ft w) = rl w"
  "m_fibers (sch (schedule_w ft w)) = m_fibers (sch w) @ (if ft_valid ft then [ft] else [])"
  by (simp_all add: schedule_w_def schedule_def scheduleNoLock_def Let_def tickle_if_def pcs_def
      fun_eq_iff)

lemma schedule_range_Cons:
  "schedule_range (cb # cbs) s =
     (let x = schedule (ft_of_cb cb (- 1)) s; y = schedule_range cbs (snd x)
      in (fst x \<or> fst y, None # fst (snd y), snd (snd y)))"
  by (simp add: schedule_def Let_def split: prod.splits)

lemma schedule_frame: "snd (schedule ft s) = s\<lparr>m_fibers := m_fibers s @ (if ft_valid ft then [ft] else [])\<rparr>"
  by (simp add: schedule_def scheduleNoLock_def Let_def)

lemma schedule_range_silent: "m_fibers s \<noteq> [] \<Longrightarrow> \<not> fst (schedule_range cbs s)"
  by (induction cbs arbitrary: s)
    (simp_all add: schedule_range_Cons sched_queue.put_wakes sched_queue.tasks_put Let_def
      del: schedule_range.simps(2))

lemma schedule_range_wakes:
  "fst (schedule_range cbs s) \<longleftrightarrow> cbs \<noteq> [] \<and> m_fibers s = []"
proof (cases cbs)
  case (Cons c cs)
  then show ?thesis
    using schedule_range_silent [of s cbs]
    by (auto simp: schedule_range_Cons sched_queue.put_wakes Let_def simp del: schedule_range.simps(2))
qed simp

lemma schedule_range_state:
  "snd (schedule_range cbs s) =
     (replicate (length cbs) None,
      s\<lparr>m_fibers := m_fibers s @ filter ft_valid (map (\<lambda>cb. ft_of_cb cb (- 1)) cbs)\<rparr>)"
  by (induction cbs arbitrary: s)
    (simp_all add: schedule_range_Cons schedule_frame Let_def prod_eq_iff del: schedule_range.simps(2))

lemma schedule_range_effect:
  assumes "schedule_range cbs s = (b, r, s')"
  shows "s' = s\<lparr>m_fibers := m_fibers s @ filter ft_valid (map (\<lambda>cb. ft_of_cb cb (- 1)) cbs)\<rparr> \<and>
    r = replicate (length cbs) None"
  using schedule_range_state [of cbs s] assms by simp

lemma on_threadD:
  "on_thread i f w = Inr w' \<Longrightarrow>
     sch w' = sch w \<and> rl w' = rl w \<and> t_scheduler w' = t_scheduler w \<and> tickles w' = tickles w"
  by (auto simp: on_thread_def res_iffs)

section \<open>The scan\<close>

text \<open>Thread \<open>i\<close> has to leave a task alone: another thread's, or one that is executing.\<close>

definition blocked :: "(nat \<Rightarrow> State) \<Rightarrow> int \<Rightarrow> FiberAndThread \<Rightarrow> bool" where
  "blocked st i ft \<longleftrightarrow>
     (ft_thread ft \<noteq> - 1 \<and> ft_thread ft \<noteq> i) \<or>
     (\<exists>p. ft_fiber ft = Some p \<and> st p = EXEC)"

lemma scan_Cons_blocked:
  assumes "blocked st i ft" and "ft_valid ft"
  shows "scan st i (ft # fts) =
    bind_res (scan st i fts)
      (\<lambda>(r, tk, q). Inr (r, (ft_thread ft \<noteq> - 1 \<and> ft_thread ft \<noteq> i) \<or> tk, ft # q))"
proof (cases "ft_thread ft \<noteq> - 1 \<and> ft_thread ft \<noteq> i")
  case False
  then obtain p where "ft_fiber ft = Some p" "st p = EXEC"
    using assms(1) by (auto simp: blocked_def)
  then show ?thesis using False assms(2) by auto
qed simp

lemma scan_Cons_free:
  assumes "\<not> blocked st i ft" and "ft_valid ft"
  shows "scan st i (ft # fts) = Inr (Some ft, False, fts)"
  using assms by (auto simp: blocked_def)

lemma scan_all_blocked:
  assumes "\<forall>ft\<in>set q. ft_valid ft" and "\<forall>ft\<in>set q. blocked st i ft"
  shows "scan st i q =
    Inr (None, \<exists>ft\<in>set q. ft_thread ft \<noteq> - 1 \<and> ft_thread ft \<noteq> i, q)"
  using assms
proof (induction q)
  case (Cons ft fts)
  then show ?case by (simp add: scan_Cons_blocked del: scan.simps(2))
qed simp

lemma scan_take:
  assumes "\<forall>ft\<in>set xs. ft_valid ft" and "\<forall>ft\<in>set xs. blocked st i ft"
    and "\<not> blocked st i ft" and "ft_valid ft"
  shows "scan st i (xs @ ft # ys) =
    Inr (Some ft, \<exists>ft\<in>set xs. ft_thread ft \<noteq> - 1 \<and> ft_thread ft \<noteq> i, xs @ ys)"
  using assms(1,2)
proof (induction xs)
  case Nil
  show ?case using assms(3,4) by (simp add: scan_Cons_free del: scan.simps(2))
next
  case (Cons x xs)
  then show ?case by (simp add: scan_Cons_blocked del: scan.simps(2))
qed

lemma scan_cases:
  assumes "\<forall>ft\<in>set q. ft_valid ft"
  obtains (Take) xs ft ys tk where "q = xs @ ft # ys" "\<forall>x\<in>set xs. blocked st i x"
      "\<not> blocked st i ft" "scan st i q = Inr (Some ft, tk, xs @ ys)"
  | (Empty) tk where "\<forall>x\<in>set q. blocked st i x" "scan st i q = Inr (None, tk, q)"
proof (cases "\<forall>x\<in>set q. blocked st i x")
  case True
  then show ?thesis using Empty scan_all_blocked [OF assms True] by blast
next
  case False
  then have "\<exists>x\<in>set q. \<not> blocked st i x" by blast
  then obtain xs ft ys where q: "q = xs @ ft # ys" "\<not> blocked st i ft"
      "\<forall>x\<in>set xs. \<not> \<not> blocked st i x"
    using split_list_first_prop [of q "\<lambda>x. \<not> blocked st i x"] by blast
  then show ?thesis
    using Take [OF q(1) _ q(2)] scan_take [of xs st i ft ys] assms by auto
qed

section \<open>The counters\<close>

lemma sched_inv_schedule:
  "sched_inv I (w, n) \<Longrightarrow> sched_inv I (schedule_w ft w, n)"
  by (auto simp: sched_inv_def)

lemma sched_inv_frame:
  assumes "sched_inv I (w, n)"
    and "m_activeThreadCount (sch w') = m_activeThreadCount (sch w)"
    and "m_idleThreadCount (sch w') = m_idleThreadCount (sch w)"
    and "\<forall>ft\<in>set (m_fibers (sch w')). ft_valid ft" and "pcs w' = pcs w"
  shows "sched_inv I (w', n)"
  using assms by (simp add: sched_inv_def)

lemma start_frame:
  "start new_tid s = Inr s' \<Longrightarrow>
     m_activeThreadCount s' = m_activeThreadCount s \<and>
     m_idleThreadCount s' = m_idleThreadCount s \<and> m_fibers s' = m_fibers s"
  by (auto simp: start_def Let_def DUAN_ASSERT_Inr_iff split: if_splits)

lemma stop_frame:
  "stop rs has s = Inr (nx, k, s') \<Longrightarrow>
     s' = s\<lparr>m_autoStop := True, m_stopping := True\<rparr>"
  by (auto simp: stop_def Let_def DUAN_ASSERT_Inr_iff split: if_splits option.splits)

text \<open>
  The general step of thread \<open>i\<close>: it moves to the point \<open>c\<close> and changes the counters by what the
  move is worth.
\<close>

lemma sched_inv_move:
  assumes inv: "sched_inv I (w, n)" and i: "i \<in> I"
    and act: "m_activeThreadCount (sch w') =
      m_activeThreadCount (sch w) + of_nat (contrib c + d) - of_nat (contrib (pcs w i))"
    and idl: "m_idleThreadCount (sch w') = m_idleThreadCount (sch w) +
      of_nat (if c = InIdle then 1 else 0) - of_nat (if pcs w i = InIdle then 1 else 0)"
    and q: "\<forall>ft\<in>set (m_fibers (sch w')). ft_valid ft"
    and p: "pcs w' = (pcs w)(i := c)"
    and got: "\<And>ft a. c = Got ft a \<Longrightarrow> (a \<longleftrightarrow> ft_valid ft)"
  shows "sched_inv I (w', n + d)"
proof -
  have fin: "finite I" using inv by (simp add: sched_inv_def)
  let ?cI = "\<lambda>c. if c = InIdle then 1 else 0 :: nat"
  have "m_activeThreadCount (sch w') = of_nat ((\<Sum>j\<in>I. contrib (pcs w' j)) + (n + d))"
    using inv act sum_upd_word [OF fin i, of contrib "pcs w" c, where 'w = 64]
    by (simp add: sched_inv_def p del: of_nat_sum)
  moreover have "m_idleThreadCount (sch w') = of_nat (\<Sum>j\<in>I. ?cI (pcs w' j))"
    using inv idl sum_upd_word [OF fin i, of ?cI "pcs w" c, where 'w = 64]
    by (simp add: sched_inv_def p del: of_nat_sum)
  ultimately show ?thesis
    using inv q p got by (auto simp: sched_inv_def)
qed

lemma sched_inv_begin:
  assumes "sched_inv I (w, n)" "i \<in> I" "pc (rl w i) = NotRunning" "run_begin pm pi stk i w = Inr w'"
  shows "sched_inv I (w', n)"
proof -
  have "sch w' = sch w" "pcs w' = (pcs w)(i := Top)"
    using assms(4)
    by (auto simp: run_begin_def Let_def res_iffs pcs_def fun_eq_iff split: if_splits)
  then show ?thesis
    using sched_inv_move [OF assms(1,2), of w' Top 0] assms(1,3)
    by (simp add: pcs_def sched_inv_def)
qed

lemma run_take_eq:
  assumes "\<forall>ft\<in>set (m_fibers (sch w)). ft_valid ft"
  obtains (Task) xs ft ys tk where
      "m_fibers (sch w) = xs @ ft # ys" "\<forall>x\<in>set xs. blocked (state_of (env w)) i x"
      "\<not> blocked (state_of (env w)) i ft"
      "run_take i w = Inr (tickle_if tk (set_pc i (Got ft True)
         (add_active 1 (w\<lparr>sch := (sch w)\<lparr>m_fibers := xs @ ys\<rparr>\<rparr>))))"
  | (None) tk where "\<forall>x\<in>set (m_fibers (sch w)). blocked (state_of (env w)) i x"
      "run_take i w = Inr (tickle_if tk (set_pc i (Got ft_reset False) w))"
  using assms
proof (cases rule: scan_cases [of "m_fibers (sch w)" "state_of (env w)" i])
  case (Take xs ft ys tk)
  then show ?thesis by (intro Task) (auto simp: run_take_def Let_def)
next
  case (Empty tk)
  then show ?thesis by (intro None) (auto simp: run_take_def)
qed

lemma ft_reset_invalid [simp]: "\<not> ft_valid ft_reset"
  by (simp add: ft_reset_def ft_valid_def)

lemma pcs_sch_update [simp]: "pcs (w\<lparr>sch := s\<rparr>) = pcs w" "pcs (w\<lparr>env := g\<rparr>) = pcs w"
  "pcs (w\<lparr>tl := t\<rparr>) = pcs w" "pcs (w\<lparr>tickles := k\<rparr>) = pcs w"
  by (simp_all add: pcs_def fun_eq_iff)

lemma sched_inv_take:
  assumes inv: "sched_inv I (w, n)" and i: "i \<in> I" and top: "pc (rl w i) = Top"
    and r: "run_take i w = Inr w'"
  shows "sched_inv I (w', n)"
proof -
  have v: "\<forall>ft\<in>set (m_fibers (sch w)). ft_valid ft" using inv by (simp add: sched_inv_def)
  have c: "pcs w i = Top" using top by (simp add: pcs_def)
  from v show ?thesis
  proof (cases rule: run_take_eq [where i = i])
    case (Task xs ft ys tk)
    with r have "w' = tickle_if tk (set_pc i (Got ft True)
         (add_active 1 (w\<lparr>sch := (sch w)\<lparr>m_fibers := xs @ ys\<rparr>\<rparr>)))" by simp
    then show ?thesis
      using sched_inv_move [OF inv i, of w' "Got ft True" 0] v c Task(1) by simp
  next
    case (None tk)
    with r have "w' = tickle_if tk (set_pc i (Got ft_reset False) w)" by simp
    then show ?thesis
      using sched_inv_move [OF inv i, of w' "Got ft_reset False" 0] v c by simp
  qed
qed

text \<open>
  What a dispatch does to the loop state and the counters: only the case of an \<open>is_active\<close> task
  with neither fiber nor function, which the invariant excludes, and the exit do not switch.
\<close>

lemma run_dispatch_effect:
  assumes "pc (rl w i) = Got ft a" and "run_dispatch pn stk i w = Inr w'"
  shows "m_fibers (sch w') = m_fibers (sch w) \<and>
    (\<exists>c. pcs w' = (pcs w)(i := c) \<and> (\<forall>ft a. c \<noteq> Got ft a) \<and>
      (if ft_fiber ft \<noteq> None
       then c = InFiber (the (ft_fiber ft)) \<and>
         m_activeThreadCount (sch w') = m_activeThreadCount (sch w) + 1 \<and>
         m_idleThreadCount (sch w') = m_idleThreadCount (sch w)
       else if ft_cb ft \<noteq> None
       then (\<exists>p. c = InCb p) \<and> sch w' = sch w
       else if a
       then c = Top \<and> m_activeThreadCount (sch w') = m_activeThreadCount (sch w) - 1 \<and>
         m_idleThreadCount (sch w') = m_idleThreadCount (sch w)
       else (c = Exited \<and> sch w' = sch w) \<or>
         (c = InIdle \<and> m_activeThreadCount (sch w') = m_activeThreadCount (sch w) \<and>
          m_idleThreadCount (sch w') = m_idleThreadCount (sch w) + 1)))"
proof (cases "ft_fiber ft")
  case (Some p)
  then have "on_thread i (\<lambda>gt. bind_res (swapIn p gt) resumed)
      (set_pc i (InFiber p) (add_active 1 w)) = Inr w'"
    using assms by (cases "state_of (env w) p") (auto simp: run_dispatch_def Let_def)
  from on_threadD [OF this] show ?thesis
    using Some by (auto simp: pcs_def fun_eq_iff set_pc_def)
next
  case None
  show ?thesis
  proof (cases "ft_cb ft")
    case (Some cb)
    then obtain c g where
      "on_thread i (\<lambda>gt. bind_res (swapIn c gt) resumed) (w\<lparr>env := g,
         rl := (rl w)(i := (rl w i)\<lparr>pc := InCb c, cb_fiber := Some c\<rparr>)\<rparr>) = Inr w'"
      using assms None by (auto simp: run_dispatch_def Let_def bind_res_Inr_iff)
    from on_threadD [OF this] show ?thesis
      using None Some by (auto simp: pcs_def fun_eq_iff)
  next
    case cb: None
    show ?thesis
    proof (cases "a \<or> state_of (env w) (idle_fiber (rl w i)) = TERM_ST")
      case True
      then show ?thesis using assms None cb
        by (auto simp: run_dispatch_def Let_def split: if_splits)
    next
      case False
      then have "on_thread i (\<lambda>gt. bind_res (swapIn (idle_fiber (rl w i)) gt) resumed)
          (set_pc i InIdle (add_idle 1 w)) = Inr w'"
        using assms None cb by (auto simp: run_dispatch_def Let_def)
      from on_threadD [OF this] show ?thesis
        using None cb False by (auto simp: pcs_def fun_eq_iff set_pc_def)
    qed
  qed
qed

lemma sched_inv_dispatch:
  assumes inv: "sched_inv I (w, n)" and i: "i \<in> I" and got: "pc (rl w i) = Got ft a"
    and r: "run_dispatch pn stk i w = Inr w'"
  shows "sched_inv I (w', n)"
proof -
  have v: "\<forall>ft\<in>set (m_fibers (sch w)). ft_valid ft" using inv by (simp add: sched_inv_def)
  have g: "pcs w i = Got ft a" using got by (simp add: pcs_def)
  have a: "a \<longleftrightarrow> ft_valid ft" using inv i g by (simp add: sched_inv_def)
  obtain c where "m_fibers (sch w') = m_fibers (sch w)" "pcs w' = (pcs w)(i := c)"
      "\<And>ft a. c \<noteq> Got ft a"
      "m_activeThreadCount (sch w') =
        m_activeThreadCount (sch w) + of_nat (contrib c + 0) - of_nat (contrib (pcs w i))"
      "m_idleThreadCount (sch w') = m_idleThreadCount (sch w) +
        of_nat (if c = InIdle then 1 else 0) - of_nat (if pcs w i = InIdle then 1 else 0)"
    using run_dispatch_effect [OF got r] a g
    by (cases "ft_fiber ft"; cases "ft_cb ft"; cases a) (auto simp: ft_valid_def)
  with sched_inv_move [OF inv i, of w' c 0] v show ?thesis by simp
qed

lemma pcs_rl: "pcs (w\<lparr>rl := R(i := r)\<rparr>) = (\<lambda>j. pc (R j))(i := pc r)"
  by (simp add: pcs_def fun_eq_iff)

lemma pcs_eta: "(\<lambda>j. pc (rl w j)) = pcs w"
  by (simp add: pcs_def fun_eq_iff)

lemma rl_set_pc: "rl (set_pc i c w) = (rl w)(i := (rl w i)\<lparr>pc := c\<rparr>)"
  by (simp add: set_pc_def)

lemma hold_if_liveD: "hold_if_live p w = Inr w' \<Longrightarrow> sch w' = sch w \<and> pcs w' = pcs w"
  by (auto simp: hold_if_live_def res_iffs split: if_splits)

lemma run_return_effect:
  assumes "run_return i w = Inr w'"
  obtains (Fiber) p where "pcs w i = InFiber p" "pcs w' = (pcs w)(i := Top)"
      "m_activeThreadCount (sch w') = m_activeThreadCount (sch w) - 1"
      "m_idleThreadCount (sch w') = m_idleThreadCount (sch w)"
      "m_fibers (sch w') = m_fibers (sch w) @
         (if state_of (env w) p = READY then [ft_of_fiber (Some p) (- 1)] else [])"
  | (Cb) c where "pcs w i = InCb c" "pcs w' = (pcs w)(i := Top)"
      "m_activeThreadCount (sch w') = m_activeThreadCount (sch w) - 1"
      "m_idleThreadCount (sch w') = m_idleThreadCount (sch w)"
      "m_fibers (sch w') = m_fibers (sch w) @
         (if state_of (env w) c = READY then [ft_of_fiber (Some c) (- 1)] else [])"
  | (Idle) "pcs w i = InIdle" "pcs w' = (pcs w)(i := Top)"
      "m_activeThreadCount (sch w') = m_activeThreadCount (sch w)"
      "m_idleThreadCount (sch w') = m_idleThreadCount (sch w) - 1"
      "m_fibers (sch w') = m_fibers (sch w)"
proof (cases "pc (rl w i)")
  case (InFiber p)
  let ?w1 = "set_pc i Top (add_active (- 1) w)"
  have "w' = schedule_w (ft_of_fiber (Some p) (- 1)) ?w1 \<and> state_of (env w) p = READY \<or>
      hold_if_live p ?w1 = Inr w' \<and> state_of (env w) p \<noteq> READY"
    using assms InFiber by (auto simp: run_return_def Let_def split: if_splits)
  then show ?thesis
    using InFiber by (intro Fiber [of p])
      (auto simp: pcs_def ft_valid_def ft_of_fiber_def dest: hold_if_liveD)
next
  case (InCb c)
  let ?w1 = "set_pc i Top (add_active (- 1) w)"
  have "pcs w' = (pcs w)(i := Top) \<and>
      m_activeThreadCount (sch w') = m_activeThreadCount (sch w) - 1 \<and>
      m_idleThreadCount (sch w') = m_idleThreadCount (sch w) \<and>
      m_fibers (sch w') = m_fibers (sch w) @
         (if state_of (env w) c = READY then [ft_of_fiber (Some c) (- 1)] else [])"
    using assms InCb
    by (auto simp: run_return_def Let_def res_iffs ft_valid_def ft_of_fiber_def pcs_rl pcs_eta rl_set_pc
        split: if_splits)
  then show ?thesis using InCb by (intro Cb [of c]) (simp_all add: pcs_def)
next
  case InIdle
  then have "hold_if_live (idle_fiber (rl w i)) (set_pc i Top (add_idle (- 1) w)) = Inr w'"
    using assms by (simp add: run_return_def)
  from hold_if_liveD [OF this] show ?thesis
    using InIdle by (intro Idle) (simp_all add: pcs_def)
qed (use assms in \<open>simp_all add: run_return_def\<close>)

lemma ft_of_fiber_valid [simp]: "ft_valid (ft_of_fiber (Some p) k)"
  by (simp add: ft_of_fiber_def ft_valid_def)

lemma sched_inv_return:
  assumes inv: "sched_inv I (w, n)" and i: "i \<in> I" and r: "run_return i w = Inr w'"
  shows "sched_inv I (w', case pc (rl w i) of InFiber _ \<Rightarrow> Suc n | _ \<Rightarrow> n)"
proof -
  have v: "\<forall>ft\<in>set (m_fibers (sch w)). ft_valid ft" using inv by (simp add: sched_inv_def)
  from r show ?thesis
  proof (cases rule: run_return_effect)
    case (Fiber p)
    have "\<forall>ft\<in>set (m_fibers (sch w')). ft_valid ft" using v by (auto simp: Fiber(5))
    from sched_inv_move [OF inv i _ _ this, of Top 1] Fiber(1-4) show ?thesis
      by (simp add: pcs_def)
  next
    case (Cb c)
    have "\<forall>ft\<in>set (m_fibers (sch w')). ft_valid ft" using v by (auto simp: Cb(5))
    from sched_inv_move [OF inv i _ _ this, of Top 0] Cb(1-4) show ?thesis
      by (simp add: pcs_def)
  next
    case Idle
    with sched_inv_move [OF inv i, of w' Top 0] v show ?thesis by (simp add: pcs_def)
  qed
qed

lemma sched_inv_queue: "sched_inv I (w, n) \<Longrightarrow> \<forall>ft\<in>set (m_fibers (sch w)). ft_valid ft"
  by (simp add: sched_inv_def)

lemma sched_step_inv: "sched_step I x y \<Longrightarrow> sched_inv I x \<Longrightarrow> sched_inv I y"
proof (induction rule: sched_step.induct)
  case (s_range cbs w b r s' n)
  have "s' = (sch w)\<lparr>m_fibers := m_fibers (sch w) @
      filter ft_valid (map (\<lambda>cb. ft_of_cb cb (- 1)) cbs)\<rparr>"
    using schedule_range_effect [OF s_range(1)] by simp
  with sched_inv_queue [OF s_range(2)] show ?case
    by (intro sched_inv_frame [OF s_range(2)]) auto
next
  case (s_start new_tid w s' n)
  from start_frame [OF this(1)] sched_inv_queue [OF this(2)] show ?case
    by (intro sched_inv_frame [OF s_start(2)]) auto
next
  case (s_stop rs has w nx k s' n)
  from stop_frame [OF this(1)] sched_inv_queue [OF this(2)] show ?case
    by (intro sched_inv_frame [OF s_stop(2)]) auto
next
  case (s_fiber w g' T' n)
  from sched_inv_queue [OF this(2)] show ?case
    by (intro sched_inv_frame [OF s_fiber(2)]) auto
next
  case s_schedule
  then show ?case by (rule sched_inv_schedule)
next
  case s_begin
  then show ?case by (blast intro: sched_inv_begin)
next
  case s_take
  then show ?case by (blast intro: sched_inv_take)
next
  case s_dispatch
  then show ?case by (blast intro: sched_inv_dispatch)
next
  case s_return
  then show ?case by (simp add: sched_inv_return)
qed

interpretation sched_system: inductive_invariant "sched_init I" "sched_step I" "sched_inv I" for I
proof unfold_locales
  show "sched_inv I x" if "sched_init I x" for x
    using that by (cases x) (auto simp: sched_init_def sched_inv_def pcs_def)
qed (rule sched_step_inv)

lemma contrib_sum_le: "(\<Sum>i\<in>I. contrib (pcs w i)) \<le> 2 * card I"
proof -
  have "contrib c \<le> 2" for c by (cases c) simp_all
  then show ?thesis using sum_bounded_above [of I "\<lambda>i. contrib (pcs w i)" 2] by (simp add: mult.commute)
qed

lemma sched_step_count: "sched_step I (w, n) (w', n') \<Longrightarrow> n \<le> n'"
  by (induction "(w, n)" "(w', n')" rule: sched_step.induct) (auto split: run_pc.splits)

lemma sched_steps_count: "(sched_step I)\<^sup>*\<^sup>* x y \<Longrightarrow> snd x \<le> snd y"
proof (induction rule: rtranclp_induct)
  case (step y z)
  then show ?case using sched_step_count by (cases y, cases z) fastforce
qed simp

lemma reach_steps: "reach init step s \<Longrightarrow> step\<^sup>*\<^sup>* s t \<Longrightarrow> reach init step t"
  by (erule rtranclp_induct) (auto intro: reach.reach_step)

section \<open>A small run\<close>

text \<open>Thread 0 with main fiber 1; fiber 2 is scheduled, runs and returns; the idle fiber is at 3.\<close>

definition demo_sched :: scheduler where
  "demo_sched = \<lparr>m_fibers = [], m_threads = [], m_rootFiber = None, m_name = ''s'', m_threadIds = [],
     m_threadCount = 1, m_activeThreadCount = 0, m_idleThreadCount = 0, m_stopping = True,
     m_autoStop = False, m_rootThread = - 1\<rparr>"

definition demo_world :: world where
  "demo_world = \<lparr>sch = demo_sched, env = demo_env2, tl = (\<lambda>_. demo_tls),
     rl = (\<lambda>_. \<lparr>pc = NotRunning, idle_fiber = 0, cb_fiber = None\<rparr>),
     t_scheduler = (\<lambda>_. False), tickles = 0\<rparr>"

lemmas demo_defs = demo_world_def demo_sched_def demo_env2_def demo_tls_def demo_main_def
  demo_fiber_def

lemma demo_init: "reach (sched_init {0}) (sched_step {0}) (demo_world, 0)"
  by (rule reach.reach_init) (simp add: sched_init_def demo_defs)

lemma demo_run_ok:
  "\<exists>w1 w2 w3 g t w4. run_begin 3 3 9 0 demo_world = Inr w1 \<and> pc (rl w1 0) = Top \<and>
     run_take 0 (schedule_w (ft_of_fiber (Some 2) (- 1)) w1) = Inr w2 \<and>
     pc (rl w2 0) = Got (ft_of_fiber (Some 2) (- 1)) True \<and>
     run_dispatch 4 9 0 w2 = Inr w3 \<and> pc (rl w3 0) = InFiber 2 \<and>
     fheap (env w3) 5 = None \<and> YieldToHold 5 (env w3, tl w3 0) = Inr (g, t) \<and>
     run_return 0 (w3\<lparr>env := g, tl := (tl w3)(0 := t)\<rparr>) = Inr w4 \<and>
     pc (rl w4 0) = Top \<and> m_fibers (sch w4) = []"
  by (simp add: demo_defs run_begin_def run_take_def run_dispatch_def schedule_w_def schedule_def
      scheduleNoLock_def ft_of_fiber_def ft_valid_def Let_def GetThis_def Fiber_new_def set_fiber_def
      makecontext_def getcontext_def state_of_def on_thread_def swapIn_def SetThis_def set_state_def
      swapcontext_def resumed_def tickle_if_def set_pc_def add_active_def YieldTo_def swapOut_def
      run_return_def hold_if_live_def)

lemma demo_returned: "\<exists>w. reach (sched_init {0}) (sched_step {0}) (w, 1)"
proof -
  obtain w1 w2 w3 g t w4 where r: "run_begin 3 3 9 0 demo_world = Inr w1" "pc (rl w1 0) = Top"
    "run_take 0 (schedule_w (ft_of_fiber (Some 2) (- 1)) w1) = Inr w2"
    "pc (rl w2 0) = Got (ft_of_fiber (Some 2) (- 1)) True"
    "run_dispatch 4 9 0 w2 = Inr w3" "pc (rl w3 0) = InFiber 2"
    "fheap (env w3) 5 = None" "YieldToHold 5 (env w3, tl w3 0) = Inr (g, t)"
    "run_return 0 (w3\<lparr>env := g, tl := (tl w3)(0 := t)\<rparr>) = Inr w4"
    using demo_run_ok by metis
  note step = reach.reach_step [where step = "sched_step {0}"]
  have "reach (sched_init {0}) (sched_step {0}) (w1, 0)"
    using demo_init r(1) by (elim step) (auto intro!: s_begin simp: demo_defs)
  then have "reach (sched_init {0}) (sched_step {0}) (schedule_w (ft_of_fiber (Some 2) (- 1)) w1, 0)"
    by (rule step) (rule s_schedule)
  then have "reach (sched_init {0}) (sched_step {0}) (w2, 0)"
    using r(2,3) by (elim step) (auto intro!: s_take)
  then have "reach (sched_init {0}) (sched_step {0}) (w3, 0)"
    using r(4,5) by (elim step) (auto intro!: s_dispatch)
  then have "reach (sched_init {0}) (sched_step {0}) (w3\<lparr>env := g, tl := (tl w3)(0 := t)\<rparr>, 0)"
    using r(7,8) by (elim step) (auto intro!: s_fiber intro: fiber_step.f_yield)
  then have "reach (sched_init {0}) (sched_step {0}) (w4, 1)"
    using r(6,9) by (elim step) (auto intro!: s_return)
  then show ?thesis ..
qed

section \<open>Properties\<close>


text \<open>
  C10. Once one fiber task has come back to the scheduling loop, the scheduler never stops: in
  every later state \<^verbatim>\<open>stopping()\<close> is false, so no idle fiber ends and \<^verbatim>\<open>stop()\<close> joins threads that
  do not finish. The only bound is the width of the counter.
\<close>

theorem no_stop_after_fiber_task:
  assumes "reach (sched_init I) (sched_step I) (w, n)" and "0 < n"
    and "(sched_step I)\<^sup>*\<^sup>* (w, n) (w', n')" and "2 * card I + n' < 2 ^ 64"
  shows "\<not> stopping (sch w')"
proof -
  have "sched_inv I (w', n')" 
    by (rule sched_system.inv_reach [OF reach_steps [OF assms(1,3)]])
  then have a: "m_activeThreadCount (sch w') = of_nat ((\<Sum>i\<in>I. contrib (pcs w' i)) + n')"
    by (simp add: sched_inv_def)
  have "0 < n'" using sched_steps_count [OF assms(3)] assms(2) by simp
  moreover have "(\<Sum>i\<in>I. contrib (pcs w' i)) + n' < 2 ^ 64"
    using contrib_sum_le [where I = I and w = w'] assms(4) by linarith
  ultimately have "m_activeThreadCount (sch w') \<noteq> 0"
    unfolding a by (simp only: u64_of_nat_eq_0_iff)
  then show ?thesis by (simp add: stopping_def)
qed

text \<open>
  As long as only function tasks have run, \<^verbatim>\<open>stopping()\<close> tells the truth: it holds exactly
  when a stop was requested, the queue is empty and no thread is between the scan and the return
  of a task.
\<close>

theorem stopping_iff_drained:
  assumes "reach (sched_init I) (sched_step I) (w, 0)" and "2 * card I < 2 ^ 64"
  shows "stopping (sch w) \<longleftrightarrow>
    m_autoStop (sch w) \<and> m_stopping (sch w) \<and> m_fibers (sch w) = [] \<and>
    (\<forall>i\<in>I. contrib (pcs w i) = 0)"
proof -
  have inv: "sched_inv I (w, 0)" using assms(1) by (rule sched_system.inv_reach)
  then have fin: "finite I" by (simp add: sched_inv_def)
  let ?c = "\<Sum>i\<in>I. contrib (pcs w i)"
  have a: "m_activeThreadCount (sch w) = of_nat ?c"
    using inv by (simp add: sched_inv_def del: of_nat_sum)
  have "?c < 2 ^ 64" using contrib_sum_le [where I = I and w = w] assms(2) by linarith
  then have "m_activeThreadCount (sch w) = 0 \<longleftrightarrow> ?c = 0"
    unfolding a by (rule u64_of_nat_eq_0_iff)
  then show ?thesis using fin by (simp add: stopping_def)
qed

text \<open>
  C15. The locked scan of \<^verbatim>\<open>run\<close> never fails its assertion and takes the first task of the queue
  that this thread may run (not pinned to another thread, not executing), leaving the others in
  their order; without such a task the thread goes on with an empty one and the queue is unchanged.
\<close>

theorem run_take_first_eligible:
  assumes "reach (sched_init I) (sched_step I) (w, n)"
  shows "\<exists>w'. run_take i w = Inr w' \<and>
    (case List.extract (\<lambda>ft. \<not> blocked (state_of (env w)) i ft) (m_fibers (sch w)) of
       None \<Rightarrow> pcs w' = (pcs w)(i := Got ft_reset False) \<and> sch w' = sch w
     | Some (xs, ft, ys) \<Rightarrow> pcs w' = (pcs w)(i := Got ft True) \<and> m_fibers (sch w') = xs @ ys)"
proof -
  have "\<forall>ft\<in>set (m_fibers (sch w)). ft_valid ft"
    using sched_inv_queue [OF sched_system.inv_reach [OF assms]] .
  then show ?thesis
  proof (cases rule: run_take_eq [where i = i])
    case (Task xs ft ys tk)
    then have "List.extract (\<lambda>ft. \<not> blocked (state_of (env w)) i ft) (m_fibers (sch w)) =
        Some (xs, ft, ys)"
      by (simp add: extract_Some_iff)
    with Task(4) show ?thesis by simp
  next
    case (None tk)
    then have "List.extract (\<lambda>ft. \<not> blocked (state_of (env w)) i ft) (m_fibers (sch w)) = None"
      by (simp add: extract_None_iff)
    with None(2) show ?thesis by simp
  qed
qed

text \<open>
  A fiber task that has already finished stops the process: the guard of \<^verbatim>\<open>run\<close>,
  \<^verbatim>\<open>getState() != TERM || getState() != EXCEPT\<close>, holds for every state, so the loop switches into the
  finished context.
\<close>

theorem dispatch_finished_fiber_aborts:
  assumes "pc (rl w i) = Got ft a" and "ft_fiber ft = Some p"
    and "reach fiber_init fiber_step (env w, tl w)" and "fheap (env w) p = Some f" and "m_stack f \<noteq> 0"
    and "m_state f = TERM_ST \<or> m_state f = EXCEPT"
    and "t_mainFiber (tl w i) = Some mf" and "fheap (env w) mf = Some fm" and "p \<noteq> mf"
    and "ctx_rt (env w) = 0"
  shows "run_dispatch pn stk i w = Inl (Assert ''never reach fiber_id'')"
proof -
  obtain s where "swapIn p (env w, tl w i) = Inr s" "resumed s = Inl (Assert ''never reach fiber_id'')"
    using swapIn_finished [OF assms(3-10)] by blast
  then have "on_thread i (\<lambda>gt. bind_res (swapIn p gt) resumed) (set_pc i (InFiber p) (add_active 1 w)) =
      Inl (Assert ''never reach fiber_id'')"
    by (simp add: on_thread_def)
  moreover have "state_of (env w) p \<noteq> TERM_ST \<or> state_of (env w) p \<noteq> EXCEPT" by auto
  ultimately show ?thesis using assms(1,2) by (simp add: run_dispatch_def Let_def)
qed

text \<open>
  Scheduling a range of function objects appends exactly the non-empty ones, in order and
  unpinned, leaves every object of the range empty, and asks for a wake-up exactly when the queue
  was empty and the range was not (also when no object of the range was usable).
\<close>

theorem schedule_range_appends:
  "schedule_range cbs s =
     (cbs \<noteq> [] \<and> m_fibers s = [], replicate (length cbs) None,
      s\<lparr>m_fibers := m_fibers s @ map (\<lambda>cb. ft_of_cb (Some cb) (- 1)) (List.map_filter id cbs)\<rparr>)"
proof -
  obtain b r s' where e: "schedule_range cbs s = (b, r, s')" by (metis prod.exhaust)
  have "filter ft_valid (map (\<lambda>cb. ft_of_cb cb (- 1)) cbs) =
      map (\<lambda>cb. ft_of_cb (Some cb) (- 1)) (List.map_filter id cbs)"
    by (induction cbs) (auto simp: List.map_filter_simps ft_valid_def ft_of_cb_def split: option.splits)
  moreover have "b \<longleftrightarrow> cbs \<noteq> [] \<and> m_fibers s = []"
    using schedule_range_wakes [of cbs s] e by simp
  ultimately show ?thesis using e schedule_range_effect [OF e] by simp
qed

theorem no_stop_after_fiber_task_witness:
  "\<exists>w. reach (sched_init {0}) (sched_step {0}) (w, 1) \<and> \<not> stopping (sch w)"
proof -
  obtain w where r: "reach (sched_init {0}) (sched_step {0}) (w, 1)" using demo_returned by blast
  with no_stop_after_fiber_task [OF r _ rtranclp.rtrancl_refl] show ?thesis by auto
qed


theorem stopping_iff_drained_witness:
  "\<not> stopping (sch demo_world) \<and> \<not> m_autoStop (sch demo_world)"
  using stopping_iff_drained [OF demo_init] by (simp add: demo_defs)

theorem run_take_first_eligible_witness:
  "\<exists>w w'. reach (sched_init {0}) (sched_step {0}) (w, 0) \<and>
     m_fibers (sch w) = [ft_of_fiber (Some 2) 5, ft_of_cb (Some (Fn 1)) (- 1), ft_of_cb (Some (Fn 2)) 0] \<and>
     run_take 0 w = Inr w' \<and> pcs w' 0 = Got (ft_of_cb (Some (Fn 1)) (- 1)) True \<and>
     m_fibers (sch w') = [ft_of_fiber (Some 2) 5, ft_of_cb (Some (Fn 2)) 0]"
proof -
  let ?w = "schedule_w (ft_of_cb (Some (Fn 2)) 0) (schedule_w (ft_of_cb (Some (Fn 1)) (- 1))
    (schedule_w (ft_of_fiber (Some 2) 5) demo_world))"
  have r: "reach (sched_init {0}) (sched_step {0}) (?w, 0)"
    using demo_init by (blast intro: reach.reach_step s_schedule)
  have q: "m_fibers (sch ?w) =
      [ft_of_fiber (Some 2) 5, ft_of_cb (Some (Fn 1)) (- 1), ft_of_cb (Some (Fn 2)) 0]"
    by (simp add: ft_of_cb_def ft_of_fiber_def ft_valid_def demo_defs)
  have "blocked st 0 (ft_of_fiber (Some 2) 5)" "\<not> blocked st 0 (ft_of_cb (Some (Fn 1)) (- 1))" for st
    by (simp_all add: blocked_def ft_of_fiber_def ft_of_cb_def)
  then have "List.extract (\<lambda>ft. \<not> blocked (state_of (env ?w)) 0 ft) (m_fibers (sch ?w)) =
      Some ([ft_of_fiber (Some 2) 5], ft_of_cb (Some (Fn 1)) (- 1), [ft_of_cb (Some (Fn 2)) 0])"
    unfolding q by (simp add: List.extract_Cons_code)
  with run_take_first_eligible [OF r, of 0] obtain w' where "run_take 0 ?w = Inr w'"
    "pcs w' = (pcs ?w)(0 := Got (ft_of_cb (Some (Fn 1)) (- 1)) True)"
    "m_fibers (sch w') = [ft_of_fiber (Some 2) 5, ft_of_cb (Some (Fn 2)) 0]"
    by auto
  with r q show ?thesis by (intro exI [of _ ?w] exI [of _ w']) simp
qed

theorem dispatch_finished_fiber_aborts_witness:
  "\<exists>w. pc (rl w 0) = Got (ft_of_fiber (Some 2) (- 1)) True \<and>
     run_dispatch 4 9 0 w = Inl (Assert ''never reach fiber_id'')"
proof -
  obtain g T f fm where d: "reach fiber_init fiber_step (g, T)" "fheap g 2 = Some f" "m_stack f \<noteq> 0"
    "m_state f = TERM_ST" "t_mainFiber (T 0) = Some 1" "fheap g 1 = Some fm" "ctx_rt g = 0"
    using demo_finished by blast
  let ?w = "set_pc 0 (Got (ft_of_fiber (Some 2) (- 1)) True) (demo_world\<lparr>env := g, tl := T\<rparr>)"
  have "pc (rl ?w 0) = Got (ft_of_fiber (Some 2) (- 1)) True" by (simp add: set_pc_def)
  moreover have "run_dispatch 4 9 0 ?w = Inl (Assert ''never reach fiber_id'')"
    by (rule dispatch_finished_fiber_aborts [of ?w 0 "ft_of_fiber (Some 2) (- 1)" True 2 f 1 fm])
      (use d in \<open>simp_all add: set_pc_def ft_of_fiber_def\<close>)
  ultimately show ?thesis by blast
qed

section \<open>A function task from start to end\<close>

lemma on_thread_eq:
  "f (env w, tl w i) = Inr (g, t) \<Longrightarrow> on_thread i f w = Inr (w\<lparr>env := g, tl := (tl w)(i := t)\<rparr>)"
  by (simp add: on_thread_def)

lemma run_take_only:
  assumes "m_fibers (sch w) = []" and "ft_thread ft = - 1" and "ft_fiber ft = None" and "ft_cb ft \<noteq> None"
  shows "run_take i (schedule_w ft w) =
    Inr (set_pc i (Got ft True) (add_active 1 (tickle_if True w)))"
  using assms
  by (simp add: run_take_def schedule_w_def schedule_def scheduleNoLock_def ft_valid_def Let_def
      tickle_if_def set_pc_def add_active_def)

lemma run_dispatch_cb_new:
  assumes "pc (rl w i) = Got ft a" and "ft_fiber ft = None" and "ft_cb ft = Some cb"
    and "cb_fiber (rl w i) = None" and "t_mainFiber (tl w i) = Some mf" and "fheap (env w) mf = Some fm"
    and "fheap (env w) pn = None" and "ctx_rt (env w) = 0"
  shows "\<exists>g f t. run_dispatch pn stk i w = Inr (w\<lparr>env := g, tl := (tl w)(i := t),
       rl := (rl w)(i := (rl w i)\<lparr>pc := InCb pn, cb_fiber := Some pn\<rparr>)\<rparr>) \<and>
    fheap g = (fheap (env w))(pn \<mapsto> f, mf \<mapsto> fm\<lparr>m_ctx := (m_ctx fm)\<lparr>resume := InSwapIn\<rparr>\<rparr>) \<and>
    ctx_rt g = 0 \<and> m_state f = EXEC \<and> fiber_cb f = Some cb \<and> m_stack f = stk \<and>
    t = (tl w i)\<lparr>t_fiber := Some pn, cpu := (pn, AtMainFunc)\<rparr>"
proof -
  obtain g1 f where n: "Fiber_new pn stk (Some cb) 0 False (env w) = Inr g1"
    "fheap g1 = (fheap (env w))(pn \<mapsto> f)" "m_state f = INIT" "fiber_cb f = Some cb" "m_stack f = stk"
    "resume (m_ctx f) = AtMainFunc" "ctx_rt g1 = 0"
    using assms(8) by (auto simp: Fiber_new_def Let_def makecontext_def)
  have ne: "pn \<noteq> mf" using assms by auto
  let ?fm = "fm\<lparr>m_ctx := (m_ctx fm)\<lparr>resume := InSwapIn\<rparr>\<rparr>"
  let ?g = "set_fiber mf ?fm (set_fiber pn (f\<lparr>m_state := EXEC\<rparr>) g1)"
  let ?t = "(tl w i)\<lparr>t_fiber := Some pn, cpu := (pn, AtMainFunc)\<rparr>"
  have "swapIn pn (g1, tl w i) = Inr (?g, ?t)"
    using swapIn_eq [of g1 pn f "tl w i" mf fm] n assms ne by simp
  then have "run_dispatch pn stk i w = Inr (w\<lparr>env := ?g, tl := (tl w)(i := ?t),
       rl := (rl w)(i := (rl w i)\<lparr>pc := InCb pn, cb_fiber := Some pn\<rparr>)\<rparr>)"
    using assms n by (simp add: run_dispatch_def Let_def on_thread_def resumed_def)
  then show ?thesis
    using n by (intro exI [of _ ?g] exI [of _ "f\<lparr>m_state := EXEC\<rparr>"] exI [of _ ?t]) simp
qed

lemma run_return_cb_finished:
  assumes "pc (rl w i) = InCb c" and "fheap (env w) c = Some f" and "m_stack f \<noteq> 0"
    and "m_state f = TERM_ST \<or> m_state f = EXCEPT" and "ctx_rt (env w) = 0"
  shows "\<exists>f'. run_return i w = Inr ((set_pc i Top (add_active (- 1) w))
      \<lparr>env := set_fiber c f' (env w)\<rparr>) \<and> m_state f' = INIT \<and> fiber_cb f' = None \<and>
    resume (m_ctx f') = AtMainFunc"
  using assms by (auto simp: run_return_def state_of_def fiber_reset_def Let_def makecontext_def)

text \<open>
  A function task from start to end: scheduled on an idle queue, it is taken, gets a fiber of
  its own that starts in \<^verbatim>\<open>MainFunc\<close> with this function and as the thread's current fiber; when
  the function returns or throws, the thread is back behind \<^verbatim>\<open>swapIn\<close>, the queue and both counters
  are what they were, and the fiber is reset and kept for the thread's next function task.
\<close>

theorem cb_task_lifecycle:
  assumes "pc (rl w i) = Top" and "m_fibers (sch w) = []" and "cb_fiber (rl w i) = None"
    and "t_mainFiber (tl w i) = Some mf" and "fheap (env w) mf = Some fm"
    and "fheap (env w) pn = None" and "ctx_rt (env w) = 0" and "stk \<noteq> 0"
  shows "\<exists>w1 w2 f w3 w4 f'.
    run_take i (schedule_w (ft_of_cb (Some cb) (- 1)) w) = Inr w1 \<and>
    run_dispatch pn stk i w1 = Inr w2 \<and> cpu (tl w2 i) = (pn, AtMainFunc) \<and>
    t_fiber (tl w2 i) = Some pn \<and> fheap (env w2) pn = Some f \<and> fiber_cb f = Some cb \<and> m_state f = EXEC \<and>
    on_thread i (MainFunc q o1) w2 = Inr w3 \<and> cpu (tl w3 i) = (mf, InSwapIn) \<and>
    run_return i w3 = Inr w4 \<and> sch w4 = sch w \<and> pc (rl w4 i) = Top \<and>
    cb_fiber (rl w4 i) = Some pn \<and> fheap (env w4) pn = Some f' \<and> m_state f' = INIT \<and> fiber_cb f' = None"
proof -
  let ?ft = "ft_of_cb (Some cb) (- 1)"
  let ?w1 = "set_pc i (Got ?ft True) (add_active 1 (tickle_if True w))"
  have t: "run_take i (schedule_w ?ft w) = Inr ?w1"
    by (rule run_take_only) (simp_all add: assms(2) ft_of_cb_def)
  have w1: "env ?w1 = env w" "tl ?w1 = tl w" "pc (rl ?w1 i) = Got ?ft True" "cb_fiber (rl ?w1 i) = None"
    using assms(3) by (simp_all add: rl_set_pc)
  obtain g f where d: "run_dispatch pn stk i ?w1 = Inr (?w1\<lparr>env := g,
      tl := (tl w)(i := (tl w i)\<lparr>t_fiber := Some pn, cpu := (pn, AtMainFunc)\<rparr>),
      rl := (rl ?w1)(i := (rl ?w1 i)\<lparr>pc := InCb pn, cb_fiber := Some pn\<rparr>)\<rparr>)" (is "_ = Inr ?w2")
    and g: "fheap g = (fheap (env w))(pn \<mapsto> f, mf \<mapsto> fm\<lparr>m_ctx := (m_ctx fm)\<lparr>resume := InSwapIn\<rparr>\<rparr>)"
      "ctx_rt g = 0" "m_state f = EXEC" "fiber_cb f = Some cb" "m_stack f = stk"
    using run_dispatch_cb_new [OF w1(3) _ _ w1(4), of cb mf fm pn stk] assms w1
    by (auto simp: ft_of_cb_def)
  have ne: "pn \<noteq> mf" using assms by auto
  let ?f3 = "(finished o1 f)\<lparr>m_ctx := (m_ctx f)\<lparr>resume := AtNeverReach\<rparr>\<rparr>"
  let ?t3 = "(tl ?w2 i)\<lparr>t_fiber := Some mf, cpu := (mf, InSwapIn)\<rparr>"
  let ?w3 = "?w2\<lparr>env := set_fiber pn ?f3 g, tl := (tl ?w2)(i := ?t3)\<rparr>"
  have "MainFunc q o1 (env ?w2, tl ?w2 i) = Inr (set_fiber pn ?f3 g, ?t3)"
    using g ne assms(4) MainFunc_eq [of "tl ?w2 i" pn g f mf _ q o1] by simp
  then have m: "on_thread i (MainFunc q o1) ?w2 = Inr ?w3" by (rule on_thread_eq)
  have "\<exists>f'. run_return i ?w3 = Inr ((set_pc i Top (add_active (- 1) ?w3))
      \<lparr>env := set_fiber pn f' (env ?w3)\<rparr>) \<and> m_state f' = INIT \<and> fiber_cb f' = None \<and>
      resume (m_ctx f') = AtMainFunc"
    by (rule run_return_cb_finished [where f = ?f3])
      (use g assms(8) in \<open>cases o1; simp add: finished_def call_outcome_def\<close>)+
  then obtain f' where "run_return i ?w3 = Inr ((set_pc i Top (add_active (- 1) ?w3))
      \<lparr>env := set_fiber pn f' (env ?w3)\<rparr>)" "m_state f' = INIT" "fiber_cb f' = None" by blast
  moreover have "sch (set_pc i Top (add_active (- 1) ?w3)) = sch w"
    by (simp add: add_active_def tickle_if_def set_pc_def)
  ultimately show ?thesis
    using t d g m ne by (intro exI [of _ ?w1] exI [of _ ?w2] exI [of _ f] exI [of _ ?w3]
      exI [of _ "(set_pc i Top (add_active (- 1) ?w3))\<lparr>env := set_fiber pn f' (env ?w3)\<rparr>"] exI [of _ f'])
      (simp add: rl_set_pc)
qed

theorem cb_task_lifecycle_witness:
  "\<exists>w1 w2 w3 w4. run_take 0 (schedule_w (ft_of_cb (Some (Fn 8)) (- 1)) (set_pc 0 Top demo_world)) = Inr w1 \<and>
     run_dispatch 3 9 0 w1 = Inr w2 \<and> cpu (tl w2 0) = (3, AtMainFunc) \<and>
     on_thread 0 (MainFunc 4 Throws) w2 = Inr w3 \<and> run_return 0 w3 = Inr w4 \<and> sch w4 = demo_sched"
proof -
  let ?w = "set_pc 0 Top demo_world"
  have "pc (rl ?w 0) = Top" "m_fibers (sch ?w) = []" "cb_fiber (rl ?w 0) = None"
    "t_mainFiber (tl ?w 0) = Some 1" "fheap (env ?w) 1 = Some demo_main" "fheap (env ?w) 3 = None"
    "ctx_rt (env ?w) = 0" "(9 :: nat) \<noteq> 0" "sch ?w = demo_sched"
    by (simp_all add: demo_defs rl_set_pc)
  with cb_task_lifecycle [of ?w 0 1 demo_main 3 9 "Fn 8" 4 Throws] show ?thesis by metis
qed

text \<open>
  The life of a scheduler that does not use its caller: a thread count of 0 is refused;
  otherwise \<^verbatim>\<open>start\<close> creates exactly that many threads and records their ids, a second \<^verbatim>\<open>start\<close>
  does nothing, \<^verbatim>\<open>stop\<close> from a thread that is not the scheduler's wakes each thread once and
  goes on to join every thread that was created, and the destructor's assertion holds.
\<close>

theorem start_stop_lifecycle:
  "if threads = 0
   then Scheduler_new pm pr stk threads False name has gt = Inl (Assert ''threads > 0'')
   else \<exists>s s1 s2 s3. Scheduler_new pm pr stk threads False name has gt = Inr (s, has, gt) \<and>
     start tids s = Inr s1 \<and> m_threads s1 = map tids [0..<unat threads] \<and>
     m_threadIds s1 = m_threads s1 \<and> start tids' s1 = Inr s1 \<and>
     stop rs False s1 = Inr (StopJoin, unat threads, s2) \<and> stop_join s2 = (m_threads s1, s3) \<and>
     m_threads s3 = [] \<and> Scheduler_delete s3 has = Inr False"
  by (simp add: Scheduler_new_def start_def stop_def stop_join_def Scheduler_delete_def Let_def
      DUAN_ASSERT_def word_neq_0_conv)

text \<open>
  A scheduler that uses its caller records the current \<^emph>\<open>fiber\<close> id where the thread id belongs:
  built by a thread without a fiber, \<^verbatim>\<open>m_rootThread\<close> is 0 and the list of thread ids is \<open>[0]\<close>,
  whatever the thread. So the root thread \<open>i\<close> also passes the test \<^verbatim>\<open>GetThreadId() != m_rootThread\<close>
  of \<^verbatim>\<open>run\<close>; since it executes the root fiber then, its scheduling fiber stays the root fiber.
\<close>

theorem root_thread_is_fiber_id:
  assumes "threads > 0" and "t_fiber t = None" and "ctx_rt g = 0" and "pm \<noteq> pr"
    and "i \<noteq> 0" and "tl w i = t'\<lparr>t_fiber := Some pr\<rparr>" and "ctx_rt (env w) = 0"
  shows "\<exists>s g' t1. Scheduler_new pm pr stk threads True name False (g, t) = Inr (s, True, g', t1) \<and>
    m_rootThread s = 0 \<and> m_threadIds s = [0] \<and> m_threadCount s = threads - 1 \<and>
    m_rootFiber s = Some pr \<and> t_mainFiber t1 = Some pr \<and>
    (sch w = s \<longrightarrow> (\<exists>w'. run_begin pm2 pi stk2 i w = Inr w' \<and> t_mainFiber (tl w' i) = Some pr))"
proof -
  let ?m = "\<lparr>m_id = 0, m_stacksize = 0, m_state = EXEC, m_ctx = getcontext 0 0, m_stack = 0,
    fiber_cb = None\<rparr>"
  let ?g1 = "(set_fiber pm ?m g)\<lparr>s_fiber_count := s_fiber_count g + 1\<rparr>"
  let ?t1 = "t\<lparr>t_fiber := Some pm, t_threadFiber := Some pm\<rparr>"
  have 1: "GetThis pm (g, t) = Inr (pm, ?g1, ?t1)"
    using assms(2,3) by (simp add: GetThis_def Fiber_main_def SetThis_def Let_def)
  obtain g2 where 2: "Fiber_new pr stk (Some SchedulerRun) 0 False ?g1 = Inr g2"
    "fheap g2 pm = Some ?m"
    using assms(3,4) by (auto simp: Fiber_new_def Let_def)
  have 3: "GetFiberId (g2, ?t1\<lparr>t_mainFiber := Some pr\<rparr>) = Inr 0"
    using 2(2) by (simp add: GetFiberId_def)
  have run: "\<exists>w'. run_begin pm2 pi stk2 i w = Inr w' \<and> t_mainFiber (tl w' i) = Some pr"
    if "m_rootThread (sch w) = 0"
    using that assms(5,6,7) by (simp add: run_begin_def GetThis_def Fiber_new_def Let_def)
  show ?thesis using 1 2(1) 3 run assms(1) by (simp add: Scheduler_new_def Let_def)
qed

theorem root_thread_is_fiber_id_witness:
  "\<exists>s g' t1. Scheduler_new 1 2 9 1 True ''n'' False (demo_env, idle_tls) = Inr (s, True, g', t1) \<and>
     m_rootThread s = 0 \<and> m_threadIds s = [0] \<and> m_threadCount s = 0"
  using root_thread_is_fiber_id [of 1 idle_tls demo_env 1 2 5 "demo_world\<lparr>tl := \<lambda>_. idle_tls\<lparr>t_fiber := Some 2\<rparr>\<rparr>"
      idle_tls 9 "''n''" 0 0 0]
  by (auto simp: idle_tls_def demo_env_def demo_world_def demo_env2_def)

end
