(* ===== verification/Duan_Scheduler_Drain.thy ===== *)
theory Duan_Scheduler_Drain
  imports Duan_Scheduler
begin

text \<open>
  Turns of the loop of \<^verbatim>\<open>Scheduler::run\<close> in one thread: the queue is served in its order, whatever the
  served functions schedule themselves.
\<close>

section \<open>One turn\<close>

text \<open>
  What a function does before it returns or throws, as far as the scheduler sees it: the tasks it
  schedules, in order. \<open>ran\<close> is the function whose fiber the thread executes.
\<close>

record activity =
  spawns :: "FiberAndThread list"
  ends_by :: outcome

definition ran :: "int \<Rightarrow> world \<Rightarrow> callback option" where
  "ran i w = (case t_fiber (tl w i) of
     None \<Rightarrow> None
   | Some p \<Rightarrow> (case fheap (env w) p of None \<Rightarrow> None | Some f \<Rightarrow> fiber_cb f))"

definition run_turn :: "nat \<Rightarrow> nat \<Rightarrow> int \<Rightarrow> activity \<Rightarrow> world \<Rightarrow> (callback option \<times> world) res" where
  "run_turn pn stk i a w =
     bind_res (run_take i w) (\<lambda>w1.
       bind_res (run_dispatch pn stk i w1) (\<lambda>w2.
         bind_res (on_thread i (MainFunc pn (ends_by a)) (fold schedule_w (spawns a) w2)) (\<lambda>w3.
           bind_res (run_return i w3) (\<lambda>w4. Inr (ran i w2, w4)))))"

fun run_turns :: "nat \<Rightarrow> nat \<Rightarrow> int \<Rightarrow> activity list \<Rightarrow> world \<Rightarrow> (callback option list \<times> world) res" where
  "run_turns pn stk i [] w = Inr ([], w)"
| "run_turns pn stk i (a # as) w =
     bind_res (run_turn pn stk i a w) (\<lambda>(cb, w1).
       bind_res (run_turns pn stk i as w1) (\<lambda>(cbs, w2). Inr (cb # cbs, w2)))"

text \<open>
  The fiber \<open>c\<close> that a thread keeps from its last function, if there is one, can be reset; otherwise the address
  \<open>pn\<close> of the next one is unused. \<open>mf\<close> is the scheduling fiber.
\<close>

definition cb_slot :: "nat \<Rightarrow> nat \<Rightarrow> nat option \<Rightarrow> (nat \<Rightarrow> fiber option) \<Rightarrow> bool" where
  "cb_slot pn mf c h \<longleftrightarrow>
     (case c of
        None \<Rightarrow> h pn = None
      | Some p \<Rightarrow> p \<noteq> mf \<and> (\<exists>f. h p = Some f \<and> m_stack f \<noteq> 0 \<and> m_state f \<in> {TERM_ST, INIT, EXCEPT}))"

text \<open>A thread at the top of the loop that can serve a function.\<close>

definition at_top :: "nat \<Rightarrow> int \<Rightarrow> world \<Rightarrow> bool" where
  "at_top pn i w \<longleftrightarrow>
     pc (rl w i) = Top \<and> ctx_rt (env w) = 0 \<and>
     (\<exists>mf fm. t_mainFiber (tl w i) = Some mf \<and> fheap (env w) mf = Some fm \<and>
       cb_slot pn mf (cb_fiber (rl w i)) (fheap (env w)))"

definition function_task :: "int \<Rightarrow> FiberAndThread \<Rightarrow> bool" where
  "function_task i ft \<longleftrightarrow> ft_fiber ft = None \<and> ft_cb ft \<noteq> None \<and> (ft_thread ft = - 1 \<or> ft_thread ft = i)"

text \<open>What a switch does not touch of a fiber.\<close>

definition fiber_core :: "fiber_env \<Rightarrow> nat \<Rightarrow> (State \<times> nat \<times> callback option) option" where
  "fiber_core g p = map_option (\<lambda>f. (m_state f, m_stack f, fiber_cb f)) (fheap g p)"

text \<open>
  What a turn of thread \<open>i\<close> leaves alone: the other threads, which fibers are its own, its scheduling fiber but for the
  stored context, and every fiber object but that one and that of its functions.
\<close>

definition local_to :: "nat \<Rightarrow> int \<Rightarrow> world \<Rightarrow> world \<Rightarrow> bool" where
  "local_to pn i w w' \<longleftrightarrow>
     (\<forall>j. j \<noteq> i \<longrightarrow> rl w' j = rl w j \<and> tl w' j = tl w j) \<and>
     idle_fiber (rl w' i) = idle_fiber (rl w i) \<and> t_mainFiber (tl w' i) = t_mainFiber (tl w i) \<and>
     t_threadFiber (tl w' i) = t_threadFiber (tl w i) \<and>
     (\<forall>mf. t_mainFiber (tl w i) = Some mf \<longrightarrow> fiber_core (env w') mf = fiber_core (env w) mf) \<and>
     (cb_fiber (rl w' i) = cb_fiber (rl w i) \<or> cb_fiber (rl w' i) = Some pn) \<and>
     (\<forall>p. p \<noteq> pn \<longrightarrow> Some p \<noteq> cb_fiber (rl w i) \<longrightarrow> Some p \<noteq> t_mainFiber (tl w i) \<longrightarrow>
        fheap (env w') p = fheap (env w) p)"

lemma local_refl: "local_to pn i w w"
  by (simp add: local_to_def)

lemma local_same:
  "env w' = env w \<Longrightarrow> tl w' = tl w \<Longrightarrow> (\<forall>j. j \<noteq> i \<longrightarrow> rl w' j = rl w j) \<Longrightarrow>
   idle_fiber (rl w' i) = idle_fiber (rl w i) \<Longrightarrow> cb_fiber (rl w' i) = cb_fiber (rl w i) \<Longrightarrow> local_to pn i w w'"
  by (simp add: local_to_def)

lemma local_trans:
  assumes "local_to pn i w w'" and "local_to pn i w' w''"
  shows "local_to pn i w w''"
proof -
  have a: "\<And>j. j \<noteq> i \<Longrightarrow> rl w' j = rl w j \<and> tl w' j = tl w j" "idle_fiber (rl w' i) = idle_fiber (rl w i)"
    "t_mainFiber (tl w' i) = t_mainFiber (tl w i)" "t_threadFiber (tl w' i) = t_threadFiber (tl w i)"
    "\<And>mf. t_mainFiber (tl w i) = Some mf \<Longrightarrow> fiber_core (env w') mf = fiber_core (env w) mf"
    "cb_fiber (rl w' i) = cb_fiber (rl w i) \<or> cb_fiber (rl w' i) = Some pn"
    "\<And>p. p \<noteq> pn \<Longrightarrow> Some p \<noteq> cb_fiber (rl w i) \<Longrightarrow> Some p \<noteq> t_mainFiber (tl w i) \<Longrightarrow>
       fheap (env w') p = fheap (env w) p"
    using assms(1) unfolding local_to_def by blast+
  have b: "\<And>j. j \<noteq> i \<Longrightarrow> rl w'' j = rl w' j \<and> tl w'' j = tl w' j" "idle_fiber (rl w'' i) = idle_fiber (rl w' i)"
    "t_mainFiber (tl w'' i) = t_mainFiber (tl w' i)" "t_threadFiber (tl w'' i) = t_threadFiber (tl w' i)"
    "\<And>mf. t_mainFiber (tl w' i) = Some mf \<Longrightarrow> fiber_core (env w'') mf = fiber_core (env w') mf"
    "cb_fiber (rl w'' i) = cb_fiber (rl w' i) \<or> cb_fiber (rl w'' i) = Some pn"
    "\<And>p. p \<noteq> pn \<Longrightarrow> Some p \<noteq> cb_fiber (rl w' i) \<Longrightarrow> Some p \<noteq> t_mainFiber (tl w' i) \<Longrightarrow>
       fheap (env w'') p = fheap (env w') p"
    using assms(2) unfolding local_to_def by blast+
  have "fheap (env w'') p = fheap (env w) p"
    if "p \<noteq> pn" "Some p \<noteq> cb_fiber (rl w i)" "Some p \<noteq> t_mainFiber (tl w i)" for p
    using a(6) a(7) [OF that] b(7) [OF that(1)] a(3) that by auto
  with a(1-6) b(1-6) show ?thesis unfolding local_to_def by auto
qed

lemma run_take_head:
  assumes "m_fibers (sch w) = ft # q" and "function_task i ft"
  shows "run_take i w = Inr (set_pc i (Got ft True) (add_active 1 (w\<lparr>sch := (sch w)\<lparr>m_fibers := q\<rparr>\<rparr>)))"
  using assms by (auto simp: run_take_def function_task_def ft_valid_def tickle_if_def Let_def)

lemma run_dispatch_cb_kept:
  assumes "pc (rl w i) = Got ft a" and "ft_fiber ft = None" and "ft_cb ft = Some cb"
    and "cb_fiber (rl w i) = Some c" and "t_mainFiber (tl w i) = Some mf" and "fheap (env w) mf = Some fm"
    and "c \<noteq> mf" and "fheap (env w) c = Some f0" and "m_stack f0 \<noteq> 0" and "m_state f0 \<in> {TERM_ST, INIT, EXCEPT}"
    and "ctx_rt (env w) = 0"
  shows "\<exists>g f t. run_dispatch pn stk i w = Inr (w\<lparr>env := g, tl := (tl w)(i := t),
       rl := (rl w)(i := (rl w i)\<lparr>pc := InCb c, cb_fiber := Some c\<rparr>)\<rparr>) \<and>
    fheap g = (fheap (env w))(c \<mapsto> f, mf \<mapsto> fm\<lparr>m_ctx := (m_ctx fm)\<lparr>resume := InSwapIn\<rparr>\<rparr>) \<and>
    ctx_rt g = 0 \<and> m_state f = EXEC \<and> fiber_cb f = Some cb \<and> m_stack f = m_stack f0 \<and>
    t = (tl w i)\<lparr>t_fiber := Some c, cpu := (c, AtMainFunc)\<rparr>"
proof -
  obtain g1 f where n: "fiber_reset c (Some cb) (env w) = Inr g1"
    "fheap g1 = (fheap (env w))(c \<mapsto> f)" "m_state f = INIT" "fiber_cb f = Some cb" "m_stack f = m_stack f0"
    "resume (m_ctx f) = AtMainFunc" "ctx_rt g1 = 0"
    using assms(8-11) by (auto simp: fiber_reset_def makecontext_def)
  let ?fm = "fm\<lparr>m_ctx := (m_ctx fm)\<lparr>resume := InSwapIn\<rparr>\<rparr>"
  let ?g = "set_fiber mf ?fm (set_fiber c (f\<lparr>m_state := EXEC\<rparr>) g1)"
  let ?t = "(tl w i)\<lparr>t_fiber := Some c, cpu := (c, AtMainFunc)\<rparr>"
  have "swapIn c (g1, tl w i) = Inr (?g, ?t)"
    using swapIn_eq [of g1 c f "tl w i" mf fm] n assms by simp
  then have "run_dispatch pn stk i w = Inr (w\<lparr>env := ?g, tl := (tl w)(i := ?t),
       rl := (rl w)(i := (rl w i)\<lparr>pc := InCb c, cb_fiber := Some c\<rparr>)\<rparr>)"
    using assms n by (simp add: run_dispatch_def Let_def on_thread_def resumed_def)
  then show ?thesis
    using n by (intro exI [of _ ?g] exI [of _ "f\<lparr>m_state := EXEC\<rparr>"] exI [of _ ?t]) simp
qed

text \<open>A new fiber and a kept one give the same state after the dispatch.\<close>

definition executing :: "int \<Rightarrow> nat \<Rightarrow> callback \<Rightarrow> world \<Rightarrow> bool" where
  "executing i c cb w \<longleftrightarrow>
     pc (rl w i) = InCb c \<and> cb_fiber (rl w i) = Some c \<and> ctx_rt (env w) = 0 \<and> t_fiber (tl w i) = Some c \<and>
     (\<exists>mf fm f. t_mainFiber (tl w i) = Some mf \<and> fheap (env w) mf = Some fm \<and> c \<noteq> mf \<and>
        fheap (env w) c = Some f \<and> m_stack f \<noteq> 0 \<and> fiber_cb f = Some cb)"

lemma run_dispatch_function:
  assumes "pc (rl w i) = Got ft a" and "ft_fiber ft = None" and "ft_cb ft = Some cb"
    and "at_top pn i (set_pc i Top w)" and "stk \<noteq> 0"
  shows "\<exists>c w'. run_dispatch pn stk i w = Inr w' \<and> executing i c cb w' \<and> sch w' = sch w \<and> local_to pn i w w'"
proof -
  obtain mf fm where m: "t_mainFiber (tl w i) = Some mf" "fheap (env w) mf = Some fm" "ctx_rt (env w) = 0"
    and k: "cb_slot pn mf (cb_fiber (rl w i)) (fheap (env w))"
    using assms(4) by (auto simp: at_top_def rl_set_pc)
  show ?thesis
  proof (cases "cb_fiber (rl w i)")
    case None
    with k m have ne: "pn \<noteq> mf" "fheap (env w) pn = None" by (auto simp: cb_slot_def)
    from run_dispatch_cb_new [OF assms(1-3) None m(1,2) ne(2) m(3), of stk] assms(5) ne(1) m
    show ?thesis by (fastforce simp: executing_def local_to_def fiber_core_def)
  next
    case (Some c)
    with k obtain f0 where f: "c \<noteq> mf" "fheap (env w) c = Some f0" "m_stack f0 \<noteq> 0"
      "m_state f0 \<in> {TERM_ST, INIT, EXCEPT}" by (auto simp: cb_slot_def)
    from run_dispatch_cb_kept [OF assms(1-3) Some m(1,2) f m(3), of pn stk] f m Some
    show ?thesis by (fastforce simp: executing_def local_to_def fiber_core_def)
  qed
qed

section \<open>The end of a function\<close>

lemma spawn_sch: "sch (fold schedule_w fts w) = (sch w)\<lparr>m_fibers := m_fibers (sch w) @ filter ft_valid fts\<rparr>"
proof (induction fts arbitrary: w)
  case (Cons ft fts)
  have "sch (schedule_w ft w) = (sch w)\<lparr>m_fibers := m_fibers (sch w) @ (if ft_valid ft then [ft] else [])\<rparr>"
    by (simp add: schedule_w_def schedule_def scheduleNoLock_def Let_def tickle_if_def)
  with Cons show ?case by simp
qed simp

lemma spawn_rest:
  "env (fold schedule_w fts w) = env w \<and> tl (fold schedule_w fts w) = tl w \<and> rl (fold schedule_w fts w) = rl w"
  by (induction fts arbitrary: w)
    (simp_all add: schedule_w_def schedule_def scheduleNoLock_def Let_def tickle_if_def)

lemma executing_spawn: "executing i c cb (fold schedule_w fts w) \<longleftrightarrow> executing i c cb w"
  by (simp add: executing_def spawn_rest)

lemma executing_ran: "executing i c cb w \<Longrightarrow> ran i w = Some cb"
  by (auto simp: executing_def ran_def)

lemma function_ends:
  assumes "executing i c cb w"
  shows "\<exists>w3 w4. on_thread i (MainFunc pn o1) w = Inr w3 \<and> run_return i w3 = Inr w4 \<and> at_top pn i w4 \<and>
    sch w4 = (sch w)\<lparr>m_activeThreadCount := m_activeThreadCount (sch w) - 1\<rparr> \<and> local_to pn i w w4"
proof -
  obtain mf fm f where e: "pc (rl w i) = InCb c" "cb_fiber (rl w i) = Some c" "ctx_rt (env w) = 0"
    "t_fiber (tl w i) = Some c" "t_mainFiber (tl w i) = Some mf" "fheap (env w) mf = Some fm" "c \<noteq> mf"
    "fheap (env w) c = Some f" "m_stack f \<noteq> 0" "fiber_cb f = Some cb"
    using assms by (auto simp: executing_def)
  let ?f3 = "(finished o1 f)\<lparr>m_ctx := (m_ctx f)\<lparr>resume := AtNeverReach\<rparr>\<rparr>"
  let ?t3 = "(tl w i)\<lparr>t_fiber := Some mf, cpu := (mf, resume (m_ctx fm))\<rparr>"
  let ?w3 = "w\<lparr>env := set_fiber c ?f3 (env w), tl := (tl w)(i := ?t3)\<rparr>"
  have "MainFunc pn o1 (env w, tl w i) = Inr (set_fiber c ?f3 (env w), ?t3)"
    using MainFunc_eq [OF e(4,8,5,6,7,3)] .
  then have m: "on_thread i (MainFunc pn o1) w = Inr ?w3" by (rule on_thread_eq)
  have s: "m_stack ?f3 \<noteq> 0" "m_state ?f3 = TERM_ST \<or> m_state ?f3 = EXCEPT"
    using e(9,10) by (cases o1; simp add: finished_def call_outcome_def)+
  obtain f' where r: "run_return i ?w3 =
      Inr ((set_pc i Top (add_active (- 1) ?w3))\<lparr>env := set_fiber c f' (env ?w3)\<rparr>)"
    and f': "m_state f' = INIT" "m_stack f' \<noteq> 0"
    using e s by (auto simp: run_return_def state_of_def fiber_reset_def Let_def makecontext_def)
  let ?w4 = "(set_pc i Top (add_active (- 1) ?w3))\<lparr>env := set_fiber c f' (env ?w3)\<rparr>"
  have "at_top pn i ?w4"
    using e f' by (simp add: at_top_def cb_slot_def rl_set_pc)
  moreover have "sch ?w4 = (sch w)\<lparr>m_activeThreadCount := m_activeThreadCount (sch w) - 1\<rparr>"
    by (simp add: add_active_def)
  moreover have "local_to pn i w ?w4"
    using e by (auto simp: local_to_def rl_set_pc fiber_core_def)
  ultimately show ?thesis using m r by blast
qed

lemma function_turn:
  assumes "at_top pn i w" and "stk \<noteq> 0" and "m_fibers (sch w) = ft # q" and "function_task i ft"
  obtains c w1 w2 w3 w4 where "run_take i w = Inr w1" "run_dispatch pn stk i w1 = Inr w2" "pc (rl w2 i) = InCb c"
    "ran i w2 = ft_cb ft" "on_thread i (MainFunc pn (ends_by a)) (fold schedule_w (spawns a) w2) = Inr w3"
    "run_return i w3 = Inr w4" "at_top pn i w4" "sch w4 = (sch w)\<lparr>m_fibers := q @ filter ft_valid (spawns a)\<rparr>"
    "local_to pn i w w4"
proof -
  let ?w1 = "set_pc i (Got ft True) (add_active 1 (w\<lparr>sch := (sch w)\<lparr>m_fibers := q\<rparr>\<rparr>))"
  have t: "run_take i w = Inr ?w1" by (rule run_take_head [OF assms(3,4)])
  obtain cb where cb: "ft_fiber ft = None" "ft_cb ft = Some cb"
    using assms(4) by (auto simp: function_task_def)
  have "pc (rl ?w1 i) = Got ft True" "at_top pn i (set_pc i Top ?w1)"
    using assms(1) by (simp_all add: rl_set_pc at_top_def)
  from run_dispatch_function [OF this(1) cb this(2) assms(2)] obtain c w2
    where d: "run_dispatch pn stk i ?w1 = Inr w2" "executing i c cb w2" "sch w2 = sch ?w1"
      "local_to pn i ?w1 w2" by blast
  let ?w2 = "fold schedule_w (spawns a) w2"
  have "executing i c cb ?w2" using d(2) by (simp add: executing_spawn)
  from function_ends [OF this, of pn "ends_by a"] obtain w3 w4
    where e: "on_thread i (MainFunc pn (ends_by a)) ?w2 = Inr w3" "run_return i w3 = Inr w4" "at_top pn i w4"
      "sch w4 = (sch ?w2)\<lparr>m_activeThreadCount := m_activeThreadCount (sch ?w2) - 1\<rparr>" "local_to pn i ?w2 w4" by blast
  have s: "sch w4 = (sch w)\<lparr>m_fibers := q @ filter ft_valid (spawns a)\<rparr>"
    using e(4) d(3) by (simp add: spawn_sch add_active_def)
  have "local_to pn i w ?w1" by (rule local_same) (simp_all add: rl_set_pc)
  moreover have "local_to pn i w2 ?w2" by (rule local_same) (simp_all add: spawn_rest)
  ultimately have l: "local_to pn i w w4" by (intro local_trans [OF local_trans [OF local_trans [OF _ d(4)]] e(5)])
  have "pc (rl w2 i) = InCb c" using d(2) by (simp add: executing_def)
  from that [OF t d(1) this _ e(1-3) s l] executing_ran [OF d(2)] cb(2) show thesis by simp
qed

lemma run_turn_head:
  assumes "at_top pn i w" and "stk \<noteq> 0" and "m_fibers (sch w) = ft # q" and "function_task i ft"
  shows "\<exists>w'. run_turn pn stk i a w = Inr (ft_cb ft, w') \<and> at_top pn i w' \<and>
    sch w' = (sch w)\<lparr>m_fibers := q @ filter ft_valid (spawns a)\<rparr> \<and> local_to pn i w w'"
  by (rule function_turn [OF assms, of a]) (simp add: run_turn_def)

section \<open>The queue is served in order\<close>

lemma run_turns_serve:
  assumes "at_top pn i w" and "stk \<noteq> 0" and "m_fibers (sch w) = fts @ q"
    and "list_all (function_task i) fts" and "length as = length fts"
  shows "\<exists>w'. run_turns pn stk i as w = Inr (map ft_cb fts, w') \<and> at_top pn i w' \<and>
    sch w' = (sch w)\<lparr>m_fibers := q @ filter ft_valid (concat (map spawns as))\<rparr> \<and> local_to pn i w w'"
  using assms
proof (induction fts arbitrary: w q as)
  case Nil
  then show ?case by (intro exI [of _ w]) (simp add: local_refl)
next
  case (Cons ft fts)
  then obtain a as' where as: "as = a # as'" "length as' = length fts" by (cases as) auto
  have h: "m_fibers (sch w) = ft # (fts @ q)" "function_task i ft" "list_all (function_task i) fts"
    using Cons.prems by simp_all
  from run_turn_head [OF Cons.prems(1,2) h(1,2), of a] obtain w1
    where w1: "run_turn pn stk i a w = Inr (ft_cb ft, w1)" "at_top pn i w1"
      "sch w1 = (sch w)\<lparr>m_fibers := fts @ (q @ filter ft_valid (spawns a))\<rparr>" "local_to pn i w w1" by auto
  then have "m_fibers (sch w1) = fts @ (q @ filter ft_valid (spawns a))" by simp
  from Cons.IH [OF w1(2) Cons.prems(2) this h(3) as(2)] obtain w2
    where "run_turns pn stk i as' w1 = Inr (map ft_cb fts, w2)" "at_top pn i w2"
      "sch w2 = (sch w1)\<lparr>m_fibers := (q @ filter ft_valid (spawns a)) @ filter ft_valid (concat (map spawns as'))\<rparr>"
      "local_to pn i w1 w2" by blast
  with w1(1,3) as(1) local_trans [OF w1(4)] show ?case by simp
qed

text \<open>
  C14. As many turns as there are function tasks at the front of the queue run exactly these functions, in
  the order in which they were scheduled, whether they return or throw and whatever they schedule: new
  tasks go behind what was queued before, in the order of their scheduling. The thread is at the top of
  its loop again and both counters are what they were.
\<close>

theorem queue_served_in_order:
  assumes "at_top pn i w" and "stk \<noteq> 0" and "m_fibers (sch w) = fts @ q"
    and "list_all (function_task i) fts" and "length as = length fts"
  shows "\<exists>w'. run_turns pn stk i as w = Inr (map ft_cb fts, w') \<and> at_top pn i w' \<and>
    sch w' = (sch w)\<lparr>m_fibers := q @ filter ft_valid (concat (map spawns as))\<rparr>"
  using run_turns_serve [OF assms] by blast

theorem queue_served_in_order_witness:
  "\<exists>w'. run_turns 3 9 0
       [\<lparr>spawns = [ft_of_cb (Some (Fn 7)) (- 1)], ends_by = Throws\<rparr>, \<lparr>spawns = [], ends_by = Returns\<rparr>]
       (schedule_w (ft_of_cb (Some (Fn 2)) 0) (schedule_w (ft_of_cb (Some (Fn 1)) (- 1)) (set_pc 0 Top demo_world))) =
     Inr ([Some (Fn 1), Some (Fn 2)], w') \<and>
     m_fibers (sch w') = [ft_of_cb (Some (Fn 7)) (- 1)]"
proof -
  let ?w = "schedule_w (ft_of_cb (Some (Fn 2)) 0) (schedule_w (ft_of_cb (Some (Fn 1)) (- 1)) (set_pc 0 Top demo_world))"
  let ?as = "[\<lparr>spawns = [ft_of_cb (Some (Fn 7)) (- 1)], ends_by = Throws\<rparr>, \<lparr>spawns = [], ends_by = Returns\<rparr>]"
  let ?fts = "[ft_of_cb (Some (Fn 1)) (- 1), ft_of_cb (Some (Fn 2)) 0]"
  have v: "ft_valid (ft_of_cb (Some cb) k)" "ft_cb (ft_of_cb (Some cb) k) = Some cb" for cb k
    by (simp_all add: ft_of_cb_def ft_valid_def)
  have "env ?w = env demo_world" "tl ?w = tl demo_world" "rl ?w = rl (set_pc 0 Top demo_world)"
    using spawn_rest [of ?fts "set_pc 0 Top demo_world"] by simp_all
  then have "at_top 3 0 ?w" by (simp add: at_top_def cb_slot_def demo_defs rl_set_pc)
  moreover have "m_fibers (sch ?w) = ?fts @ []" by (simp add: v demo_defs)
  moreover have "list_all (function_task 0) ?fts" by (simp add: function_task_def ft_of_cb_def)
  ultimately obtain w' where "run_turns 3 9 0 ?as ?w = Inr (map ft_cb ?fts, w')"
    "sch w' = (sch ?w)\<lparr>m_fibers := [] @ filter ft_valid (concat (map spawns ?as))\<rparr>"
    using queue_served_in_order [of 3 0 ?w 9 ?fts "[]" ?as] by auto
  then show ?thesis by (intro exI [of _ w']) (simp add: v)
qed

end
