(* ===== verification/Std_Set.thy ===== *)
theory Std_Set
  imports Duan_Prelude
begin

text \<open>
  \<^verbatim>\<open>std::set<T, Compare>\<close> as the sequence of its elements in comparator order. An iterator
  is a position; \<^verbatim>\<open>end()\<close> is the length. The operations are the ones the sources call:
  \<^verbatim>\<open>lower_bound\<close>, \<^verbatim>\<open>find\<close>, \<^verbatim>\<open>insert\<close>, \<^verbatim>\<open>erase(it)\<close> and \<^verbatim>\<open>erase(begin, it)\<close>. They compare
  with the comparator only, as the container does, and the locale \<open>set_comparator\<close> holds
  the laws a user of the container has to provide, and what the container then promises.
\<close>

section \<open>Operations\<close>

definition lower_bound :: "('a \<Rightarrow> 'a \<Rightarrow> bool) \<Rightarrow> 'a \<Rightarrow> 'a list \<Rightarrow> nat" where
  "lower_bound lt k xs = length (takeWhile (\<lambda>x. lt x k) xs)"

definition set_find :: "('a \<Rightarrow> 'a \<Rightarrow> bool) \<Rightarrow> 'a \<Rightarrow> 'a list \<Rightarrow> nat" where
  "set_find lt k xs =
     (let i = lower_bound lt k xs
      in if i < length xs \<and> \<not> lt k (xs ! i) then i else length xs)"

definition set_insert :: "('a \<Rightarrow> 'a \<Rightarrow> bool) \<Rightarrow> 'a \<Rightarrow> 'a list \<Rightarrow> nat \<times> 'a list" where
  "set_insert lt k xs =
     (let i = lower_bound lt k xs
      in if i < length xs \<and> \<not> lt k (xs ! i) then (i, xs)
         else (i, take i xs @ k # drop i xs))"

definition erase_at :: "nat \<Rightarrow> 'a list \<Rightarrow> 'a list" where
  "erase_at i xs = take i xs @ drop (Suc i) xs"

definition erase_to :: "nat \<Rightarrow> 'a list \<Rightarrow> 'a list" where
  "erase_to i xs = drop i xs"

section \<open>Facts about positions\<close>

lemma lower_bound_le: "lower_bound lt k xs \<le> length xs"
  by (simp add: lower_bound_def length_takeWhile_le)

lemma take_lower_bound: "take (lower_bound lt k xs) xs = takeWhile (\<lambda>x. lt x k) xs"
  unfolding lower_bound_def by (rule takeWhile_eq_take [symmetric])

lemma drop_lower_bound: "drop (lower_bound lt k xs) xs = dropWhile (\<lambda>x. lt x k) xs"
  unfolding lower_bound_def by (rule dropWhile_eq_drop [symmetric])

lemma set_erase_at_distinct:
  assumes "distinct xs" and "i < length xs"
  shows "set (erase_at i xs) = set xs - {xs ! i}"
proof -
  have "xs = take i xs @ xs ! i # drop (Suc i) xs"
    using assms(2) by (rule id_take_nth_drop)
  with assms(1) show ?thesis
    unfolding erase_at_def by (metis (no_types, lifting) Diff_insert_absorb Un_insert_right
      distinct_append distinct.simps(2) disjoint_insert(1) list.simps(15) not_distinct_conv_prefix
      set_append UnE)
qed

lemma sorted_wrt_erase_at: "sorted_wrt lt xs \<Longrightarrow> sorted_wrt lt (erase_at i xs)"
proof -
  assume a: "sorted_wrt lt xs"
  then have "sorted_wrt lt (take i xs @ drop i xs)" by simp
  moreover have "set (drop (Suc i) xs) \<subseteq> set (drop i xs)"
    by (rule set_drop_subset_set_drop) simp
  ultimately show ?thesis
    using a unfolding erase_at_def
    by (auto simp: sorted_wrt_append sorted_wrt_drop simp del: append_take_drop_id)
qed

lemma sorted_wrt_split:
  "sorted_wrt lt xs \<Longrightarrow>
     sorted_wrt lt (takeWhile P xs) \<and> sorted_wrt lt (dropWhile P xs)"
  using sorted_wrt_append [of lt "takeWhile P xs" "dropWhile P xs"] by simp

lemma sorted_wrt_cong_set:
  assumes "\<And>x y. x \<in> set xs \<Longrightarrow> y \<in> set xs \<Longrightarrow> lt x y = lt' x y"
  shows "sorted_wrt lt xs = sorted_wrt lt' xs"
  using assms by (induction xs) auto

section \<open>The contract of the container\<close>

locale set_comparator =
  fixes lt :: "'a \<Rightarrow> 'a \<Rightarrow> bool"
  assumes lt_irrefl: "\<not> lt x x"
    and lt_trans: "lt x y \<Longrightarrow> lt y z \<Longrightarrow> lt x z"
    and lt_total: "x \<noteq> y \<Longrightarrow> lt x y \<or> lt y x"
begin

lemma lt_asym: "lt x y \<Longrightarrow> \<not> lt y x"
  using lt_irrefl lt_trans by blast

lemma sorted_distinct: "sorted_wrt lt xs \<Longrightarrow> distinct xs"
  by (induction xs) (auto simp: lt_irrefl)

lemma takeWhile_lt_mem:
  assumes "sorted_wrt lt xs" and "k \<in> set xs"
  shows "\<exists>us vs. xs = us @ k # vs \<and> takeWhile (\<lambda>x. lt x k) xs = us"
proof -
  obtain us vs where xs: "xs = us @ k # vs"
    using assms(2) by (auto simp: in_set_conv_decomp)
  with assms(1) have "\<forall>u\<in>set us. lt u k"
    by (auto simp: sorted_wrt_append)
  then have "takeWhile (\<lambda>x. lt x k) xs = us"
    unfolding xs by (simp add: takeWhile_append lt_irrefl takeWhile_eq_all_conv [THEN iffD2])
  with xs show ?thesis by blast
qed

lemma find_mem:
  assumes "sorted_wrt lt xs" and "k \<in> set xs"
  shows "set_find lt k xs < length xs \<and> xs ! set_find lt k xs = k"
proof -
  obtain us vs where "xs = us @ k # vs" "takeWhile (\<lambda>x. lt x k) xs = us"
    using takeWhile_lt_mem [OF assms] by blast
  then show ?thesis
    by (auto simp: set_find_def lower_bound_def Let_def lt_irrefl nth_append)
qed

lemma find_not_mem:
  assumes "k \<notin> set xs"
  shows "set_find lt k xs = length xs"
proof -
  let ?i = "lower_bound lt k xs"
  have "lt k (xs ! ?i)" if "?i < length xs"
  proof -
    have "\<not> lt (xs ! ?i) k"
      using that unfolding lower_bound_def by (rule nth_length_takeWhile)
    moreover have "xs ! ?i \<noteq> k"
      using that assms nth_mem by force
    ultimately show ?thesis using lt_total by blast
  qed
  then show ?thesis by (auto simp: set_find_def Let_def)
qed

lemma find_end_iff: "sorted_wrt lt xs \<Longrightarrow> set_find lt k xs = length xs \<longleftrightarrow> k \<notin> set xs"
  using find_mem find_not_mem by force

lemma erase_find:
  assumes "sorted_wrt lt xs" and "k \<in> set xs"
  shows "set (erase_at (set_find lt k xs) xs) = set xs - {k}"
    and "sorted_wrt lt (erase_at (set_find lt k xs) xs)"
  using find_mem [OF assms] set_erase_at_distinct [OF sorted_distinct [OF assms(1)]]
    sorted_wrt_erase_at [OF assms(1)] by auto

lemma insert_not_mem:
  assumes "k \<notin> set xs"
  shows "set_insert lt k xs =
    (lower_bound lt k xs, takeWhile (\<lambda>x. lt x k) xs @ k # dropWhile (\<lambda>x. lt x k) xs)"
  using find_not_mem [OF assms]
  by (auto simp: set_insert_def set_find_def Let_def take_lower_bound drop_lower_bound
      split: if_splits)

lemma dropWhile_lt_all:
  assumes "sorted_wrt lt xs" and "k \<notin> set xs" and "y \<in> set (dropWhile (\<lambda>x. lt x k) xs)"
  shows "lt k y"
proof -
  obtain z zs where z: "dropWhile (\<lambda>x. lt x k) xs = z # zs"
    using assms(3) by (cases "dropWhile (\<lambda>x. lt x k) xs") auto
  then have "\<not> lt z k" by (simp add: dropWhile_eq_Cons_conv)
  moreover have "z \<in> set xs" using z set_dropWhileD [of z "\<lambda>x. lt x k" xs] by simp
  ultimately have kz: "lt k z" using assms(2) lt_total [of k z] by auto
  have "sorted_wrt lt (dropWhile (\<lambda>x. lt x k) xs)"
    using assms(1) sorted_wrt_split by blast
  with z assms(3) have "y = z \<or> lt z y" by auto
  with kz show ?thesis using lt_trans by blast
qed

lemma insert_sorted:
  assumes "sorted_wrt lt xs" and "k \<notin> set xs"
  shows "sorted_wrt lt (snd (set_insert lt k xs))"
proof -
  have tw: "\<forall>x\<in>set (takeWhile (\<lambda>x. lt x k) xs). lt x k"
    by (auto dest: set_takeWhileD)
  have dw: "\<forall>y\<in>set (dropWhile (\<lambda>x. lt x k) xs). lt k y"
    using dropWhile_lt_all [OF assms] by blast
  have s: "sorted_wrt lt (takeWhile (\<lambda>x. lt x k) xs)" "sorted_wrt lt (dropWhile (\<lambda>x. lt x k) xs)"
    using assms(1) sorted_wrt_split [of lt xs "\<lambda>x. lt x k"] by simp_all
  show ?thesis
    using tw dw s by (auto simp: insert_not_mem [OF assms(2)] sorted_wrt_append intro: lt_trans [of _ k])
qed

lemma insert_set: "k \<notin> set xs \<Longrightarrow> set (snd (set_insert lt k xs)) = insert k (set xs)"
  by (simp add: insert_not_mem) (metis set_append takeWhile_dropWhile_id)

lemma insert_front_iff:
  assumes "sorted_wrt lt xs" and "k \<notin> set xs"
  shows "fst (set_insert lt k xs) = 0 \<longleftrightarrow> (\<forall>x\<in>set xs. lt k x)"
proof -
  have "fst (set_insert lt k xs) = 0 \<longleftrightarrow> takeWhile (\<lambda>x. lt x k) xs = []"
    by (simp add: insert_not_mem [OF assms(2)] lower_bound_def)
  also have "\<dots> \<longleftrightarrow> (\<forall>x\<in>set xs. lt k x)"
  proof (cases xs)
    case (Cons x xs')
    have "takeWhile (\<lambda>x. lt x k) xs = [] \<longleftrightarrow> lt k x"
      using Cons assms(2) lt_total [of k x] lt_asym [of x k] by auto
    moreover have "lt k x \<Longrightarrow> y \<in> set xs' \<Longrightarrow> lt k y" for y
      using Cons assms(1) lt_trans [of k x y] by auto
    ultimately show ?thesis using Cons by auto
  qed simp
  finally show ?thesis .
qed

end

end
