(* ===== verification/Duan_Timer.thy ===== *)
theory Duan_Timer
  imports Std_Set
begin

text \<open>
  \<^verbatim>\<open>timer.h\<close>, \<^verbatim>\<open>timer.cc\<close>: timers and the timer manager. A \<^verbatim>\<open>Timer\<close> object is a record in a
  heap of timers indexed by its address; the manager holds the set of armed timers in the
  order of \<^verbatim>\<open>Timer::Comparator\<close>, which reads the deadlines through the heap. The clock
  (\<^verbatim>\<open>GetCurrentMS\<close>) and the addresses \<^verbatim>\<open>new\<close> returns are arguments. Each operation that
  takes the lock once is one step; \<^verbatim>\<open>listExpiredCb\<close>, which takes it twice, is two.
\<close>

section \<open>Data\<close>

record timer =
  m_recurring :: bool
  m_ms :: u64
  m_next :: u64
  timer_cb :: "callback option"

type_synonym timer_heap = "nat \<Rightarrow> timer option"

record timer_manager =
  theap :: timer_heap
  m_timers :: "nat list"
  m_tickled :: bool
  m_previousTime :: u64

definition next_of :: "timer_heap \<Rightarrow> nat \<Rightarrow> u64" where
  "next_of h p = (case h p of Some t \<Rightarrow> m_next t | None \<Rightarrow> 0)"

text \<open>\<^verbatim>\<open>Timer::Comparator::operator()\<close>; \<^term>\<open>None\<close> is a null pointer.\<close>

definition Comparator :: "timer_heap \<Rightarrow> nat option \<Rightarrow> nat option \<Rightarrow> bool" where
  "Comparator h lhs rhs =
     (case lhs of
        None \<Rightarrow> (case rhs of None \<Rightarrow> False | Some _ \<Rightarrow> True)
      | Some l \<Rightarrow>
          (case rhs of
             None \<Rightarrow> False
           | Some r \<Rightarrow>
               if next_of h l < next_of h r then True
               else if next_of h r < next_of h l then False
               else l < r))"

abbreviation timer_lt :: "timer_heap \<Rightarrow> nat \<Rightarrow> nat \<Rightarrow> bool" where
  "timer_lt h a b \<equiv> Comparator h (Some a) (Some b)"

section \<open>Operations\<close>

text \<open>The two constructors of \<^verbatim>\<open>Timer\<close>.\<close>

definition Timer_new :: "u64 \<Rightarrow> u64 \<Rightarrow> callback option \<Rightarrow> bool \<Rightarrow> timer" where
  "Timer_new now ms cb recurring =
     \<lparr>m_recurring = recurring, m_ms = ms, m_next = now + ms, timer_cb = cb\<rparr>"

definition Timer_at :: "u64 \<Rightarrow> timer" where
  "Timer_at next = \<lparr>m_recurring = False, m_ms = 0, m_next = next, timer_cb = None\<rparr>"

definition TimerManager_new :: "u64 \<Rightarrow> timer_manager" where
  "TimerManager_new now =
     \<lparr>theap = Map.empty, m_timers = [], m_tickled = False, m_previousTime = now\<rparr>"

text \<open>
  \<^verbatim>\<open>TimerManager::addTimer(Timer::ptr, WriteLock&)\<close>: the flag says that
  \<^verbatim>\<open>onTimerInsertedAtFront\<close> is called.
\<close>

definition insertTimer :: "nat \<Rightarrow> timer_manager \<Rightarrow> bool \<times> timer_manager" where
  "insertTimer p m =
     (let (it, ts) = set_insert (timer_lt (theap m)) p (m_timers m);
          at_front = (it = 0 \<and> \<not> m_tickled m);
          m1 = m\<lparr>m_timers := ts\<rparr>
      in if at_front then (True, m1\<lparr>m_tickled := True\<rparr>) else (False, m1))"

text \<open>\<^verbatim>\<open>TimerManager::addTimer(ms, cb, recurring)\<close>, with the object at the address \<open>p\<close>.\<close>

definition addTimer ::
  "nat \<Rightarrow> u64 \<Rightarrow> u64 \<Rightarrow> callback option \<Rightarrow> bool \<Rightarrow> timer_manager \<Rightarrow> bool \<times> timer_manager" where
  "addTimer p now ms cb recurring m =
     insertTimer p (m\<lparr>theap := (theap m)(p \<mapsto> Timer_new now ms cb recurring)\<rparr>)"

text \<open>
  \<^verbatim>\<open>OnTimer\<close>: the callbacks a call of the bound function object makes, given which
  condition objects are still alive.
\<close>

definition OnTimer :: "(nat \<Rightarrow> bool) \<Rightarrow> nat \<Rightarrow> callback \<Rightarrow> callback list" where
  "OnTimer alive weak_cond cb = (if alive weak_cond then [cb] else [])"

definition addConditionTimer ::
  "nat \<Rightarrow> u64 \<Rightarrow> u64 \<Rightarrow> callback \<Rightarrow> nat \<Rightarrow> bool \<Rightarrow> timer_manager \<Rightarrow> bool \<times> timer_manager" where
  "addConditionTimer p now ms cb weak_cond recurring m =
     addTimer p now ms (Some (OnTimerBind weak_cond cb)) recurring m"

definition cancel :: "nat \<Rightarrow> timer_manager \<Rightarrow> (bool \<times> timer_manager) res" where
  "cancel p m =
     deref ''Timer'' (theap m p) (\<lambda>t.
       if timer_cb t \<noteq> None then
         let m1 = m\<lparr>theap := (theap m)(p \<mapsto> t\<lparr>timer_cb := None\<rparr>)\<rparr>;
             it = set_find (timer_lt (theap m1)) p (m_timers m1)
         in if it = length (m_timers m1) then Inl (UB ''erase(end())'')
            else Inr (True, m1\<lparr>m_timers := erase_at it (m_timers m1)\<rparr>)
       else Inr (False, m))"

definition refresh :: "nat \<Rightarrow> u64 \<Rightarrow> timer_manager \<Rightarrow> (bool \<times> timer_manager) res" where
  "refresh p now m =
     deref ''Timer'' (theap m p) (\<lambda>t.
       if timer_cb t = None then Inr (False, m)
       else
         let it = set_find (timer_lt (theap m)) p (m_timers m)
         in if it = length (m_timers m) then Inr (False, m)
            else
              let ts = erase_at it (m_timers m);
                  h = (theap m)(p \<mapsto> t\<lparr>m_next := now + m_ms t\<rparr>)
              in Inr (True, m\<lparr>theap := h, m_timers := snd (set_insert (timer_lt h) p ts)\<rparr>))"

text \<open>\<^verbatim>\<open>Timer::reset\<close>: the result, whether \<^verbatim>\<open>onTimerInsertedAtFront\<close> is called, the manager.\<close>

definition timer_reset ::
  "nat \<Rightarrow> u64 \<Rightarrow> u64 \<Rightarrow> bool \<Rightarrow> timer_manager \<Rightarrow> (bool \<times> bool \<times> timer_manager) res" where
  "timer_reset p now ms from_now m =
     deref ''Timer'' (theap m p) (\<lambda>t.
       if ms = m_ms t \<and> \<not> from_now then Inr (True, False, m)
       else if timer_cb t = None then Inr (False, False, m)
       else
         let it = set_find (timer_lt (theap m)) p (m_timers m)
         in if it = length (m_timers m) then Inr (False, False, m)
            else
              let ts = erase_at it (m_timers m);
                  start = (if from_now then now else m_next t - m_ms t);
                  t' = t\<lparr>m_ms := ms, m_next := start + ms\<rparr>;
                  (front, m') =
                    insertTimer p (m\<lparr>theap := (theap m)(p \<mapsto> t'), m_timers := ts\<rparr>)
              in Inr (True, front, m'))"

definition getNextTimer :: "u64 \<Rightarrow> timer_manager \<Rightarrow> u64 \<times> timer_manager" where
  "getNextTimer now m =
     (let m1 = m\<lparr>m_tickled := False\<rparr>
      in case m_timers m of
           [] \<Rightarrow> (- 1, m1)
         | p # _ \<Rightarrow>
             if next_of (theap m) p \<le> now then (0, m1)
             else (next_of (theap m) p - now, m1))"

definition detectClockRollover :: "u64 \<Rightarrow> timer_manager \<Rightarrow> bool \<times> timer_manager" where
  "detectClockRollover now m =
     (let rollover = (now < m_previousTime m \<and> now < m_previousTime m - 60 * 60 * 1000)
      in (rollover, m\<lparr>m_previousTime := now\<rparr>))"

definition hasTimer :: "timer_manager \<Rightarrow> bool" where
  "hasTimer m = (m_timers m \<noteq> [])"

text \<open>
  The loop over the expired timers at the end of \<^verbatim>\<open>listExpiredCb\<close>, one iteration first. The
  expired objects are alive, since the vector \<^verbatim>\<open>expired\<close> shares their ownership; a dead address
  is skipped, which no well-formed manager meets.
\<close>

definition fire_one :: "u64 \<Rightarrow> nat \<Rightarrow> timer \<Rightarrow> timer_manager \<Rightarrow> timer_manager" where
  "fire_one now p t m =
     (if m_recurring t then
        let h = (theap m)(p \<mapsto> t\<lparr>m_next := now + m_ms t\<rparr>)
        in m\<lparr>theap := h, m_timers := snd (set_insert (timer_lt h) p (m_timers m))\<rparr>
      else m\<lparr>theap := (theap m)(p \<mapsto> t\<lparr>timer_cb := None\<rparr>)\<rparr>)"

fun fire_expired ::
  "u64 \<Rightarrow> nat list \<Rightarrow> timer_manager \<Rightarrow> callback option list \<times> timer_manager" where
  "fire_expired now [] m = ([], m)"
| "fire_expired now (p # ps) m =
     (case theap m p of
        None \<Rightarrow> fire_expired now ps m
      | Some t \<Rightarrow>
          let (cbs, m1) = fire_expired now ps (fire_one now p t m)
          in (timer_cb t # cbs, m1))"

text \<open>
  The position of the iterator that ends the expired range: \<^verbatim>\<open>lower_bound(now_timer)\<close>, where
  \<^verbatim>\<open>now_timer\<close> is a fresh object at the address \<open>q\<close>, moved over the timers due exactly now.
\<close>

definition expired_end :: "nat \<Rightarrow> u64 \<Rightarrow> bool \<Rightarrow> timer_manager \<Rightarrow> nat" where
  "expired_end q now rollover m =
     (let ts = m_timers m;
          it = (if rollover then length ts
                else lower_bound (timer_lt ((theap m)(q \<mapsto> Timer_at now))) q ts)
      in it + length (takeWhile (\<lambda>p. next_of (theap m) p = now) (drop it ts)))"

text \<open>\<^verbatim>\<open>listExpiredCb\<close> after the write lock is taken.\<close>

definition listExpiredCb_locked ::
  "nat \<Rightarrow> u64 \<Rightarrow> timer_manager \<Rightarrow> (callback option list \<times> timer_manager) res" where
  "listExpiredCb_locked q now m =
     (let (rollover, m1) = detectClockRollover now m
      in if \<not> rollover \<and> m_timers m1 = [] then Inl (UB ''*begin() of an empty set'')
         else if \<not> rollover \<and> now < next_of (theap m1) (hd (m_timers m1)) then Inr ([], m1)
         else
           let it = expired_end q now rollover m1;
               expired = take it (m_timers m1)
           in Inr (fire_expired now expired (m1\<lparr>m_timers := erase_to it (m_timers m1)\<rparr>)))"

text \<open>\<^verbatim>\<open>listExpiredCb\<close> when no other thread runs between its two locked sections.\<close>

definition listExpiredCb ::
  "nat \<Rightarrow> u64 \<Rightarrow> timer_manager \<Rightarrow> (callback option list \<times> timer_manager) res" where
  "listExpiredCb q now m =
     (if m_timers m = [] then Inr ([], m) else listExpiredCb_locked q now m)"

section \<open>Specification\<close>

text \<open>
  The set is ordered by the deadlines of the objects it holds, holds live objects only,
  and contains every timer that still has a callback.
\<close>

definition timers_wf :: "timer_manager \<Rightarrow> bool" where
  "timers_wf m \<longleftrightarrow>
     sorted_wrt (timer_lt (theap m)) (m_timers m) \<and>
     set (m_timers m) \<subseteq> dom (theap m) \<and>
     (\<forall>p t. theap m p = Some t \<longrightarrow> timer_cb t \<noteq> None \<longrightarrow> p \<in> set (m_timers m))"

text \<open>The same while the timers of \<open>X\<close> are out of the set.\<close>

definition timers_wf_upto :: "nat set \<Rightarrow> timer_manager \<Rightarrow> bool" where
  "timers_wf_upto X m \<longleftrightarrow>
     sorted_wrt (timer_lt (theap m)) (m_timers m) \<and>
     set (m_timers m) \<subseteq> dom (theap m) \<and>
     (\<forall>p t. theap m p = Some t \<longrightarrow> timer_cb t \<noteq> None \<longrightarrow> p \<in> set (m_timers m) \<union> X)"

text \<open>
  The abstract timer service: a map from armed timers to their data, with no order and no
  iterators. Expiry fires every timer whose deadline is reached; a periodic one is
  rearmed one period after now, the others are dropped.
\<close>

definition armed :: "timer_manager \<Rightarrow> timer_heap" where
  "armed m p = (if p \<in> set (m_timers m) then theap m p else None)"

definition due :: "u64 \<Rightarrow> timer_manager \<Rightarrow> nat \<Rightarrow> bool" where
  "due now m p \<longleftrightarrow> fst (detectClockRollover now m) \<or> next_of (theap m) p \<le> now"

definition expire :: "u64 \<Rightarrow> (nat \<Rightarrow> bool) \<Rightarrow> timer_heap \<Rightarrow> timer_heap" where
  "expire now fires A p =
     (case A p of
        None \<Rightarrow> None
      | Some t \<Rightarrow>
          if fires p then
            (if m_recurring t then Some (t\<lparr>m_next := now + m_ms t\<rparr>) else None)
          else Some t)"

definition fired_object :: "u64 \<Rightarrow> timer \<Rightarrow> timer" where
  "fired_object now t =
     (if m_recurring t then t\<lparr>m_next := now + m_ms t\<rparr> else t\<lparr>timer_cb := None\<rparr>)"

text \<open>Every sequence of operations of any threads, each under the manager's lock.\<close>

inductive timer_step :: "timer_manager \<Rightarrow> timer_manager \<Rightarrow> bool" where
  step_add: "theap m p = None \<Longrightarrow> timer_step m (snd (addTimer p now ms cb rec m))"
| step_cancel: "cancel p m = Inr (b, m') \<Longrightarrow> timer_step m m'"
| step_refresh: "refresh p now m = Inr (b, m') \<Longrightarrow> timer_step m m'"
| step_reset: "timer_reset p now ms from_now m = Inr (b, f, m') \<Longrightarrow> timer_step m m'"
| step_next: "timer_step m (snd (getNextTimer now m))"
| step_expire: "theap m q = None \<Longrightarrow> listExpiredCb_locked q now m = Inr (cbs, m') \<Longrightarrow> timer_step m m'"

definition timer_init :: "timer_manager \<Rightarrow> bool" where
  "timer_init m \<longleftrightarrow> (\<exists>now. m = TimerManager_new now)"

section \<open>The comparator\<close>

lemma next_of_upd [simp]:
  "next_of (h(q \<mapsto> t)) p = (if p = q then m_next t else next_of h p)"
  by (simp add: next_of_def)

lemma next_of_Some: "h p = Some t \<Longrightarrow> next_of h p = m_next t"
  by (simp add: next_of_def)

lemma timer_lt_iff:
  "timer_lt h a b \<longleftrightarrow>
     next_of h a < next_of h b \<or> (next_of h a = next_of h b \<and> a < b)"
  by (auto simp: Comparator_def)

interpretation timer_set: set_comparator "timer_lt h" for h
  by unfold_locales (auto simp: timer_lt_iff)

lemma timer_lt_cong:
  "next_of h a = next_of h' a \<Longrightarrow> next_of h b = next_of h' b \<Longrightarrow>
     timer_lt h a b = timer_lt h' a b"
  by (simp add: timer_lt_iff)

lemma sorted_heap_cong:
  assumes "\<And>p. p \<in> set ts \<Longrightarrow> next_of h p = next_of h' p"
  shows "sorted_wrt (timer_lt h) ts = sorted_wrt (timer_lt h') ts"
  using assms by (intro sorted_wrt_cong_set timer_lt_cong)

lemma sorted_heap_upd [simp]:
  "p \<notin> set ts \<Longrightarrow> sorted_wrt (timer_lt (h(p \<mapsto> t))) ts = sorted_wrt (timer_lt h) ts"
  by (rule sorted_heap_cong) auto

lemma sorted_heap_same_next:
  "next_of h p = m_next t \<Longrightarrow>
     sorted_wrt (timer_lt (h(p \<mapsto> t))) ts = sorted_wrt (timer_lt h) ts"
  by (rule sorted_heap_cong) auto

lemma find_cong_next:
  assumes "next_of h p = m_next t"
  shows "timer_lt (h(p \<mapsto> t)) = timer_lt h"
proof (intro ext)
  fix a b
  have "next_of (h(p \<mapsto> t)) x = next_of h x" for x
    using assms by simp
  then show "timer_lt (h(p \<mapsto> t)) a b = timer_lt h a b"
    by (intro timer_lt_cong)
qed

section \<open>The due prefix\<close>

lemma sorted_next_mono:
  assumes "sorted_wrt (timer_lt h) (x # xs)" and "y \<in> set xs"
  shows "next_of h x \<le> next_of h y"
  using assms by (auto simp: timer_lt_iff)

lemma takeWhile_due_filter:
  assumes "sorted_wrt (timer_lt h) ts"
  shows "takeWhile (\<lambda>p. next_of h p \<le> now) ts = filter (\<lambda>p. next_of h p \<le> now) ts \<and>
         dropWhile (\<lambda>p. next_of h p \<le> now) ts = filter (\<lambda>p. \<not> next_of h p \<le> now) ts"
  using assms
proof (induction ts)
  case (Cons x xs)
  show ?case
  proof (cases "next_of h x \<le> now")
    case True
    with Cons show ?thesis by simp
  next
    case False
    then have "\<not> next_of h y \<le> now" if "y \<in> set xs" for y
      using sorted_next_mono [OF Cons.prems that] by simp
    with False show ?thesis by (auto simp: filter_empty_conv filter_id_conv)
  qed
qed simp

lemma takeWhile_append_cond:
  assumes "\<And>x. x \<in> set xs \<Longrightarrow> P x"
  shows "takeWhile P (xs @ ys) = xs @ takeWhile P ys"
  using assms by (simp add: takeWhile_append)

text \<open>
  The iterator of \<^verbatim>\<open>listExpiredCb\<close> stops after exactly the timers whose deadline is at most
  now, whatever address the allocator gave to the comparison object.
\<close>

lemma expired_end_split:
  assumes sorted: "sorted_wrt (timer_lt (theap m)) (m_timers m)" and fresh: "q \<notin> set (m_timers m)"
  shows "take (expired_end q now False m) (m_timers m) =
           takeWhile (\<lambda>p. next_of (theap m) p \<le> now) (m_timers m)"
    (is "take ?e ?ts = _")
proof -
  let ?h = "(theap m)(q \<mapsto> Timer_at now)" and ?N = "next_of (theap m)"
  let ?A = "takeWhile (\<lambda>x. timer_lt ?h x q) ?ts" and ?R = "dropWhile (\<lambda>x. timer_lt ?h x q) ?ts"
  have lt: "timer_lt ?h x q \<longleftrightarrow> ?N x < now \<or> ?N x = now \<and> x < q"
    and gt: "timer_lt ?h q x \<longleftrightarrow> now < ?N x \<or> ?N x = now \<and> q < x" if "x \<in> set ?ts" for x
    using that fresh by (auto simp: timer_lt_iff Timer_at_def)
  have A: "?N x \<le> now" if "x \<in> set ?A" for x
    using that lt [of x] by (auto dest!: set_takeWhileD)
  have R: "now \<le> ?N x" if "x \<in> set ?R" for x
  proof -
    have "timer_lt ?h q x"
      using timer_set.dropWhile_lt_all [of ?h ?ts q x] sorted fresh that by simp
    then show ?thesis using gt [of x] set_dropWhileD [OF that] by auto
  qed
  have "takeWhile (\<lambda>p. ?N p = now) ?R = takeWhile (\<lambda>p. ?N p \<le> now) ?R"
    using R by (intro takeWhile_cong) force+
  moreover have "take ?e ?ts = ?A @ takeWhile (\<lambda>p. ?N p = now) ?R"
    by (simp add: expired_end_def Let_def take_add take_lower_bound drop_lower_bound
        takeWhile_eq_take [symmetric])
  moreover have "takeWhile (\<lambda>p. ?N p \<le> now) (?A @ ?R) = ?A @ takeWhile (\<lambda>p. ?N p \<le> now) ?R"
    using A by (rule takeWhile_append_cond)
  ultimately show ?thesis by simp
qed

section \<open>Well-formedness\<close>

lemma timers_wf_upto_empty: "timers_wf m = timers_wf_upto {} m"
  by (simp add: timers_wf_def timers_wf_upto_def)

lemma wf_uptoD:
  assumes "timers_wf_upto X m"
  shows "sorted_wrt (timer_lt (theap m)) (m_timers m)" and "set (m_timers m) \<subseteq> dom (theap m)"
  using assms by (auto simp: timers_wf_upto_def)

lemma wf_upto_mono: "timers_wf_upto X m \<Longrightarrow> X \<subseteq> Y \<Longrightarrow> timers_wf_upto Y m"
  unfolding timers_wf_upto_def by blast

lemma wf_upto_insert:
  assumes "timers_wf_upto X m" and "p \<notin> set (m_timers m)" and "p \<in> dom (theap m)"
  shows "timers_wf_upto (X - {p})
           (m\<lparr>m_timers := snd (set_insert (timer_lt (theap m)) p (m_timers m))\<rparr>)"
proof -
  have s: "sorted_wrt (timer_lt (theap m)) (snd (set_insert (timer_lt (theap m)) p (m_timers m)))"
    using wf_uptoD(1) [OF assms(1)] assms(2) by (rule timer_set.insert_sorted)
  have "set (snd (set_insert (timer_lt (theap m)) p (m_timers m))) = insert p (set (m_timers m))"
    using assms(2) by (rule timer_set.insert_set)
  with s assms show ?thesis unfolding timers_wf_upto_def by (simp del: not_None_eq) blast
qed

lemma wf_upto_erase:
  assumes "timers_wf_upto X m" and "p \<in> set (m_timers m)"
  shows "timers_wf_upto (insert p X)
           (m\<lparr>m_timers := erase_at (set_find (timer_lt (theap m)) p (m_timers m)) (m_timers m)\<rparr>)"
  using assms timer_set.erase_find [OF wf_uptoD(1) [OF assms(1)] assms(2)]
  unfolding timers_wf_upto_def by (simp del: not_None_eq) blast

lemma wf_upto_heap:
  assumes "timers_wf_upto X m" and "p \<notin> set (m_timers m) \<or> next_of (theap m) p = m_next t"
  shows "timers_wf_upto (if timer_cb t = None then X - {p} else insert p X)
           (m\<lparr>theap := (theap m)(p \<mapsto> t)\<rparr>)"
  using assms sorted_heap_same_next [of "theap m" p t "m_timers m"]
  unfolding timers_wf_upto_def by auto

lemma wf_upto_drop:
  assumes "timers_wf_upto (insert p X) m" and "theap m p = Some t" and "timer_cb t = None"
  shows "timers_wf_upto X m"
proof -
  have "q \<in> set (m_timers m) \<union> X" if "theap m q = Some u" "timer_cb u \<noteq> None" for q u
    using assms that unfolding timers_wf_upto_def by (cases "q = p") auto
  then show ?thesis using assms(1) unfolding timers_wf_upto_def by blast
qed

lemma wf_upto_flags [simp]:
  "timers_wf_upto X (m\<lparr>m_tickled := b\<rparr>) = timers_wf_upto X m"
  "timers_wf_upto X (m\<lparr>m_previousTime := n\<rparr>) = timers_wf_upto X m"
  by (simp_all add: timers_wf_upto_def)

lemma wf_find_end:
  "timers_wf_upto X m \<Longrightarrow>
     set_find (timer_lt (theap m)) p (m_timers m) = length (m_timers m) \<longleftrightarrow> p \<notin> set (m_timers m)"
  by (simp add: timer_set.find_end_iff wf_uptoD(1))

section \<open>Each operation keeps the manager well-formed\<close>

lemma insertTimer_fields:
  "theap (snd (insertTimer p m)) = theap m"
  "m_timers (snd (insertTimer p m)) = snd (set_insert (timer_lt (theap m)) p (m_timers m))"
  "m_previousTime (snd (insertTimer p m)) = m_previousTime m"
  "m_tickled (snd (insertTimer p m)) = (m_tickled m \<or> fst (insertTimer p m))"
  "fst (insertTimer p m) =
     (fst (set_insert (timer_lt (theap m)) p (m_timers m)) = 0 \<and> \<not> m_tickled m)"
  by (auto simp: insertTimer_def Let_def split: prod.splits)

lemma insertTimer_wf_upto:
  assumes "timers_wf_upto X m" and "p \<notin> set (m_timers m)" and "p \<in> dom (theap m)"
  shows "timers_wf_upto (X - {p}) (snd (insertTimer p m))"
proof -
  have "snd (insertTimer p m) =
      (m\<lparr>m_timers := snd (set_insert (timer_lt (theap m)) p (m_timers m))\<rparr>)
        \<lparr>m_tickled := m_tickled (snd (insertTimer p m))\<rparr>"
    by (rule timer_manager.equality) (simp_all add: insertTimer_fields)
  then show ?thesis using wf_upto_insert [OF assms] by (metis wf_upto_flags(1))
qed

lemma addTimer_wf:
  assumes "timers_wf m" and "theap m p = None"
  shows "timers_wf (snd (addTimer p now ms cb rec m))"
proof -
  let ?t = "Timer_new now ms cb rec" and ?m = "m\<lparr>theap := (theap m)(p \<mapsto> Timer_new now ms cb rec)\<rparr>"
  have p: "p \<notin> set (m_timers m)" using assms by (auto simp: timers_wf_def)
  have "timers_wf_upto {p} ?m"
    using wf_upto_heap [of "{}" m p ?t] p assms(1) wf_upto_mono
    by (auto simp: timers_wf_upto_empty split: if_splits)
  then have "timers_wf_upto ({p} - {p}) (snd (insertTimer p ?m))"
    by (rule insertTimer_wf_upto) (simp_all add: p)
  then show ?thesis by (simp add: addTimer_def timers_wf_upto_empty)
qed

lemma cancel_armed:
  assumes "timers_wf m" and "theap m p = Some t" and "timer_cb t \<noteq> None"
  shows "\<exists>m'. cancel p m = Inr (True, m') \<and> timers_wf m' \<and>
           set (m_timers m') = set (m_timers m) - {p} \<and>
           theap m' = (theap m)(p \<mapsto> t\<lparr>timer_cb := None\<rparr>)"
proof -
  let ?h = "(theap m)(p \<mapsto> t\<lparr>timer_cb := None\<rparr>)"
  let ?m1 = "m\<lparr>theap := ?h\<rparr>"
  have p: "p \<in> set (m_timers m)" using assms by (auto simp: timers_wf_def)
  have wf1: "timers_wf_upto {} ?m1"
    using wf_upto_heap [of "{}" m p "t\<lparr>timer_cb := None\<rparr>"] assms
    by (simp add: next_of_Some timers_wf_upto_empty)
  let ?it = "set_find (timer_lt ?h) p (m_timers m)"
  have it: "?it \<noteq> length (m_timers m)"
    using wf_find_end [OF wf1, of p] p by simp
  have er: "set (erase_at ?it (m_timers m)) = set (m_timers m) - {p}"
    using timer_set.erase_find(1) [OF wf_uptoD(1) [OF wf1]] p by simp
  have "timers_wf_upto {p} (?m1\<lparr>m_timers := erase_at ?it (m_timers m)\<rparr>)"
    using wf_upto_erase [OF wf1, of p] p by simp
  then have "timers_wf (?m1\<lparr>m_timers := erase_at ?it (m_timers m)\<rparr>)"
    using wf_upto_drop [of p "{}" _ "t\<lparr>timer_cb := None\<rparr>"] by (simp add: timers_wf_upto_empty)
  with it er assms(2,3) show ?thesis
    by (auto simp: cancel_def Let_def)
qed

lemma cancel_wf: "timers_wf m \<Longrightarrow> cancel p m = Inr (b, m') \<Longrightarrow> timers_wf m'"
  using cancel_armed [of m p]
  by (cases "theap m p") (auto simp: cancel_def split: if_splits)

lemma rearm_wf:
  assumes wf: "timers_wf m" and p: "p \<in> set (m_timers m)" and t: "theap m p = Some t"
  shows "timers_wf_upto {p} (m\<lparr>theap := (theap m)(p \<mapsto> t'),
           m_timers := erase_at (set_find (timer_lt (theap m)) p (m_timers m)) (m_timers m)\<rparr>)"
    (is "timers_wf_upto _ (m\<lparr>theap := _, m_timers := ?ts\<rparr>)")
    and "p \<notin> set (erase_at (set_find (timer_lt (theap m)) p (m_timers m)) (m_timers m))"
proof -
  have wf0: "timers_wf_upto {} m" using wf by (simp add: timers_wf_upto_empty)
  have wf1: "timers_wf_upto {p} (m\<lparr>m_timers := ?ts\<rparr>)"
    using wf_upto_erase [OF wf0 p] by simp
  show notin: "p \<notin> set ?ts"
    using timer_set.erase_find(1) [OF wf_uptoD(1) [OF wf0] p] by simp
  have "timers_wf_upto {p} (m\<lparr>m_timers := ?ts\<rparr>\<lparr>theap := (theap m)(p \<mapsto> t')\<rparr>)"
    using wf_upto_heap [OF wf1, of p t'] notin wf_upto_mono by (auto split: if_splits)
  moreover have "m\<lparr>m_timers := ?ts\<rparr>\<lparr>theap := (theap m)(p \<mapsto> t')\<rparr> =
      m\<lparr>theap := (theap m)(p \<mapsto> t'), m_timers := ?ts\<rparr>"
    by (rule timer_manager.equality) simp_all
  ultimately show "timers_wf_upto {p} (m\<lparr>theap := (theap m)(p \<mapsto> t'), m_timers := ?ts\<rparr>)"
    by simp
qed

lemma refresh_armed:
  assumes wf: "timers_wf m" and t: "theap m p = Some t" "timer_cb t \<noteq> None"
  shows "\<exists>m'. refresh p now m = Inr (True, m') \<and> timers_wf m' \<and>
           theap m' = (theap m)(p \<mapsto> t\<lparr>m_next := now + m_ms t\<rparr>) \<and>
           set (m_timers m') = set (m_timers m)"
proof -
  let ?it = "set_find (timer_lt (theap m)) p (m_timers m)"
  let ?h = "(theap m)(p \<mapsto> t\<lparr>m_next := now + m_ms t\<rparr>)" and ?ts = "erase_at ?it (m_timers m)"
  let ?m' = "m\<lparr>theap := ?h, m_timers := snd (set_insert (timer_lt ?h) p ?ts)\<rparr>"
  have p: "p \<in> set (m_timers m)" using wf t by (auto simp: timers_wf_def)
  have wf0: "timers_wf_upto {} m" using wf by (simp add: timers_wf_upto_empty)
  note rw = rearm_wf(1) [OF wf p t(1), of "t\<lparr>m_next := now + m_ms t\<rparr>"] rearm_wf(2) [OF wf p t(1)]
  have "timers_wf ?m'"
    using wf_upto_insert [OF rw(1), of p] rw(2) by (simp add: timers_wf_upto_empty)
  moreover have "set (m_timers ?m') = set (m_timers m)"
    using timer_set.insert_set [OF rw(2), of ?h]
      timer_set.erase_find(1) [OF wf_uptoD(1) [OF wf0] p] p by auto
  moreover have "refresh p now m = Inr (True, ?m')"
    using t p wf_find_end [OF wf0, of p] by (auto simp: refresh_def Let_def)
  ultimately show ?thesis by simp
qed

lemma refresh_no_cb:
  "theap m p = Some t \<Longrightarrow> timer_cb t = None \<Longrightarrow> refresh p now m = Inr (False, m)"
  by (simp add: refresh_def)

lemma refresh_wf:
  assumes "timers_wf m" and "refresh p now m = Inr (b, m')"
  shows "timers_wf m'"
proof (cases "theap m p")
  case (Some t)
  with assms show ?thesis
    using refresh_armed [OF assms(1) Some, of now] refresh_no_cb [OF Some, of now]
    by (cases "timer_cb t = None") auto
qed (use assms in \<open>simp add: refresh_def\<close>)

lemma timer_reset_armed:
  assumes wf: "timers_wf m" and t: "theap m p = Some t" "timer_cb t \<noteq> None"
    and change: "ms \<noteq> m_ms t \<or> from_now"
    and t': "t' = t\<lparr>m_ms := ms, m_next := (if from_now then now else m_next t - m_ms t) + ms\<rparr>"
  shows "\<exists>front m'. timer_reset p now ms from_now m = Inr (True, front, m') \<and>
           timers_wf m' \<and> theap m' = (theap m)(p \<mapsto> t') \<and>
           set (m_timers m') = set (m_timers m)"
proof -
  let ?it = "set_find (timer_lt (theap m)) p (m_timers m)"
  let ?m1 = "m\<lparr>theap := (theap m)(p \<mapsto> t'), m_timers := erase_at ?it (m_timers m)\<rparr>"
  have p: "p \<in> set (m_timers m)" using wf t by (auto simp: timers_wf_def)
  have wf0: "timers_wf_upto {} m" using wf by (simp add: timers_wf_upto_empty)
  note rw = rearm_wf(1) [OF wf p t(1), of t'] rearm_wf(2) [OF wf p t(1)]
  have "timers_wf_upto ({p} - {p}) (snd (insertTimer p ?m1))"
    using insertTimer_wf_upto [OF rw(1), of p] rw(2) by simp
  moreover have "set (m_timers (snd (insertTimer p ?m1))) = set (m_timers m)"
    using timer_set.insert_set [of p "erase_at ?it (m_timers m)" "theap ?m1"] rw(2)
      timer_set.erase_find(1) [OF wf_uptoD(1) [OF wf0] p] p
    by (auto simp: insertTimer_fields)
  moreover have "timer_reset p now ms from_now m =
      Inr (True, fst (insertTimer p ?m1), snd (insertTimer p ?m1))"
    using t change t' p wf_find_end [OF wf0, of p]
    by (auto simp: timer_reset_def Let_def split: prod.splits)
  ultimately show ?thesis by (simp add: timers_wf_upto_empty insertTimer_fields)
qed

lemma timer_reset_wf:
  assumes "timers_wf m" and "timer_reset p now ms from_now m = Inr (b, f, m')"
  shows "timers_wf m'"
proof (cases "theap m p")
  case (Some t)
  show ?thesis
  proof (cases "timer_cb t = None \<or> ms = m_ms t \<and> \<not> from_now")
    case True
    with Some assms show ?thesis by (auto simp: timer_reset_def split: if_splits)
  next
    case False
    then show ?thesis
      using assms(2) timer_reset_armed [OF assms(1) Some _ _ refl, of ms from_now now] by auto
  qed
qed (use assms in \<open>simp add: timer_reset_def\<close>)

lemma getNextTimer_fields [simp]:
  "theap (snd (getNextTimer now m)) = theap m"
  "m_timers (snd (getNextTimer now m)) = m_timers m"
  by (auto simp: getNextTimer_def Let_def split: list.splits)

lemma getNextTimer_wf: "timers_wf m \<Longrightarrow> timers_wf (snd (getNextTimer now m))"
  by (simp add: timers_wf_def)

section \<open>Expiry\<close>

lemma fire_expired_Cons:
  "theap m p = Some t \<Longrightarrow>
     fire_expired now (p # ps) m =
       (timer_cb t # fst (fire_expired now ps (fire_one now p t m)),
        snd (fire_expired now ps (fire_one now p t m)))"
  by (simp split: prod.splits)

lemma fire_one_wf:
  assumes wf: "timers_wf_upto (insert p X) m" and t: "theap m p = Some t"
    and p: "p \<notin> set (m_timers m)"
  shows "timers_wf_upto (X - {p}) (fire_one now p t m)"
    and "theap (fire_one now p t m) = (theap m)(p \<mapsto> fired_object now t)"
    and "set (m_timers (fire_one now p t m)) =
           (if m_recurring t then insert p (set (m_timers m)) else set (m_timers m))"
proof -
  let ?t' = "fired_object now t"
  let ?m1 = "m\<lparr>theap := (theap m)(p \<mapsto> ?t')\<rparr>"
  have wf1: "timers_wf_upto (if timer_cb ?t' = None then insert p X - {p} else insert p (insert p X)) ?m1"
    using wf_upto_heap [OF wf, of p ?t'] p by blast
  show "timers_wf_upto (X - {p}) (fire_one now p t m)"
  proof (cases "m_recurring t")
    case True
    have "timers_wf_upto (insert p X) ?m1"
      using wf1 by (rule wf_upto_mono) auto
    from wf_upto_insert [OF this, of p] show ?thesis
      using p True by (simp add: fire_one_def fired_object_def Let_def)
  next
    case False
    with wf1 show ?thesis by (simp add: fire_one_def fired_object_def)
  qed
  show "theap (fire_one now p t m) = (theap m)(p \<mapsto> ?t')"
    by (simp add: fire_one_def fired_object_def Let_def)
  show "set (m_timers (fire_one now p t m)) =
      (if m_recurring t then insert p (set (m_timers m)) else set (m_timers m))"
    using p by (simp add: fire_one_def Let_def timer_set.insert_set)
qed

lemma fire_one_flags:
  "m_tickled (fire_one now p t m) = m_tickled m"
  "m_previousTime (fire_one now p t m) = m_previousTime m"
  by (simp_all add: fire_one_def Let_def)

lemma fire_expired_spec:
  assumes "timers_wf_upto (set ps) m" and "distinct ps" and "set ps \<subseteq> dom (theap m)"
    and "set ps \<inter> set (m_timers m) = {}"
    and "(cbs, m') = fire_expired now ps m"
  shows "timers_wf m' \<and>
     cbs = map (\<lambda>p. timer_cb (the (theap m p))) ps \<and>
     theap m' = (\<lambda>p. if p \<in> set ps then map_option (fired_object now) (theap m p) else theap m p) \<and>
     set (m_timers m') = set (m_timers m) \<union> {p \<in> set ps. m_recurring (the (theap m p))}"
  using assms
proof (induction ps arbitrary: m cbs)
  case Nil
  then show ?case by (simp add: timers_wf_upto_empty)
next
  case (Cons p ps)
  then obtain t where t: "theap m p = Some t" by auto
  let ?m1 = "fire_one now p t m"
  have p: "p \<notin> set (m_timers m)" "p \<notin> set ps" using Cons.prems by auto
  note one = fire_one_wf [of p "set ps" m t now, OF _ t p(1)]
  have wf: "timers_wf_upto (insert p (set ps)) m" using Cons.prems(1) by simp
  note m1 = one [OF wf]
  have disj: "set ps \<inter> set (m_timers ?m1) = {}"
    using Cons.prems(4) p(2) by (auto simp: m1(3))
  obtain cbs1 where r: "(cbs1, m') = fire_expired now ps ?m1" and cbs: "cbs = timer_cb t # cbs1"
    using Cons.prems(5) unfolding fire_expired_Cons [OF t] by (cases "fire_expired now ps ?m1") simp
  have "set ps \<subseteq> dom (theap ?m1)" using Cons.prems(3) by (auto simp: m1(2))
  with Cons.IH [OF _ _ _ disj r] m1(1) p(2) Cons.prems(2)
  have IH: "timers_wf m'" "cbs1 = map (\<lambda>p. timer_cb (the (theap ?m1 p))) ps"
    "theap m' = (\<lambda>p. if p \<in> set ps then map_option (fired_object now) (theap ?m1 p) else theap ?m1 p)"
    "set (m_timers m') = set (m_timers ?m1) \<union> {p \<in> set ps. m_recurring (the (theap ?m1 p))}"
    by simp_all
  have "cbs1 = map (\<lambda>p. timer_cb (the (theap m p))) ps"
    using p(2) unfolding IH(2) by (auto simp: m1(2))
  moreover have "set (m_timers m') =
      set (m_timers m) \<union> {q \<in> set (p # ps). m_recurring (the (theap m q))}"
    using p(2) t by (auto simp: IH(4) m1(2,3) split: if_splits)
  moreover have "theap m' = (\<lambda>q. if q \<in> set (p # ps) then map_option (fired_object now) (theap m q)
      else theap m q)"
    using p(2) t by (auto simp: IH(3) m1(2))
  ultimately show ?case using IH(1) cbs t by simp
qed

lemma detectClockRollover_fields [simp]:
  "theap (snd (detectClockRollover now m)) = theap m"
  "m_timers (snd (detectClockRollover now m)) = m_timers m"
  by (simp_all add: detectClockRollover_def Let_def)

lemma expired_end_rollover: "take (expired_end q now True m) (m_timers m) = m_timers m"
  by (simp add: expired_end_def)

lemma take_expired_due:
  assumes "timers_wf m" and "q \<notin> set (m_timers m)"
  shows "take (expired_end q now (fst (detectClockRollover now m)) m) (m_timers m) =
           filter (due now m) (m_timers m)"
    and "set (drop (expired_end q now (fst (detectClockRollover now m)) m) (m_timers m)) =
           {p \<in> set (m_timers m). \<not> due now m p}"
proof -
  let ?ts = "m_timers m" and ?r = "fst (detectClockRollover now m)"
  let ?e = "expired_end q now ?r m"
  have s: "sorted_wrt (timer_lt (theap m)) ?ts" using assms(1) by (simp add: timers_wf_def)
  show 1: "take ?e ?ts = filter (due now m) ?ts"
  proof (cases ?r)
    case True
    then show ?thesis by (simp add: expired_end_rollover due_def [abs_def])
  next
    case False
    then show ?thesis
      using expired_end_split [OF s assms(2)] takeWhile_due_filter [OF s]
      by (simp add: due_def [abs_def])
  qed
  have d: "distinct ?ts" using s by (rule timer_set.sorted_distinct)
  have "set ?ts = set (take ?e ?ts) \<union> set (drop ?e ?ts)"
    by (metis append_take_drop_id set_append)
  moreover have "set (take ?e ?ts) \<inter> set (drop ?e ?ts) = {}"
    using d by (rule set_take_disj_set_drop_if_distinct) simp
  ultimately show "set (drop ?e ?ts) = {p \<in> set ?ts. \<not> due now m p}"
    unfolding 1 by auto
qed

lemma expire_none_due:
  assumes "\<And>p. p \<in> set (m_timers m) \<Longrightarrow> \<not> fires p"
  shows "expire now fires (armed m) = armed m"
  using assms by (auto simp: expire_def armed_def fun_eq_iff split: option.splits)

lemma none_due_before_front:
  assumes "timers_wf m" and "m_timers m \<noteq> []" and "now < next_of (theap m) (hd (m_timers m))"
    and "p \<in> set (m_timers m)"
  shows "now < next_of (theap m) p"
proof (cases "m_timers m")
  case (Cons x xs)
  with assms show ?thesis
    using sorted_next_mono [of "theap m" x xs p] by (auto simp: timers_wf_def)
qed (use assms in simp)

lemma wf_upto_prefix:
  assumes "timers_wf m" and "m_timers m = xs @ ys"
  shows "timers_wf_upto (set xs) (m\<lparr>m_timers := ys\<rparr>)"
  using assms unfolding timers_wf_def timers_wf_upto_def
  by (simp add: sorted_wrt_append del: not_None_eq) blast

lemma armed_after_fire:
  assumes "set (m_timers m') = {p \<in> set ts. \<not> d p} \<union> {p \<in> set ts. d p \<and> m_recurring (the (h p))}"
    and "theap m' = (\<lambda>p. if p \<in> set ts \<and> d p then map_option (fired_object now) (h p) else h p)"
    and "set ts \<subseteq> dom h"
  shows "armed m' = expire now d (\<lambda>p. if p \<in> set ts then h p else None)"
proof
  fix p
  show "armed m' p = expire now d (\<lambda>p. if p \<in> set ts then h p else None) p"
  proof (cases "p \<in> set ts")
    case True
    with assms(3) obtain t where "h p = Some t" by auto
    with True show ?thesis by (simp add: armed_def assms(1,2) expire_def fired_object_def)
  next
    case False
    then show ?thesis by (simp add: armed_def assms(1) expire_def)
  qed
qed

lemma listExpiredCb_locked_spec:
  assumes wf: "timers_wf m" and q: "theap m q = None"
    and live: "m_timers m \<noteq> [] \<or> fst (detectClockRollover now m)"
  shows "\<exists>cbs m'. listExpiredCb_locked q now m = Inr (cbs, m') \<and> timers_wf m' \<and>
           cbs = map (\<lambda>p. timer_cb (the (theap m p))) (filter (due now m) (m_timers m)) \<and>
           armed m' = expire now (due now m) (armed m) \<and>
           (\<forall>p. p \<notin> set (m_timers m) \<longrightarrow> theap m' p = theap m p)"
proof -
  let ?r = "fst (detectClockRollover now m)" and ?m1 = "snd (detectClockRollover now m)"
  have split: "detectClockRollover now m = (?r, ?m1)" by simp
  have wf1: "timers_wf ?m1" using wf by (simp add: timers_wf_def)
  have q': "q \<notin> set (m_timers m)" using wf q by (auto simp: timers_wf_def)
  have armed1: "armed ?m1 = armed m" by (simp add: armed_def fun_eq_iff)
  show ?thesis
  proof (cases "\<not> ?r \<and> now < next_of (theap m) (hd (m_timers m))")
    case True
    then have nd: "\<not> due now m p" if "p \<in> set (m_timers m)" for p
      using none_due_before_front [OF wf _ _ that] live by (fastforce simp: due_def)
    have "listExpiredCb_locked q now m = Inr ([], ?m1)"
      using True live by (simp add: listExpiredCb_locked_def split_beta Let_def)
    with nd wf1 armed1 show ?thesis by (simp add: expire_none_due filter_empty_conv)
  next
    case False
    let ?e = "expired_end q now ?r m"
    let ?m2 = "?m1\<lparr>m_timers := drop ?e (m_timers m)\<rparr>" and ?ps = "filter (due now m) (m_timers m)"
    have e: "expired_end q now ?r ?m1 = ?e"
      by (simp only: expired_end_def detectClockRollover_fields)
    note te = take_expired_due [OF wf q', of now]
    have eq: "listExpiredCb_locked q now m = Inr (fire_expired now ?ps ?m2)"
      using False live e te(1)
      by (auto simp: listExpiredCb_locked_def split_beta Let_def erase_to_def)
    obtain cbs m' where r: "(cbs, m') = fire_expired now ?ps ?m2"
      by (cases "fire_expired now ?ps ?m2") auto
    have "timers_wf_upto (set ?ps) ?m2"
      using wf_upto_prefix [OF wf1, of ?ps "drop ?e (m_timers m)"] te(1)
      by (metis append_take_drop_id detectClockRollover_fields(2))
    moreover have "distinct ?ps"
      using wf by (auto simp: timers_wf_def dest: timer_set.sorted_distinct)
    moreover have "set ?ps \<subseteq> dom (theap ?m2)" using wf by (auto simp: timers_wf_def)
    moreover have "set ?ps \<inter> set (m_timers ?m2) = {}" using te(2) by auto
    ultimately have sp: "timers_wf m'" "cbs = map (\<lambda>p. timer_cb (the (theap ?m2 p))) ?ps"
      "theap m' = (\<lambda>p. if p \<in> set ?ps then map_option (fired_object now) (theap ?m2 p) else theap ?m2 p)"
      "set (m_timers m') = set (m_timers ?m2) \<union> {p \<in> set ?ps. m_recurring (the (theap ?m2 p))}"
      using fire_expired_spec [OF _ _ _ _ r] by blast+
    have am: "armed m = (\<lambda>p. if p \<in> set (m_timers m) then theap m p else None)"
      by (simp add: armed_def fun_eq_iff)
    have "armed m' = expire now (due now m) (armed m)"
      unfolding am using wf sp(3,4) te(2) by (intro armed_after_fire) (auto simp: timers_wf_def)
    moreover have "listExpiredCb_locked q now m = Inr (cbs, m')" using eq r by simp
    moreover have "cbs = map (\<lambda>p. timer_cb (the (theap m p))) ?ps" using sp(2) by simp
    moreover have "\<forall>p. p \<notin> set (m_timers m) \<longrightarrow> theap m' p = theap m p" using sp(3) by simp
    ultimately show ?thesis using sp(1) by blast
  qed
qed

section \<open>Reachable managers\<close>

lemma timer_step_wf: "timer_step m m' \<Longrightarrow> timers_wf m \<Longrightarrow> timers_wf m'"
proof (induction rule: timer_step.induct)
  case (step_expire m q now cbs m')
  then have "m_timers m \<noteq> [] \<or> fst (detectClockRollover now m)"
    by (auto simp: listExpiredCb_locked_def split_beta Let_def split: if_splits)
  with step_expire show ?case using listExpiredCb_locked_spec [of m q now] by auto
qed (auto intro: addTimer_wf cancel_wf refresh_wf timer_reset_wf getNextTimer_wf)

interpretation timer_system: inductive_invariant timer_init timer_step timers_wf
proof unfold_locales
  show "timers_wf m" if "timer_init m" for m
    using that by (auto simp: timer_init_def TimerManager_new_def timers_wf_def)
qed (rule timer_step_wf)

text \<open>A timer that is out of the set and has lost its callback.\<close>

definition dead :: "nat \<Rightarrow> timer_manager \<Rightarrow> bool" where
  "dead p m \<longleftrightarrow> p \<notin> set (m_timers m) \<and> (\<exists>t. theap m p = Some t \<and> timer_cb t = None)"

lemma addTimer_fields:
  "theap (snd (addTimer p now ms cb rec m)) = (theap m)(p \<mapsto> Timer_new now ms cb rec)"
  "p \<notin> set (m_timers m) \<Longrightarrow>
     set (m_timers (snd (addTimer p now ms cb rec m))) = insert p (set (m_timers m))"
  by (simp_all add: addTimer_def insertTimer_fields timer_set.insert_set)

lemma cancel_other:
  assumes "timers_wf m" and "cancel p m = Inr (b, m')" and "q \<noteq> p"
  shows "theap m' q = theap m q" and "q \<in> set (m_timers m') \<longleftrightarrow> q \<in> set (m_timers m)"
  using assms cancel_armed [of m p]
  by (cases "theap m p"; fastforce simp: cancel_def split: if_splits)+

lemma refresh_dead:
  assumes "timers_wf m" and "refresh p now m = Inr (b, m')" and "dead q m"
  shows "dead q m'"
proof (cases "theap m p")
  case (Some t)
  with assms show ?thesis
    using refresh_armed [OF assms(1) Some, of now] refresh_no_cb [OF Some, of now]
    by (cases "timer_cb t = None") (auto simp: dead_def)
qed (use assms in \<open>simp add: refresh_def\<close>)

lemma timer_reset_dead:
  assumes wf: "timers_wf m" and r: "timer_reset p now ms from_now m = Inr (b, f, m')"
    and d: "dead q m"
  shows "dead q m'"
proof (cases "theap m p")
  case None
  with r show ?thesis by (simp add: timer_reset_def)
next
  case (Some t)
  show ?thesis
  proof (cases "timer_cb t = None \<or> ms = m_ms t \<and> \<not> from_now")
    case True
    with Some r d show ?thesis by (auto simp: timer_reset_def split: if_splits)
  next
    case False
    with d Some have "q \<noteq> p" by (auto simp: dead_def)
    then show ?thesis
      using False d r timer_reset_armed [OF wf Some _ _ refl, of ms from_now now]
      by (auto simp: dead_def)
  qed
qed

lemma expire_dead:
  assumes "timers_wf m" and "theap m q = None" and "listExpiredCb_locked q now m = Inr (cbs, m')"
    and "dead p m"
  shows "dead p m'"
proof -
  have "m_timers m \<noteq> [] \<or> fst (detectClockRollover now m)"
    using assms(3) by (auto simp: listExpiredCb_locked_def split_beta Let_def split: if_splits)
  then have sp: "timers_wf m'" "armed m' = expire now (due now m) (armed m)"
    "p \<notin> set (m_timers m) \<longrightarrow> theap m' p = theap m p"
    using listExpiredCb_locked_spec [OF assms(1,2), of now] assms(3) by auto
  have "armed m' p = None"
    using assms(4) unfolding sp(2) by (simp add: expire_def armed_def dead_def)
  then show ?thesis using assms(4) sp(1,3) by (auto simp: dead_def armed_def split: if_splits)
qed

lemma getNextTimer_dead: "dead p m \<Longrightarrow> dead p (snd (getNextTimer now m))"
  by (simp add: dead_def)

lemma timer_step_dead:
  assumes "timer_step m m'" and "timers_wf m" and "dead p m"
  shows "dead p m'"
  using assms
proof (induction rule: timer_step.induct)
  case (step_add m q now ms cb rec)
  then have "q \<notin> set (m_timers m)" by (auto simp: timers_wf_def)
  with step_add show ?case
    by (cases "p = q") (auto simp: dead_def addTimer_fields)
next
  case (step_cancel q m b m')
  show ?case
  proof (cases "p = q")
    case True
    with step_cancel show ?thesis by (auto simp: cancel_def dead_def)
  next
    case False
    with step_cancel show ?thesis using cancel_other [of m q b m' p] by (simp add: dead_def)
  qed
qed (auto intro: refresh_dead timer_reset_dead expire_dead getNextTimer_dead)

interpretation dead_timer: inductive_invariant
  "\<lambda>m. timers_wf m \<and> dead p m" timer_step "\<lambda>m. timers_wf m \<and> dead p m" for p
  by unfold_locales (auto intro: timer_step_wf timer_step_dead)

section \<open>The interface of the idle loop\<close>

text \<open>
  What a loop that waits for timers relies on: the timeout it gets never passes a deadline and is
  the largest value only when nothing is due before the end of time, and collecting the expired
  callbacks after any wait succeeds, returns those that are due and keeps the manager well formed.
\<close>

locale timer_service =
  fixes wf :: "'m \<Rightarrow> bool"
    and next_timer :: "u64 \<Rightarrow> 'm \<Rightarrow> u64 \<times> 'm"
    and expired :: "nat \<Rightarrow> u64 \<Rightarrow> 'm \<Rightarrow> (callback option list \<times> 'm) res"
    and waiting :: "'m \<Rightarrow> nat list"
    and deadline :: "'m \<Rightarrow> nat \<Rightarrow> u64"
    and unused :: "'m \<Rightarrow> nat \<Rightarrow> bool"
    and callbacks :: "u64 \<Rightarrow> 'm \<Rightarrow> callback option list"
  assumes next_wf: "wf m \<Longrightarrow> wf (snd (next_timer now m))"
    and next_keeps: "waiting (snd (next_timer now m)) = waiting m"
      "callbacks t (snd (next_timer now m)) = callbacks t m"
      "unused (snd (next_timer now m)) = unused m"
    and next_sound: "wf m \<Longrightarrow> p \<in> set (waiting m) \<Longrightarrow>
      unat (fst (next_timer now m)) \<le> unat (deadline m p) - unat now"
    and next_none: "waiting m = [] \<Longrightarrow> fst (next_timer now m) = - 1"
    and expired_total: "wf m \<Longrightarrow> unused m q \<Longrightarrow>
      \<exists>m'. expired q now m = Inr (callbacks now m, m') \<and> wf m'"
begin

lemma no_oversleep:
  "wf m \<Longrightarrow> p \<in> set (waiting m) \<Longrightarrow> t \<le> unat (fst (next_timer now m)) \<Longrightarrow>
     unat now + t \<le> max (unat now) (unat (deadline m p))"
  using next_sound [of m p now] by linarith

lemma idle_forever_iff:
  assumes "wf m" and "now \<noteq> 0"
  shows "fst (next_timer now m) = - 1 \<longleftrightarrow> waiting m = []"
proof
  assume eq: "fst (next_timer now m) = - 1"
  show "waiting m = []"
  proof (rule ccontr)
    assume "waiting m \<noteq> []"
    then obtain p where "p \<in> set (waiting m)" by (meson hd_in_set)
    from next_sound [OF assms(1) this, of now] eq
    have "(2 ^ 64 - 1 :: nat) \<le> unat (deadline m p) - unat now" by (simp add: unsigned_minus_1_eq_mask mask_eq_exp_minus_1)
    moreover have "0 < unat now" using assms(2) by (simp add: unat_gt_0)
    moreover have "unat (deadline m p) < 2 ^ 64" using unsigned_less [of "deadline m p"] by simp
    ultimately show False by simp
  qed
qed (rule next_none)

lemma collect_after_wait:
  "wf m \<Longrightarrow> unused m q \<Longrightarrow>
     \<exists>m'. expired q now2 (snd (next_timer now m)) = Inr (callbacks now2 m, m') \<and> wf m'"
  using expired_total [OF next_wf, of m now q now2] by (simp add: next_keeps)

end

definition due_callbacks :: "u64 \<Rightarrow> timer_manager \<Rightarrow> callback option list" where
  "due_callbacks now m = map (\<lambda>p. timer_cb (the (theap m p))) (filter (due now m) (m_timers m))"

lemma due_getNextTimer: "due t (snd (getNextTimer now m)) = due t m"
  by (auto simp: due_def detectClockRollover_def getNextTimer_def Let_def fun_eq_iff split: list.splits)

lemma listExpiredCb_total:
  assumes "timers_wf m" and "theap m q = None"
  shows "\<exists>m'. listExpiredCb q now m = Inr (due_callbacks now m, m') \<and> timers_wf m' \<and>
     armed m' = expire now (due now m) (armed m)"
proof (cases "m_timers m = []")
  case True
  then show ?thesis
    using assms(1) expire_none_due [of m "due now m" now]
    by (simp add: listExpiredCb_def due_callbacks_def)
next
  case False
  with listExpiredCb_locked_spec [OF assms, of now] show ?thesis
    by (auto simp: listExpiredCb_def due_callbacks_def)
qed

interpretation timer_iface: timer_service timers_wf getNextTimer listExpiredCb m_timers
  "\<lambda>m. next_of (theap m)" "\<lambda>m q. theap m q = None" due_callbacks
proof unfold_locales
  show "timers_wf (snd (getNextTimer now m))" if "timers_wf m" for m now
    using that by (rule getNextTimer_wf)
  show "m_timers (snd (getNextTimer now m)) = m_timers m" for m now by simp
  show "due_callbacks t (snd (getNextTimer now m)) = due_callbacks t m" for t m now
    by (simp add: due_callbacks_def due_getNextTimer)
  show "(\<lambda>q. theap (snd (getNextTimer now m)) q = None) = (\<lambda>q. theap m q = None)" for m now by simp
  show "unat (fst (getNextTimer now m)) \<le> unat (next_of (theap m) p) - unat now"
    if "timers_wf m" "p \<in> set (m_timers m)" for m p now
  proof (cases "m_timers m")
    case (Cons x xs)
    have "next_of (theap m) x \<le> next_of (theap m) p"
      using that sorted_next_mono [of "theap m" x xs p] by (auto simp: Cons timers_wf_def)
    then show ?thesis
      by (auto simp: Cons getNextTimer_def Let_def unat_sub word_le_nat_alt not_le)
  qed (use that in simp)
  show "fst (getNextTimer now m) = - 1" if "m_timers m = []" for m now
    using that by (simp add: getNextTimer_def)
  show "\<exists>m'. listExpiredCb q now m = Inr (due_callbacks now m, m') \<and> timers_wf m'"
    if "timers_wf m" "theap m q = None" for m q now
    using listExpiredCb_total [OF that] by blast
qed

section \<open>Properties\<close>

text \<open>
  C2. \<^verbatim>\<open>listExpiredCb\<close> implements the abstract timer service: called on a well-formed manager
  it returns, it hands out exactly the callbacks of the timers that are due (deadline at most now,
  or all of them after a clock rollover) in the order of their deadlines, and the armed timers
  afterwards are the abstract expiry of the armed timers before, wherever the allocator put the
  comparison object.
\<close>

theorem listExpiredCb_refines:
  assumes "timers_wf m" and "theap m q = None"
  shows "\<exists>cbs m'. listExpiredCb q now m = Inr (cbs, m') \<and> timers_wf m' \<and>
     cbs = map (\<lambda>p. timer_cb (the (theap m p))) (filter (due now m) (m_timers m)) \<and>
     sorted (map (next_of (theap m)) (filter (due now m) (m_timers m))) \<and>
     armed m' = expire now (due now m) (armed m)"
proof -
  have "sorted (map (next_of (theap m)) (m_timers m))"
    using assms(1) unfolding timers_wf_def sorted_map
    by (auto elim!: sorted_wrt_mono_rel [rotated] simp: timer_lt_iff)
  then have s: "sorted (map (next_of (theap m)) (filter (due now m) (m_timers m)))"
    by (rule sorted_filter)
  show ?thesis using listExpiredCb_total [OF assms, of now] s by (auto simp: due_callbacks_def)
qed

definition two_timers :: timer_manager where
  "two_timers =
     snd (addTimer 7 100 50 (Some (Fn 1)) True
       (snd (addTimer 3 100 20 (Some (Fn 2)) False (TimerManager_new 100))))"

lemma two_timers_eq:
  "two_timers =
     \<lparr>theap = [3 \<mapsto> Timer_new 100 20 (Some (Fn 2)) False, 7 \<mapsto> Timer_new 100 50 (Some (Fn 1)) True],
      m_timers = [3, 7], m_tickled = True, m_previousTime = 100\<rparr>"
  by (simp add: two_timers_def addTimer_def insertTimer_def TimerManager_new_def set_insert_def
      lower_bound_def Let_def timer_lt_iff Timer_new_def fun_upd_twist)

lemma two_timers_reach: "reach timer_init timer_step two_timers"
proof -
  let ?m1 = "snd (addTimer 3 100 20 (Some (Fn 2)) False (TimerManager_new 100))"
  have "reach timer_init timer_step (TimerManager_new 100)"
    by (rule reach.reach_init) (auto simp: timer_init_def)
  then have "reach timer_init timer_step ?m1"
    by (rule reach.reach_step) (rule timer_step.step_add, simp add: TimerManager_new_def)
  then show ?thesis
    unfolding two_timers_def
    by (rule reach.reach_step) (rule timer_step.step_add,
      simp add: TimerManager_new_def addTimer_def insertTimer_fields)
qed

theorem listExpiredCb_refines_witness:
  "timers_wf two_timers \<and> theap two_timers 5 = None \<and>
   (\<exists>m'. listExpiredCb 5 130 two_timers = Inr ([Some (Fn 2)], m') \<and> timers_wf m')"
proof -
  have wf: "timers_wf two_timers" using two_timers_reach by (rule timer_system.inv_reach)
  have q: "theap two_timers 5 = None" by (simp add: two_timers_eq)
  have "filter (due 130 two_timers) (m_timers two_timers) = [3]"
    by (simp add: two_timers_eq due_def detectClockRollover_def next_of_def Timer_new_def)
  then show ?thesis
    using listExpiredCb_refines [OF wf q, of 130] wf q
    by (auto simp: two_timers_eq Timer_new_def)
qed

text \<open>
  In every manager that any sequence of operations of any threads can reach, the set is
  ordered by the deadlines, holds live objects only, and \<^verbatim>\<open>cancel\<close> of a timer that still has
  its callback finds it there (so the unchecked \<^verbatim>\<open>erase(it)\<close> never erases \<^verbatim>\<open>end()\<close>), takes
  it out and leaves every other timer armed as it was.
\<close>

theorem cancel_safe:
  assumes "reach timer_init timer_step m" and "theap m p = Some t"
  shows "timers_wf m \<and>
     (\<exists>m'. cancel p m = Inr (timer_cb t \<noteq> None, m') \<and>
       (timer_cb t \<noteq> None \<longrightarrow> armed m' = (armed m)(p := None)) \<and>
       (timer_cb t = None \<longrightarrow> m' = m))"
proof -
  have wf: "timers_wf m" using assms(1) by (rule timer_system.inv_reach)
  show ?thesis
  proof (cases "timer_cb t = None")
    case True
    with wf assms(2) show ?thesis by (simp add: cancel_def)
  next
    case False
    with cancel_armed [OF wf assms(2)] wf show ?thesis
      by (fastforce simp: armed_def fun_eq_iff)
  qed
qed

theorem cancel_safe_witness:
  "reach timer_init timer_step two_timers \<and>
   (\<exists>m'. cancel 7 two_timers = Inr (True, m') \<and> armed m' = (armed two_timers)(7 := None))"
proof -
  have t: "theap two_timers 7 = Some (Timer_new 100 50 (Some (Fn 1)) True)"
    by (simp add: two_timers_eq)
  show ?thesis
    using cancel_safe [OF two_timers_reach t] two_timers_reach by (auto simp: Timer_new_def)
qed

text \<open>
  C30. A cancelled timer never fires: after \<^verbatim>\<open>cancel\<close> returned true, whatever operations
  follow, the timer is not in the set \<^verbatim>\<open>listExpiredCb\<close> takes its callbacks from, and
  \<^verbatim>\<open>cancel\<close> and \<^verbatim>\<open>refresh\<close> of it return false and change nothing.
\<close>

theorem cancelled_never_fires:
  assumes "reach timer_init timer_step m" and "cancel p m = Inr (True, m1)"
    and "timer_step\<^sup>*\<^sup>* m1 m2"
  shows "p \<notin> set (m_timers m2) \<and> cancel p m2 = Inr (False, m2) \<and>
    refresh p now m2 = Inr (False, m2)"
proof -
  have wf: "timers_wf m" using assms(1) by (rule timer_system.inv_reach)
  obtain t where t: "theap m p = Some t" "timer_cb t \<noteq> None"
    using assms(2) by (cases "theap m p") (auto simp: cancel_def split: if_splits)
  have "timers_wf m1 \<and> dead p m1"
    using cancel_armed [OF wf t] assms(2) by (auto simp: dead_def)
  then have "dead p m2" using dead_timer.inv_steps [OF assms(3), of p] by simp
  then show ?thesis by (auto simp: dead_def cancel_def refresh_def)
qed

theorem cancelled_never_fires_witness:
  "\<exists>m1. cancel 7 two_timers = Inr (True, m1) \<and> 7 \<notin> set (m_timers m1) \<and>
     cancel 7 m1 = Inr (False, m1)"
proof -
  have "timers_wf two_timers" using two_timers_reach by (rule timer_system.inv_reach)
  then obtain m1 where m1: "cancel 7 two_timers = Inr (True, m1)"
    using cancel_armed [of two_timers 7 "Timer_new 100 50 (Some (Fn 1)) True"]
    by (auto simp: two_timers_eq Timer_new_def)
  then show ?thesis
    using cancelled_never_fires [OF two_timers_reach m1 rtranclp.rtrancl_refl] by blast
qed

text \<open>
  \<^verbatim>\<open>getNextTimer\<close> on a well-formed manager returns the largest 64-bit value when nothing is
  armed, 0 when the earliest armed deadline has passed, and otherwise exactly the time from now to
  the earliest armed deadline; it arms and disarms nothing and clears \<^verbatim>\<open>m_tickled\<close>.
\<close>

theorem getNextTimer_earliest:
  assumes "timers_wf m"
  shows "getNextTimer now m =
    (if m_timers m = [] then - 1
     else let d = Min (next_of (theap m) ` set (m_timers m)) in if d \<le> now then 0 else d - now,
     m\<lparr>m_tickled := False\<rparr>)"
proof (cases "m_timers m")
  case Nil
  then show ?thesis by (simp add: getNextTimer_def)
next
  case (Cons p ps)
  have "Min (next_of (theap m) ` set (m_timers m)) = next_of (theap m) p"
    using assms sorted_next_mono [of "theap m" p ps]
    by (intro Min_eqI) (auto simp: Cons timers_wf_def)
  with Cons show ?thesis by (simp add: getNextTimer_def Let_def)
qed

theorem getNextTimer_earliest_witness:
  "timers_wf two_timers \<and> fst (getNextTimer 105 two_timers) = 15"
proof -
  have wf: "timers_wf two_timers" using two_timers_reach by (rule timer_system.inv_reach)
  then show ?thesis
    using getNextTimer_earliest [OF wf, of 105]
    by (simp add: two_timers_eq next_of_def Timer_new_def min_def)
qed

text \<open>
  Deadlines are absolute 64-bit times. A timer added at \<open>now0\<close> with period \<open>ms\<close> is due, on a
  clock that has not rolled over, exactly from time \<open>now0 + ms\<close> on, when that sum is below
  \<open>2 ^ 64\<close>; when it is not, the sum wraps and the timer is already due at \<open>now0\<close>.
\<close>

theorem addTimer_deadline:
  assumes "m' = snd (addTimer p now0 ms cb rec m)" and "\<not> fst (detectClockRollover now m')"
  shows "(unat now0 + unat ms < 2 ^ 64 \<longrightarrow>
            (due now m' p \<longleftrightarrow> unat now0 + unat ms \<le> unat now)) \<and>
         (2 ^ 64 \<le> unat now0 + unat ms \<and> now0 \<le> now \<longrightarrow> due now m' p)"
proof -
  have d: "due now m' p \<longleftrightarrow> now0 + ms \<le> now"
    using assms by (simp add: due_def addTimer_fields(1) Timer_new_def)
  have "due now m' p" if "2 ^ 64 \<le> unat now0 + unat ms" "now0 \<le> now"
  proof -
    have "unat (now0 + ms) = unat now0 + unat ms - 2 ^ 64"
      using unat_add_wrap [of now0 ms] that(1) by simp
    moreover have "unat ms < 2 ^ 64" using unsigned_less [of ms] by simp
    ultimately show ?thesis using that by (simp add: d word_le_nat_alt)
  qed
  moreover have "due now m' p \<longleftrightarrow> unat now0 + unat ms \<le> unat now"
    if "unat now0 + unat ms < 2 ^ 64"
    using unat_add_no_wrap [of now0 ms] that by (simp add: d word_le_nat_alt)
  ultimately show ?thesis by blast
qed

theorem addTimer_deadline_witness:
  "\<not> fst (detectClockRollover 149 two_timers) \<and> \<not> due 149 two_timers 7 \<and> due 150 two_timers 7"
proof -
  have r: "\<not> fst (detectClockRollover n two_timers)" if "n = 149 \<or> n = 150" for n
    using that by (auto simp: two_timers_eq detectClockRollover_def)
  note c = addTimer_deadline [of two_timers 7 100 50 "Some (Fn 1)" True
    "snd (addTimer 3 100 20 (Some (Fn 2)) False (TimerManager_new 100))"]
  show ?thesis
    using c [of 149] c [of 150] r by (simp add: two_timers_def)
qed

text \<open>
  No earlier deadline goes unnoticed: when a new timer becomes the first of the set, the
  sleeping thread has been or is now notified (\<^verbatim>\<open>m_tickled\<close> holds afterwards), and
  \<^verbatim>\<open>onTimerInsertedAtFront\<close> is called exactly when the timer comes before every armed one and
  no notification is outstanding.
\<close>

theorem addTimer_notifies:
  assumes "timers_wf m" and "theap m p = None"
    and "(notify, m') = addTimer p now ms cb rec m"
  shows "(notify \<longleftrightarrow> \<not> m_tickled m \<and> (\<forall>q\<in>set (m_timers m). timer_lt (theap m') p q)) \<and>
         (hd (m_timers m') = p \<longrightarrow> m_tickled m')"
proof -
  let ?h = "(theap m)(p \<mapsto> Timer_new now ms cb rec)"
  have p: "p \<notin> set (m_timers m)" using assms(1,2) by (auto simp: timers_wf_def)
  have s: "sorted_wrt (timer_lt ?h) (m_timers m)" using assms(1) p by (simp add: timers_wf_def)
  have n: "notify = fst (addTimer p now ms cb rec m)" and m': "m' = snd (addTimer p now ms cb rec m)"
    using assms(3) by (simp_all add: prod_eq_iff)
  have f: "notify \<longleftrightarrow> fst (set_insert (timer_lt ?h) p (m_timers m)) = 0 \<and> \<not> m_tickled m"
    by (simp add: n addTimer_def insertTimer_fields)
  have "fst (set_insert (timer_lt ?h) p (m_timers m)) = 0" if "hd (m_timers m') = p"
  proof -
    let ?tw = "takeWhile (\<lambda>x. timer_lt ?h x p) (m_timers m)"
    have "?tw = []"
      using that p set_takeWhileD [of "hd ?tw" "\<lambda>x. timer_lt ?h x p" "m_timers m"]
      by (cases ?tw) (auto simp: m' addTimer_def insertTimer_fields timer_set.insert_not_mem)
    then show ?thesis by (simp add: timer_set.insert_not_mem [OF p] lower_bound_def)
  qed
  then show ?thesis
    using timer_set.insert_front_iff [OF s p] f
    by (auto simp: m' addTimer_def insertTimer_fields)
qed

theorem addTimer_notifies_witness:
  "timers_wf two_timers \<and> theap two_timers 9 = None \<and>
   \<not> fst (addTimer 9 100 10 None False two_timers) \<and>
   fst (addTimer 9 100 10 None False (two_timers\<lparr>m_tickled := False\<rparr>))"
proof -
  have wf: "timers_wf two_timers" using two_timers_reach by (rule timer_system.inv_reach)
  have wf': "timers_wf (two_timers\<lparr>m_tickled := False\<rparr>)" using wf by (simp add: timers_wf_def)
  have h: "theap two_timers 9 = None" by (simp add: two_timers_eq)
  show ?thesis
    using addTimer_notifies [OF wf h prod.collapse, of 100 10 None False]
      addTimer_notifies [OF wf' _ prod.collapse, of 9 100 10 None False] wf h
    by (simp add: two_timers_eq timer_lt_iff next_of_def Timer_new_def addTimer_fields)
qed

text \<open>
  \<^verbatim>\<open>listExpiredCb\<close> drops the lock between its test for an empty set and the section that
  reads \<^verbatim>\<open>*m_timers.begin()\<close>: from a reachable manager with one timer, another thread's
  \<^verbatim>\<open>cancel\<close> in between makes that read undefined.
\<close>

theorem listExpiredCb_race:
  "\<exists>m m' q now. reach timer_init timer_step m \<and> m_timers m \<noteq> [] \<and> theap m q = None \<and>
     cancel 3 m = Inr (True, m') \<and>
     listExpiredCb_locked q now m' = Inl (UB ''*begin() of an empty set'')"
proof -
  let ?m = "snd (addTimer 3 100 20 (Some (Fn 2)) False (TimerManager_new 100))"
  have r: "reach timer_init timer_step ?m"
    by (rule reach.reach_step [OF reach.reach_init [of timer_init "TimerManager_new 100"]])
      (auto intro!: timer_step.step_add simp: timer_init_def TimerManager_new_def)
  have t: "theap ?m 3 = Some (Timer_new 100 20 (Some (Fn 2)) False)" "m_timers ?m = [3]"
    by (simp_all add: addTimer_def insertTimer_fields TimerManager_new_def set_insert_def
        lower_bound_def)
  obtain m' where "cancel 3 ?m = Inr (True, m')" "set (m_timers m') = {}"
    using cancel_armed [OF timer_system.inv_reach [OF r] t(1)] t(2) by (auto simp: Timer_new_def)
  moreover from this have "listExpiredCb_locked 4 (m_previousTime m') m' =
      Inl (UB ''*begin() of an empty set'')"
    by (simp add: listExpiredCb_locked_def detectClockRollover_def Let_def)
  moreover have "theap ?m 4 = None"
    by (simp add: addTimer_def insertTimer_fields TimerManager_new_def)
  ultimately show ?thesis using r t(2) by (metis list.distinct(1))
qed

end
