(* ===== verification/Duan_IOManager.thy ===== *)
theory Duan_IOManager
  imports Duan_Timer Duan_Scheduler
begin

unbundle bit_operations_syntax

text \<open>
  \<^verbatim>\<open>iomanager.h\<close>, \<^verbatim>\<open>iomanager.cc\<close>: the I/O manager, a scheduler and a timer manager over \<^verbatim>\<open>epoll\<close>.
  File descriptor contexts are objects in a heap; \<^verbatim>\<open>m_fdContexts\<close> is the vector of their addresses.
  Schedulers live in a store, since an event belongs to the scheduler of the thread that added it;
  \<open>io_self\<close> is the manager's own. The kernel is not part of the program: what \<^verbatim>\<open>epoll_ctl\<close> and the
  \<^verbatim>\<open>write\<close> to the wake-up pipe return are given by an \<open>os\<close>, over the interest list they change. An
  operation that holds one lock at a time is one step, except for the lookup of \<^verbatim>\<open>addEvent\<close>, whose
  two locked parts are separate functions.
\<close>

section \<open>Constants\<close>

text \<open>\<^verbatim>\<open>IOManager::Event\<close>, a set of bits, and the flags of \<^verbatim>\<open>sys/epoll.h\<close>.\<close>

definition NONE :: u32 where "NONE = 0"
definition READ :: u32 where "READ = 1"
definition WRITE :: u32 where "WRITE = 4"

definition EPOLLIN :: u32 where "EPOLLIN = 1"
definition EPOLLOUT :: u32 where "EPOLLOUT = 4"
definition EPOLLERR :: u32 where "EPOLLERR = 8"
definition EPOLLHUP :: u32 where "EPOLLHUP = 16"
definition EPOLLET :: u32 where "EPOLLET = 2147483648"

definition MAX_TIMEOUT :: int where "MAX_TIMEOUT = 3000"

section \<open>Data\<close>

record EventContext =
  ec_scheduler :: "nat option"
  ec_fiber :: "nat option"
  ec_cb :: "callback option"

record FdContext =
  fc_read :: EventContext
  fc_write :: EventContext
  fc_fd :: int
  m_events :: u32

definition empty_ctx :: EventContext where
  "empty_ctx = \<lparr>ec_scheduler = None, ec_fiber = None, ec_cb = None\<rparr>"

definition FdContext_new :: "int \<Rightarrow> FdContext" where
  "FdContext_new i = \<lparr>fc_read = empty_ctx, fc_write = empty_ctx, fc_fd = i, m_events = NONE\<rparr>"

datatype ctl_op = EPOLL_CTL_ADD | EPOLL_CTL_MOD | EPOLL_CTL_DEL

text \<open>\<^verbatim>\<open>epoll_data_t\<close>: the wake-up pipe uses the descriptor, every other entry a pointer.\<close>

datatype epoll_data = DataFd int | DataPtr nat

type_synonym interest = "int \<Rightarrow> (u32 \<times> epoll_data) option"

record os =
  epoll_ctl :: "interest \<Rightarrow> ctl_op \<Rightarrow> int \<Rightarrow> u32 \<times> epoll_data \<Rightarrow> int \<times> interest"
  write_T :: int

record io =
  io_self :: nat
  scheds :: "nat \<Rightarrow> scheduler option"
  timers :: timer_manager
  m_tickleFds :: "int \<times> int"
  m_pendingEventCount :: u64
  fdheap :: "nat \<Rightarrow> FdContext option"
  m_fdContexts :: "nat list"
  kernel :: interest
  pipe_bytes :: nat

section \<open>Event contexts\<close>

definition getContext :: "u32 \<Rightarrow> FdContext \<Rightarrow> EventContext res" where
  "getContext event f =
     (if event = READ then Inr (fc_read f)
      else if event = WRITE then Inr (fc_write f)
      else Inl (Assert ''getContext''))"

text \<open>Assignment through the reference \<^verbatim>\<open>getContext\<close> returned.\<close>

definition putContext :: "u32 \<Rightarrow> EventContext \<Rightarrow> FdContext \<Rightarrow> FdContext" where
  "putContext event c f = (if event = READ then f\<lparr>fc_read := c\<rparr> else f\<lparr>fc_write := c\<rparr>)"

definition resetContext :: "EventContext \<Rightarrow> EventContext" where
  "resetContext c = c\<lparr>ec_scheduler := None, ec_fiber := None, ec_cb := None\<rparr>"

definition put_fd :: "nat \<Rightarrow> FdContext \<Rightarrow> io \<Rightarrow> io" where
  "put_fd p f s = s\<lparr>fdheap := (fdheap s)(p \<mapsto> f)\<rparr>"

section \<open>Waking up\<close>

definition io_tickle :: "os \<Rightarrow> io \<Rightarrow> io res" where
  "io_tickle os s =
     deref ''this'' (scheds s (io_self s)) (\<lambda>sc.
       if hasIdleThreads sc then Inr s
       else DUAN_ASSERT ''rt == 1'' (write_T os = 1) (Inr (s\<lparr>pipe_bytes := Suc (pipe_bytes s)\<rparr>)))"

definition onTimerInsertedAtFront :: "os \<Rightarrow> io \<Rightarrow> io res" where
  "onTimerInsertedAtFront os s = io_tickle os s"

text \<open>
  \<^verbatim>\<open>sc->scheduler(...)\<close> on the scheduler at \<open>k\<close>; its virtual \<^verbatim>\<open>tickle()\<close> is this manager's when it is
  this manager, and one that only logs otherwise.
\<close>

definition io_schedule :: "os \<Rightarrow> nat option \<Rightarrow> FiberAndThread \<Rightarrow> io \<Rightarrow> io res" where
  "io_schedule os k ft s =
     deref ''ctx.scheduler'' k (\<lambda>k1.
       deref ''ctx.scheduler'' (scheds s k1) (\<lambda>sc.
         let (need_tickle, sc') = schedule ft sc;
             s1 = s\<lparr>scheds := (scheds s)(k1 \<mapsto> sc')\<rparr>
         in if need_tickle \<and> k1 = io_self s then io_tickle os s1 else Inr s1))"

definition triggerEvent :: "os \<Rightarrow> u32 \<Rightarrow> nat \<Rightarrow> io \<Rightarrow> io res" where
  "triggerEvent os event p s =
     deref ''fd_ctx'' (fdheap s p) (\<lambda>f.
       DUAN_ASSERT ''m_events & event'' (m_events f AND event \<noteq> 0)
         (let f1 = f\<lparr>m_events := m_events f AND NOT event\<rparr> in
          bind_res (getContext event f1) (\<lambda>ctx.
            let (ft, ctx1) =
              (if ec_cb ctx \<noteq> None then (ft_of_cb (ec_cb ctx) (- 1), ctx\<lparr>ec_cb := None\<rparr>)
               else (ft_of_fiber (ec_fiber ctx) (- 1), ctx\<lparr>ec_fiber := None\<rparr>))
            in bind_res (io_schedule os (ec_scheduler ctx) ft (put_fd p (putContext event ctx1 f1) s))
                 (\<lambda>s1. Inr (put_fd p (putContext event (ctx1\<lparr>ec_scheduler := None\<rparr>) f1) s1)))))"

section \<open>The table of descriptors\<close>

text \<open>
  \<^verbatim>\<open>contextResize\<close>: \<^verbatim>\<open>resize\<close> cuts the vector or appends null pointers, and the loop replaces every
  null pointer by a new object; \<open>new_at i\<close> is the address of the one for index \<open>i\<close>. The objects
  that a smaller size drops stay in the heap: nothing deletes them.
\<close>

definition contextResize :: "(nat \<Rightarrow> nat) \<Rightarrow> nat \<Rightarrow> io \<Rightarrow> io" where
  "contextResize new_at n s =
     (let old = length (m_fdContexts s);
          idx = [old..<n]
      in s\<lparr>m_fdContexts := take n (m_fdContexts s) @ map new_at idx,
           fdheap := fold (\<lambda>i h. h(new_at i \<mapsto> FdContext_new (int i))) idx (fdheap s)\<rparr>)"

text \<open>\<^verbatim>\<open>(int)m_fdContexts.size()\<close> and \<^verbatim>\<open>m_fdContexts[fd]\<close>.\<close>

definition size_int :: "io \<Rightarrow> int" where
  "size_int s = int_cast (of_nat (length (m_fdContexts s)))"

definition at_fd :: "int \<Rightarrow> io \<Rightarrow> nat res" where
  "at_fd fd s =
     (if 0 \<le> fd \<and> nat fd < length (m_fdContexts s) then Inr (m_fdContexts s ! nat fd)
      else Inl (UB ''vector index''))"

text \<open>The write-locked part of \<^verbatim>\<open>addEvent\<close>: \<^verbatim>\<open>contextResize(fd * 1.5)\<close> and the lookup.\<close>

definition addEvent_grow :: "(nat \<Rightarrow> nat) \<Rightarrow> int \<Rightarrow> io \<Rightarrow> (nat \<times> io) res" where
  "addEvent_grow new_at fd s =
     (let s1 = contextResize new_at (nat (fd * 3 div 2)) s
      in bind_res (at_fd fd s1) (\<lambda>p. Inr (p, s1)))"

definition addEvent_lookup :: "(nat \<Rightarrow> nat) \<Rightarrow> int \<Rightarrow> io \<Rightarrow> (nat \<times> io) res" where
  "addEvent_lookup new_at fd s =
     (if fd < size_int s then bind_res (at_fd fd s) (\<lambda>p. Inr (p, s))
      else addEvent_grow new_at fd s)"

text \<open>
  The rest of \<^verbatim>\<open>addEvent\<close>, under the lock of the context. \<open>this\<close> is \<^verbatim>\<open>Scheduler::GetThis()\<close>, \<open>gt\<close> the
  calling thread's fiber state, and \<open>pm\<close> the address of a main fiber \<^verbatim>\<open>Fiber::GetThis\<close> may create.
\<close>

definition addEvent_locked ::
  "os \<Rightarrow> nat option \<Rightarrow> nat \<Rightarrow> int \<Rightarrow> u32 \<Rightarrow> callback option \<Rightarrow> nat \<Rightarrow> io \<times> fstate \<Rightarrow>
     (int \<times> io \<times> fstate) res" where
  "addEvent_locked os this pm fd event cb p sg =
     (let (s, gt) = sg in
      deref ''fd_ctx'' (fdheap s p) (\<lambda>f.
        DUAN_ASSERT ''!(fd_ctx->m_events & event)'' (m_events f AND event = 0)
          (let op = (if m_events f \<noteq> 0 then EPOLL_CTL_MOD else EPOLL_CTL_ADD);
               (rt, k) = epoll_ctl os (kernel s) op fd (EPOLLET OR m_events f OR event, DataPtr p);
               s1 = s\<lparr>kernel := k\<rparr>
           in if rt \<noteq> 0 then Inr (- 1, s1, gt)
              else
                let s2 = s1\<lparr>m_pendingEventCount := m_pendingEventCount s1 + 1\<rparr>;
                    f1 = f\<lparr>m_events := m_events f OR event\<rparr>
                in bind_res (getContext event f1) (\<lambda>c.
                     DUAN_ASSERT ''!scheduler && !fiber && !cb'' (c = empty_ctx)
                       (let c1 = c\<lparr>ec_scheduler := this\<rparr> in
                        case cb of
                          Some _ \<Rightarrow> Inr (0, put_fd p (putContext event (c1\<lparr>ec_cb := cb\<rparr>) f1) s2, gt)
                        | None \<Rightarrow>
                            bind_res (GetThis pm gt) (\<lambda>(cur, g, t).
                              DUAN_ASSERT ''getState() == EXEC'' (state_of g cur = EXEC)
                                (Inr (0, put_fd p (putContext event (c1\<lparr>ec_fiber := Some cur\<rparr>) f1) s2,
                                      g, t))))))))"

definition addEvent ::
  "os \<Rightarrow> (nat \<Rightarrow> nat) \<Rightarrow> nat option \<Rightarrow> nat \<Rightarrow> int \<Rightarrow> u32 \<Rightarrow> callback option \<Rightarrow> io \<times> fstate \<Rightarrow>
     (int \<times> io \<times> fstate) res" where
  "addEvent os new_at this pm fd event cb sg =
     bind_res (addEvent_lookup new_at fd (fst sg)) (\<lambda>(p, s1).
       addEvent_locked os this pm fd event cb p (s1, snd sg))"

section \<open>Removing events\<close>

text \<open>The common head of \<^verbatim>\<open>delEvent\<close> and \<^verbatim>\<open>cancelEvent\<close>: up to a successful \<^verbatim>\<open>epoll_ctl\<close>.\<close>

definition dropEvent ::
  "os \<Rightarrow> int \<Rightarrow> u32 \<Rightarrow> (nat \<Rightarrow> FdContext \<Rightarrow> u32 \<Rightarrow> io \<Rightarrow> (bool \<times> io) res) \<Rightarrow> io \<Rightarrow> (bool \<times> io) res" where
  "dropEvent os fd event act s =
     (if size_int s \<le> fd then Inr (False, s)
      else bind_res (at_fd fd s) (\<lambda>p.
        deref ''fd_ctx'' (fdheap s p) (\<lambda>f.
          if m_events f AND event = 0 then Inr (False, s)
          else
            let new_events = m_events f AND NOT event;
                op = (if new_events \<noteq> 0 then EPOLL_CTL_MOD else EPOLL_CTL_DEL);
                (rt, k) = epoll_ctl os (kernel s) op fd (EPOLLET OR new_events, DataPtr p);
                s1 = s\<lparr>kernel := k\<rparr>
            in if rt \<noteq> 0 then Inr (False, s1) else act p f new_events s1)))"

definition delEvent :: "os \<Rightarrow> int \<Rightarrow> u32 \<Rightarrow> io \<Rightarrow> (bool \<times> io) res" where
  "delEvent os fd event =
     dropEvent os fd event (\<lambda>p f new_events s.
       let s1 = s\<lparr>m_pendingEventCount := m_pendingEventCount s - 1\<rparr>;
           f1 = f\<lparr>m_events := new_events\<rparr>
       in bind_res (getContext event f1) (\<lambda>c.
            Inr (True, put_fd p (putContext event (resetContext c) f1) s1)))"

text \<open>\<^verbatim>\<open>triggerEvent(e); --m_pendingEventCount\<close>.\<close>

definition trigger_dec :: "os \<Rightarrow> u32 \<Rightarrow> nat \<Rightarrow> io \<Rightarrow> io res" where
  "trigger_dec os event p s =
     bind_res (triggerEvent os event p s)
       (\<lambda>s1. Inr (s1\<lparr>m_pendingEventCount := m_pendingEventCount s1 - 1\<rparr>))"

definition cancelEvent :: "os \<Rightarrow> int \<Rightarrow> u32 \<Rightarrow> io \<Rightarrow> (bool \<times> io) res" where
  "cancelEvent os fd event =
     dropEvent os fd event (\<lambda>p f new_events s.
       bind_res (trigger_dec os event p s) (\<lambda>s1. Inr (True, s1)))"

text \<open>The test of a bit of the object's current \<^verbatim>\<open>m_events\<close>, and the trigger.\<close>

definition trigger_if_set :: "os \<Rightarrow> u32 \<Rightarrow> nat \<Rightarrow> io \<Rightarrow> io res" where
  "trigger_if_set os event p s =
     deref ''fd_ctx'' (fdheap s p) (\<lambda>f.
       if m_events f AND event \<noteq> 0 then trigger_dec os event p s else Inr s)"

definition cancelAll :: "os \<Rightarrow> int \<Rightarrow> io \<Rightarrow> (bool \<times> io) res" where
  "cancelAll os fd s =
     (if size_int s \<le> fd then Inr (False, s)
      else bind_res (at_fd fd s) (\<lambda>p.
        deref ''fd_ctx'' (fdheap s p) (\<lambda>f.
          if m_events f = 0 then Inr (False, s)
          else
            let (rt, k) = epoll_ctl os (kernel s) EPOLL_CTL_DEL fd (0, DataPtr p);
                s1 = s\<lparr>kernel := k\<rparr>
            in if rt \<noteq> 0 then Inr (False, s1)
               else bind_res (trigger_if_set os READ p s1) (\<lambda>s2.
                 bind_res (trigger_if_set os WRITE p s2) (\<lambda>s3.
                   deref ''fd_ctx'' (fdheap s3 p) (\<lambda>f3.
                     DUAN_ASSERT ''m_events == 0'' (m_events f3 = 0) (Inr (True, s3))))))))"

section \<open>Stopping\<close>

text \<open>\<^verbatim>\<open>stopping(timeout)\<close>: the result and the timeout; \<open>now\<close> is the clock \<^verbatim>\<open>getNextTimer\<close> reads.\<close>

definition stopping_timeout :: "u64 \<Rightarrow> io \<Rightarrow> (bool \<times> u64 \<times> io) res" where
  "stopping_timeout now s =
     (let (timeout, tm) = getNextTimer now (timers s); s1 = s\<lparr>timers := tm\<rparr>
      in deref ''this'' (scheds s1 (io_self s1)) (\<lambda>sc.
           Inr (timeout = - 1 \<and> m_pendingEventCount s1 = 0 \<and> stopping sc, timeout, s1)))"

definition io_stopping :: "u64 \<Rightarrow> io \<Rightarrow> (bool \<times> io) res" where
  "io_stopping now s = bind_res (stopping_timeout now s) (\<lambda>(b, _, s1). Inr (b, s1))"

section \<open>The idle loop\<close>

text \<open>The value of \<^verbatim>\<open>next_timeout\<close> after the adjustment, and the argument of \<^verbatim>\<open>epoll_wait\<close>.\<close>

definition adjust_timeout :: "u64 \<Rightarrow> u64" where
  "adjust_timeout next =
     (if next \<noteq> - 1 then (if MAX_TIMEOUT < int_cast next then of_int MAX_TIMEOUT else next)
      else of_int MAX_TIMEOUT)"

definition wait_timeout :: "u64 \<Rightarrow> int" where
  "wait_timeout next = int_cast (adjust_timeout next)"

text \<open>
  The retry loop around \<^verbatim>\<open>epoll_wait\<close>: \<open>waits\<close> is what its calls return, an interruption (\<^term>\<open>None\<close>) or
  a list of events (a failure of another kind is the empty list). The result is the timeout the
  last call was given and its events; a loop that is interrupted for ever gives \<^term>\<open>None\<close>.
\<close>

type_synonym epoll_event = "u32 \<times> epoll_data"

fun wait_events :: "u64 \<Rightarrow> epoll_event list option list \<Rightarrow> (int \<times> epoll_event list) option" where
  "wait_events next [] = None"
| "wait_events next (None # rest) = wait_events (adjust_timeout next) rest"
| "wait_events next (Some evs # rest) = Some (wait_timeout next, evs)"

text \<open>One turn of the loop over the events.\<close>

definition real_events :: "u32 \<Rightarrow> u32" where
  "real_events evs =
     (let evs1 = (if evs AND (EPOLLERR OR EPOLLHUP) \<noteq> 0 then evs OR EPOLLIN OR EPOLLOUT else evs)
      in (if evs1 AND EPOLLIN \<noteq> 0 then READ else NONE) OR (if evs1 AND EPOLLOUT \<noteq> 0 then WRITE else NONE))"

definition handle_ptr :: "os \<Rightarrow> u32 \<Rightarrow> nat \<Rightarrow> io \<Rightarrow> io res" where
  "handle_ptr os evs p s =
     deref ''fd_ctx'' (fdheap s p) (\<lambda>f.
       let re = real_events evs in
       if m_events f AND re = NONE then Inr s
       else
         let left_events = m_events f AND NOT re;
             op = (if left_events \<noteq> 0 then EPOLL_CTL_MOD else EPOLL_CTL_DEL);
             (rt2, k) = epoll_ctl os (kernel s) op (fc_fd f) (EPOLLET OR left_events, DataPtr p);
             s1 = s\<lparr>kernel := k\<rparr>
         in if rt2 \<noteq> 0 then Inr s1
            else bind_res (if re AND READ \<noteq> 0 then trigger_dec os READ p s1 else Inr s1) (\<lambda>s2.
                   if re AND WRITE \<noteq> 0 then trigger_dec os WRITE p s2 else Inr s2))"

definition handle_event :: "os \<Rightarrow> epoll_event \<Rightarrow> io \<Rightarrow> io res" where
  "handle_event os ev s =
     (case snd ev of
        DataFd fd \<Rightarrow>
          if fd = fst (m_tickleFds s) then Inr (s\<lparr>pipe_bytes := 0\<rparr>)
          else Inl (UB ''data.ptr of a descriptor'')
      | DataPtr p \<Rightarrow> handle_ptr os (fst ev) p s)"

fun handle_events :: "os \<Rightarrow> epoll_event list \<Rightarrow> io \<Rightarrow> io res" where
  "handle_events os [] s = Inr s"
| "handle_events os (ev # evs) s = bind_res (handle_event os ev s) (handle_events os evs)"

text \<open>\<^verbatim>\<open>scheduler(cbs.begin(), cbs.end())\<close> on this manager.\<close>

definition io_schedule_range :: "os \<Rightarrow> callback option list \<Rightarrow> io \<Rightarrow> io res" where
  "io_schedule_range os cbs s =
     deref ''this'' (scheds s (io_self s)) (\<lambda>sc.
       let (need_tickle, _, sc') = schedule_range cbs sc;
           s1 = s\<lparr>scheds := (scheds s)(io_self s \<mapsto> sc')\<rparr>
       in if need_tickle then io_tickle os s1 else Inr s1)"

text \<open>
  One turn of \<^verbatim>\<open>idle\<close> up to the \<^verbatim>\<open>swapOut\<close> at its end: it leaves the loop, waits for ever, or comes to
  the switch, having waited with a given timeout. \<open>now\<close> and \<open>now2\<close> are the two clock readings and
  \<open>q\<close> the address of the \<^verbatim>\<open>now_timer\<close> of \<^verbatim>\<open>listExpiredCb\<close>.
\<close>

datatype idle_result = IdleExit | IdleStuck | IdleSwapOut int

definition idle_turn ::
  "os \<Rightarrow> u64 \<Rightarrow> epoll_event list option list \<Rightarrow> nat \<Rightarrow> u64 \<Rightarrow> io \<Rightarrow> (idle_result \<times> io) res" where
  "idle_turn os now waits q now2 s =
     bind_res (stopping_timeout now s) (\<lambda>(b, next, s1).
       if b then Inr (IdleExit, s1)
       else case wait_events next waits of
         None \<Rightarrow> Inr (IdleStuck, s1)
       | Some (t, evs) \<Rightarrow>
           bind_res (listExpiredCb q now2 (timers s1)) (\<lambda>(cbs, tm).
             let s2 = s1\<lparr>timers := tm\<rparr>
             in bind_res (if cbs \<noteq> [] then io_schedule_range os cbs s2 else Inr s2) (\<lambda>s3.
                  bind_res (handle_events os evs s3) (\<lambda>s4. Inr (IdleSwapOut t, s4)))))"

section \<open>Construction and destruction\<close>

text \<open>
  The constructor after \<^verbatim>\<open>Scheduler\<close>'s own: \<open>epfd\<close>, \<open>prt\<close> and \<open>frt\<close> are what \<^verbatim>\<open>epoll_create\<close>, \<^verbatim>\<open>pipe\<close> and \<^verbatim>\<open>fcntl\<close>
  return, \<open>fds\<close> the descriptors of the pipe; \<open>tids\<close> names the threads that \<^verbatim>\<open>start\<close> creates.
\<close>

definition IOManager_new ::
  "os \<Rightarrow> (nat \<Rightarrow> nat) \<Rightarrow> (nat \<Rightarrow> int) \<Rightarrow> int \<Rightarrow> int \<Rightarrow> int \<times> int \<Rightarrow> int \<Rightarrow> nat \<Rightarrow> scheduler \<Rightarrow>
     (nat \<Rightarrow> scheduler option) \<Rightarrow> u64 \<Rightarrow> (nat \<Rightarrow> FdContext option) \<Rightarrow> io res" where
  "IOManager_new os new_at tids epfd prt fds frt self sc scs now h =
     DUAN_ASSERT ''m_epfd > 0'' (0 < epfd)
       (DUAN_ASSERT ''pipe'' (prt = 0)
         (DUAN_ASSERT ''fcntl'' (frt = 0)
           (let (rt, k) = epoll_ctl os Map.empty EPOLL_CTL_ADD (fst fds)
                            (EPOLLIN OR EPOLLET, DataFd (fst fds))
            in DUAN_ASSERT ''epoll_ctl'' (rt = 0)
                 (let s = \<lparr>io_self = self, scheds = scs(self \<mapsto> sc), timers = TimerManager_new now,
                           m_tickleFds = fds, m_pendingEventCount = 0, fdheap = h,
                           m_fdContexts = [], kernel = k, pipe_bytes = 0\<rparr>;
                      s1 = contextResize new_at 32 s
                  in bind_res (start tids sc) (\<lambda>sc1.
                       Inr (s1\<lparr>scheds := (scheds s1)(self \<mapsto> sc1)\<rparr>))))))"

text \<open>The end of the destructor, after \<^verbatim>\<open>stop()\<close>: every context of the table is deleted.\<close>

definition IOManager_delete :: "io \<Rightarrow> io" where
  "IOManager_delete s =
     s\<lparr>fdheap := (\<lambda>p. if p \<in> set (m_fdContexts s) then None else fdheap s p),
       m_fdContexts := [], kernel := Map.empty\<rparr>"

section \<open>Specification\<close>

text \<open>
  What \<^verbatim>\<open>epoll_ctl(2)\<close> documents: a failed call changes nothing; a successful one adds an absent
  descriptor, changes a present one or removes a present one.
\<close>

definition epoll_documented :: "os \<Rightarrow> bool" where
  "epoll_documented os \<longleftrightarrow>
     (\<forall>k op fd ev rt k'. epoll_ctl os k op fd ev = (rt, k') \<longrightarrow>
        (if rt \<noteq> 0 then k' = k
         else case op of
           EPOLL_CTL_ADD \<Rightarrow> k fd = None \<and> k' = k(fd \<mapsto> ev)
         | EPOLL_CTL_MOD \<Rightarrow> k fd \<noteq> None \<and> k' = k(fd \<mapsto> ev)
         | EPOLL_CTL_DEL \<Rightarrow> k fd \<noteq> None \<and> k' = k(fd := None)))"

definition is_event :: "u32 \<Rightarrow> bool" where
  "is_event e \<longleftrightarrow> e = READ \<or> e = WRITE"

definition bits :: "u32 \<Rightarrow> nat" where
  "bits m = (if m AND READ \<noteq> 0 then 1 else 0) + (if m AND WRITE \<noteq> 0 then 1 else 0)"

text \<open>A context holds one task and a live scheduler while its event is registered, and nothing otherwise.\<close>

definition ctx_ok :: "nat set \<Rightarrow> bool \<Rightarrow> EventContext \<Rightarrow> bool" where
  "ctx_ok S reg c \<longleftrightarrow>
     (if reg then (\<exists>k\<in>S. ec_scheduler c = Some k) \<and> ((ec_cb c = None) \<noteq> (ec_fiber c = None))
      else c = empty_ctx)"

definition fd_ok :: "nat set \<Rightarrow> FdContext \<Rightarrow> bool" where
  "fd_ok S f \<longleftrightarrow>
     m_events f \<in> {0, READ, WRITE, READ OR WRITE} \<and>
     ctx_ok S (m_events f AND READ \<noteq> 0) (fc_read f) \<and>
     ctx_ok S (m_events f AND WRITE \<noteq> 0) (fc_write f)"

definition fd_at :: "io \<Rightarrow> nat \<Rightarrow> FdContext" where
  "fd_at s i = the (fdheap s (m_fdContexts s ! i))"

text \<open>What the kernel has to know about a context.\<close>

definition interest_of :: "nat \<Rightarrow> u32 \<Rightarrow> (u32 \<times> epoll_data) option" where
  "interest_of p m = (if m = 0 then None else Some (EPOLLET OR m, DataPtr p))"

definition io_inv :: "io \<Rightarrow> bool" where
  "io_inv s \<longleftrightarrow>
     (let n = length (m_fdContexts s); tick = fst (m_tickleFds s) in
      32 \<le> n \<and> n < 2 ^ 31 \<and> io_self s \<in> dom (scheds s) \<and>
      (\<forall>i<n. fdheap s (m_fdContexts s ! i) \<noteq> None \<and> fc_fd (fd_at s i) = int i \<and>
             fd_ok (dom (scheds s)) (fd_at s i)) \<and>
      m_pendingEventCount s = of_nat (\<Sum>i<n. bits (m_events (fd_at s i))) \<and>
      (\<forall>i<n. if int i = tick then m_events (fd_at s i) = 0
             else kernel s (int i) = interest_of (m_fdContexts s ! i) (m_events (fd_at s i))) \<and>
      (\<forall>fd. fd \<noteq> tick \<longrightarrow> fd < 0 \<or> int n \<le> fd \<longrightarrow> kernel s fd = None) \<and>
      kernel s tick = Some (EPOLLIN OR EPOLLET, DataFd tick))"

section \<open>Bits\<close>

lemmas event_consts = NONE_def READ_def WRITE_def EPOLLIN_def EPOLLOUT_def EPOLLERR_def EPOLLHUP_def

lemma event_bits [simp]:
  "READ \<noteq> WRITE" "READ \<noteq> 0" "WRITE \<noteq> 0" "WRITE \<noteq> READ"
  by (simp_all add: event_consts)

lemma events_cases:
  assumes "m \<in> {0, READ, WRITE, READ OR WRITE}"
  obtains "m = 0" | "m = 1" | "m = 4" | "m = 5"
  using assms by (auto simp: event_consts)

lemma bits_clear:
  assumes "m \<in> {0, READ, WRITE, READ OR WRITE}" and "is_event e" and "m AND e \<noteq> 0"
  shows "bits m = Suc (bits (m AND NOT e))" "m AND NOT e \<in> {0, READ, WRITE, READ OR WRITE}"
    "(m AND NOT e) AND e = 0" "e' \<noteq> e \<Longrightarrow> is_event e' \<Longrightarrow> (m AND NOT e) AND e' = m AND e'"
  using assms by (auto simp: is_event_def bits_def event_consts)

lemma bits_set:
  assumes "m \<in> {0, READ, WRITE, READ OR WRITE}" and "is_event e" and "m AND e = 0"
  shows "bits (m OR e) = Suc (bits m)" "m OR e \<in> {0, READ, WRITE, READ OR WRITE}"
    "(m OR e) AND e \<noteq> 0" "e' \<noteq> e \<Longrightarrow> is_event e' \<Longrightarrow> (m OR e) AND e' = m AND e'"
    "m OR e \<noteq> 0" "(m OR e) AND NOT e = m"
  using assms by (auto simp: is_event_def bits_def event_consts)

lemma bits_0 [simp]: "bits 0 = 0" by (simp add: bits_def)

text \<open>Reading and writing the two contexts by their event.\<close>

definition ctx_of :: "u32 \<Rightarrow> FdContext \<Rightarrow> EventContext" where
  "ctx_of e f = (if e = READ then fc_read f else fc_write f)"

lemma getContext_eq: "is_event e \<Longrightarrow> getContext e f = Inr (ctx_of e f)"
  by (auto simp: is_event_def getContext_def ctx_of_def)

lemma putContext_simps [simp]:
  "m_events (putContext e c f) = m_events f" "fc_fd (putContext e c f) = fc_fd f"
  "putContext e c (putContext e c' f) = putContext e c f"
  by (simp_all add: putContext_def)

lemma ctx_of_put: "is_event e \<Longrightarrow> is_event e' \<Longrightarrow>
    ctx_of e' (putContext e c f) = (if e' = e then c else ctx_of e' f)"
  by (auto simp: is_event_def ctx_of_def putContext_def)

lemma fd_ok_iff:
  "fd_ok S f \<longleftrightarrow> m_events f \<in> {0, READ, WRITE, READ OR WRITE} \<and>
     (\<forall>e. is_event e \<longrightarrow> ctx_ok S (m_events f AND e \<noteq> 0) (ctx_of e f))"
  by (auto simp: fd_ok_def is_event_def ctx_of_def)

lemma ctx_of_events [simp]: "ctx_of e (f\<lparr>m_events := m\<rparr>) = ctx_of e f"
  by (simp add: ctx_of_def)

lemma fd_ok_change:
  assumes "fd_ok S f" and "is_event e" and "m' \<in> {0, READ, WRITE, READ OR WRITE}"
    and "\<And>e'. e' \<noteq> e \<Longrightarrow> is_event e' \<Longrightarrow> m' AND e' = m_events f AND e'"
    and "ctx_ok S (m' AND e \<noteq> 0) c"
  shows "fd_ok S (putContext e c (f\<lparr>m_events := m'\<rparr>))"
  using assms by (auto simp: fd_ok_iff ctx_of_put)

section \<open>The invariant under a change of one context\<close>

lemma io_invD:
  assumes "io_inv s" and "i < length (m_fdContexts s)"
  shows "fdheap s (m_fdContexts s ! i) = Some (fd_at s i)" "fc_fd (fd_at s i) = int i"
    "fd_ok (dom (scheds s)) (fd_at s i)"
    "int i = fst (m_tickleFds s) \<Longrightarrow> m_events (fd_at s i) = 0"
    "int i \<noteq> fst (m_tickleFds s) \<Longrightarrow>
      kernel s (int i) = interest_of (m_fdContexts s ! i) (m_events (fd_at s i))"
proof -
  have "fdheap s (m_fdContexts s ! i) \<noteq> None" using assms by (simp add: io_inv_def Let_def)
  then show "fdheap s (m_fdContexts s ! i) = Some (fd_at s i)" by (auto simp: fd_at_def)
qed (use assms in \<open>auto simp: io_inv_def Let_def\<close>)

lemma io_inv_inj:
  assumes "io_inv s" "i < length (m_fdContexts s)" "j < length (m_fdContexts s)"
    "m_fdContexts s ! i = m_fdContexts s ! j"
  shows "i = j"
proof -
  have "fd_at s i = fd_at s j" using assms(4) by (simp add: fd_at_def)
  then have "int i = int j" using io_invD(2) [OF assms(1,2)] io_invD(2) [OF assms(1,3)] by metis
  then show ?thesis by simp
qed

lemma int_cast_small: "k < 2 ^ 31 \<Longrightarrow> int_cast (of_nat k) = int k"
proof -
  assume k: "k < 2 ^ 31"
  then have "(ucast (of_nat k :: 64 word) :: 32 word) = of_nat k"
    by (simp add: unsigned_of_nat take_bit_nat_eq_self)
  moreover have "sint (of_nat k :: 32 word) = int k"
    using k by (simp add: signed_of_nat signed_take_bit_int_eq_self)
  ultimately show ?thesis by (simp add: int_cast_def)
qed

lemma size_int_eq: "io_inv s \<Longrightarrow> size_int s = int (length (m_fdContexts s))"
  by (simp add: size_int_def int_cast_small io_inv_def Let_def)

lemma at_fd_eq:
  "0 \<le> fd \<Longrightarrow> nat fd < length (m_fdContexts s) \<Longrightarrow> at_fd fd s = Inr (m_fdContexts s ! nat fd)"
  by (simp add: at_fd_def)

lemma fd_at_change:
  assumes "io_inv s" "i < length (m_fdContexts s)" "j < length (m_fdContexts s)"
    and "fdheap s' = (fdheap s)(m_fdContexts s ! i \<mapsto> f)" and "m_fdContexts s' = m_fdContexts s"
  shows "fd_at s' j = (if j = i then f else fd_at s j)"
  using assms io_inv_inj [OF assms(1,2,3)] by (auto simp: fd_at_def)

lemma io_inv_change:
  assumes inv: "io_inv s" and i: "i < length (m_fdContexts s)" and nt: "int i \<noteq> fst (m_tickleFds s)"
    and f: "fc_fd f = int i" "fd_ok (dom (scheds s)) f"
    and h: "fdheap s' = (fdheap s)(m_fdContexts s ! i \<mapsto> f)" and v: "m_fdContexts s' = m_fdContexts s"
    and frame: "m_tickleFds s' = m_tickleFds s" "io_self s' = io_self s" "dom (scheds s') = dom (scheds s)"
    and k: "kernel s' = (kernel s)(int i := interest_of (m_fdContexts s ! i) (m_events f))"
    and cnt: "m_pendingEventCount s' =
      m_pendingEventCount s + of_nat (bits (m_events f)) - of_nat (bits (m_events (fd_at s i)))"
  shows "io_inv s'"
proof -
  let ?n = "length (m_fdContexts s)"
  have at: "fd_at s' j = (if j = i then f else fd_at s j)" if "j < ?n" for j
    using fd_at_change [OF inv i that h v] .
  have "fd_at s' j = ((fd_at s)(i := f)) j" if "j < ?n" for j using at [OF that] by simp
  then have "(\<Sum>j<?n. bits (m_events (fd_at s' j))) = (\<Sum>j<?n. bits (m_events (((fd_at s)(i := f)) j)))"
    by (intro sum.cong) auto
  with sum_upd_word [of "{..<?n}" i "\<lambda>f. bits (m_events f)" "fd_at s" f, where 'w = 64]
  have "m_pendingEventCount s' = of_nat (\<Sum>j<?n. bits (m_events (fd_at s' j)))"
    using inv i cnt by (simp add: io_inv_def Let_def del: of_nat_sum)
  moreover have "fdheap s' (m_fdContexts s ! j) \<noteq> None \<and> fc_fd (fd_at s' j) = int j \<and>
      fd_ok (dom (scheds s')) (fd_at s' j)" if "j < ?n" for j
    using io_invD(1-3) [OF inv that] at [OF that] f h frame(3) by auto
  moreover have "if int j = fst (m_tickleFds s) then m_events (fd_at s' j) = 0
      else kernel s' (int j) = interest_of (m_fdContexts s ! j) (m_events (fd_at s' j))"
    if "j < ?n" for j
    using io_invD(4,5) [OF inv that] at [OF that] k nt by auto
  moreover have "kernel s' fd = None" if "fd \<noteq> fst (m_tickleFds s)" "fd < 0 \<or> int ?n \<le> fd" for fd
    using inv that i k by (auto simp: io_inv_def Let_def)
  moreover have "kernel s' (fst (m_tickleFds s)) =
      Some (EPOLLIN OR EPOLLET, DataFd (fst (m_tickleFds s)))"
    using inv k nt by (simp add: io_inv_def Let_def)
  moreover have "32 \<le> ?n" "?n < 2 ^ 31" "io_self s \<in> dom (scheds s)"
    using inv by (simp_all add: io_inv_def Let_def)
  ultimately show ?thesis
    unfolding io_inv_def Let_def v frame by blast
qed

text \<open>Changes outside the table: tasks in the queues, the timers, the wake-up pipe.\<close>

lemma io_inv_frame:
  assumes "io_inv s" "fdheap s' = fdheap s" "m_fdContexts s' = m_fdContexts s"
    "m_tickleFds s' = m_tickleFds s" "io_self s' = io_self s" "dom (scheds s') = dom (scheds s)"
    "kernel s' = kernel s" "m_pendingEventCount s' = m_pendingEventCount s"
  shows "io_inv s'"
proof -
  have "fd_at s' = fd_at s" using assms(2,3) by (simp add: fd_at_def fun_eq_iff)
  then show ?thesis using assms(1) unfolding io_inv_def Let_def assms(3-8) by (simp add: assms(2))
qed

section \<open>Exact effect of a trigger\<close>

definition task_of :: "EventContext \<Rightarrow> FiberAndThread" where
  "task_of c = (if ec_cb c \<noteq> None then ft_of_cb (ec_cb c) (- 1) else ft_of_fiber (ec_fiber c) (- 1))"

definition os_ok :: "os \<Rightarrow> bool" where
  "os_ok os \<longleftrightarrow> epoll_documented os \<and> write_T os = 1"

definition enqueue :: "nat \<Rightarrow> FiberAndThread \<Rightarrow> (nat \<Rightarrow> scheduler option) \<Rightarrow> nat \<Rightarrow> scheduler option" where
  "enqueue k ft scs = scs(k := map_option (\<lambda>sc. sc\<lparr>m_fibers := m_fibers sc @ [ft]\<rparr>) (scs k))"

text \<open>The event \<open>e\<close> of the object \<open>f\<close> at \<open>p\<close> fires: its task is queued and the context is empty.\<close>

definition fired :: "u32 \<Rightarrow> nat \<Rightarrow> FdContext \<Rightarrow> nat \<Rightarrow> io \<Rightarrow> io" where
  "fired e p f b s =
     s\<lparr>scheds := enqueue (the (ec_scheduler (ctx_of e f))) (task_of (ctx_of e f)) (scheds s),
       pipe_bytes := b,
       m_pendingEventCount := m_pendingEventCount s - 1,
       fdheap := (fdheap s)(p \<mapsto> putContext e empty_ctx (f\<lparr>m_events := m_events f AND NOT e\<rparr>))\<rparr>"

lemma pipe_unchanged: "\<exists>b. s = s\<lparr>pipe_bytes := b\<rparr>"
  by (rule exI [of _ "pipe_bytes s"]) simp

lemma io_tickle_eq:
  assumes "io_self s \<in> dom (scheds s)" and "write_T os = 1"
  shows "\<exists>b. io_tickle os s = Inr (s\<lparr>pipe_bytes := b\<rparr>)"
proof -
  obtain sc where "scheds s (io_self s) = Some sc" using assms(1) by auto
  then show ?thesis
    using assms(2) pipe_unchanged [of s] unfolding io_tickle_def by (cases "hasIdleThreads sc") auto
qed

lemma io_schedule_eq:
  assumes "scheds s k = Some sc" and "io_self s \<in> dom (scheds s)" and "write_T os = 1"
    and "ft_valid ft"
  shows "\<exists>b. io_schedule os (Some k) ft s = Inr (s\<lparr>scheds := enqueue k ft (scheds s), pipe_bytes := b\<rparr>)"
proof -
  let ?s1 = "s\<lparr>scheds := enqueue k ft (scheds s)\<rparr>"
  have e: "enqueue k ft (scheds s) = (scheds s)(k \<mapsto> sc\<lparr>m_fibers := m_fibers sc @ [ft]\<rparr>)"
    using assms(1) by (simp add: enqueue_def)
  have "\<exists>b. io_tickle os ?s1 = Inr (?s1\<lparr>pipe_bytes := b\<rparr>)"
    using assms(2,3) e by (intro io_tickle_eq) auto
  then show ?thesis
    using assms(1,4) e pipe_unchanged [of ?s1] unfolding io_schedule_def
    by (cases "m_fibers sc = [] \<and> k = io_self s") (auto simp: schedule_def scheduleNoLock_def Let_def)
qed

lemma trigger_dec_eq:
  assumes f: "fdheap s p = Some f" and e: "is_event e" "m_events f AND e \<noteq> 0"
    and c: "ctx_ok (dom (scheds s)) True (ctx_of e f)"
    and os: "io_self s \<in> dom (scheds s)" "write_T os = 1"
  shows "\<exists>b. trigger_dec os e p s = Inr (fired e p f b s)"
proof -
  let ?c = "ctx_of e f"
  obtain k sc where k: "ec_scheduler ?c = Some k" "scheds s k = Some sc"
    using c by (auto simp: ctx_ok_def)
  let ?f1 = "f\<lparr>m_events := m_events f AND NOT e\<rparr>"
  define c1 where "c1 = (if ec_cb ?c \<noteq> None then ?c\<lparr>ec_cb := None\<rparr> else ?c\<lparr>ec_fiber := None\<rparr>)"
  have emp: "c1\<lparr>ec_scheduler := None\<rparr> = empty_ctx"
    using c by (auto simp: c1_def ctx_ok_def empty_ctx_def)
  have val: "ft_valid (task_of ?c)"
    using c by (auto simp: ctx_ok_def task_of_def ft_valid_def ft_of_cb_def ft_of_fiber_def)
  let ?s1 = "put_fd p (putContext e c1 ?f1) s"
  obtain b where b: "io_schedule os (Some k) (task_of ?c) ?s1 =
      Inr (?s1\<lparr>scheds := enqueue k (task_of ?c) (scheds s), pipe_bytes := b\<rparr>)"
    using io_schedule_eq [of ?s1 k sc os "task_of ?c"] k os val by (auto simp: put_fd_def)
  have "triggerEvent os e p s =
      Inr (put_fd p (putContext e (c1\<lparr>ec_scheduler := None\<rparr>) ?f1)
        (?s1\<lparr>scheds := enqueue k (task_of ?c) (scheds s), pipe_bytes := b\<rparr>))"
    using f e b k(1)
    by (cases "ec_cb ?c") (simp_all add: triggerEvent_def getContext_eq Let_def c1_def task_of_def)
  then have "trigger_dec os e p s = Inr (fired e p f b s)"
    using k(1) emp by (simp add: trigger_dec_def fired_def put_fd_def)
  then show ?thesis ..
qed

lemma fired_simps [simp]:
  "fdheap (fired e p f b s) =
     (fdheap s)(p \<mapsto> putContext e empty_ctx (f\<lparr>m_events := m_events f AND NOT e\<rparr>))"
  "m_fdContexts (fired e p f b s) = m_fdContexts s" "m_tickleFds (fired e p f b s) = m_tickleFds s"
  "io_self (fired e p f b s) = io_self s" "kernel (fired e p f b s) = kernel s"
  "m_pendingEventCount (fired e p f b s) = m_pendingEventCount s - 1" "timers (fired e p f b s) = timers s"
  "scheds (fired e p f b s) =
     enqueue (the (ec_scheduler (ctx_of e f))) (task_of (ctx_of e f)) (scheds s)"
  by (simp_all add: fired_def)

lemma dom_enqueue [simp]: "dom (enqueue k ft scs) = dom scs"
  by (auto simp: enqueue_def dom_def)

lemma putContext_fields [simp]: "fc_fd (f\<lparr>m_events := m\<rparr>) = fc_fd f" by simp

lemma ctx_ok_empty [simp]: "ctx_ok S False empty_ctx" by (simp add: ctx_ok_def)

section \<open>Growing the table\<close>

lemma fold_new_objects:
  assumes "inj_on new_at (set is)"
  shows "fold (\<lambda>i h. h(new_at i \<mapsto> FdContext_new (int i))) is h p =
    (if p \<in> new_at ` set is then Some (FdContext_new (int (the_inv_into (set is) new_at p))) else h p)"
  using assms
proof (induction "is" rule: rev_induct)
  case (snoc j js)
  let ?S = "insert j (set js)"
  have inj: "inj_on new_at ?S" "inj_on new_at (set js)" using snoc.prems by (simp_all add: inj_on_insert)
  have j: "the_inv_into ?S new_at (new_at j) = j" by (rule the_inv_into_f_f [OF inj(1)]) simp
  have "the_inv_into (set js) new_at p = the_inv_into ?S new_at p" if "p \<in> new_at ` set js"
  proof -
    obtain k where k: "p = new_at k" "k \<in> set js" using \<open>p \<in> new_at ` set js\<close> by blast
    then show ?thesis
      using the_inv_into_f_f [OF inj(1), of k] the_inv_into_f_f [OF inj(2), of k] by simp
  qed
  with snoc.IH [OF inj(2)] j show ?case by auto
qed simp

definition fresh_for :: "(nat \<Rightarrow> nat) \<Rightarrow> io \<Rightarrow> bool" where
  "fresh_for new_at s \<longleftrightarrow>
     inj new_at \<and> range new_at \<inter> dom (fdheap s) = {}"

lemma contextResize_simps [simp]:
  "m_tickleFds (contextResize new_at n s) = m_tickleFds s"
  "io_self (contextResize new_at n s) = io_self s" "scheds (contextResize new_at n s) = scheds s"
  "kernel (contextResize new_at n s) = kernel s" "timers (contextResize new_at n s) = timers s"
  "m_pendingEventCount (contextResize new_at n s) = m_pendingEventCount s"
  "length (m_fdContexts (contextResize new_at n s)) = n"
  by (simp_all add: contextResize_def Let_def)

lemma contextResize_at:
  assumes "fresh_for new_at s" and "length (m_fdContexts s) \<le> n" and "i < n"
    and "\<forall>i<length (m_fdContexts s). fdheap s (m_fdContexts s ! i) \<noteq> None"
  shows "m_fdContexts (contextResize new_at n s) ! i =
      (if i < length (m_fdContexts s) then m_fdContexts s ! i else new_at i)"
    and "fdheap (contextResize new_at n s) (m_fdContexts (contextResize new_at n s) ! i) =
      (if i < length (m_fdContexts s) then fdheap s (m_fdContexts s ! i)
       else Some (FdContext_new (int i)))"
proof -
  let ?old = "length (m_fdContexts s)" and ?is = "set [length (m_fdContexts s)..<n]"
  show v: "m_fdContexts (contextResize new_at n s) ! i =
      (if i < ?old then m_fdContexts s ! i else new_at i)"
    using assms(2,3) by (simp add: contextResize_def Let_def nth_append)
  have inj: "inj_on new_at ?is" using assms(1) by (auto simp: fresh_for_def intro: inj_on_subset)
  note h = fold_new_objects [OF inj, of "fdheap s"]
  show "fdheap (contextResize new_at n s) (m_fdContexts (contextResize new_at n s) ! i) =
      (if i < ?old then fdheap s (m_fdContexts s ! i) else Some (FdContext_new (int i)))"
  proof (cases "i < ?old")
    case True
    then have "m_fdContexts s ! i \<notin> range new_at"
      using assms(1,4) by (fastforce simp: fresh_for_def dom_def)
    then have "m_fdContexts s ! i \<notin> new_at ` ?is" by blast
    then show ?thesis using True v h by (simp add: contextResize_def Let_def)
  next
    case False
    then have i: "i \<in> ?is" using assms(3) by simp
    have "fold (\<lambda>i h. h(new_at i \<mapsto> FdContext_new (int i))) [?old..<n] (fdheap s) (new_at i) =
        Some (FdContext_new (int i))"
      using h [of "new_at i"] imageI [OF i, of new_at] the_inv_into_f_f [OF inj i] by presburger
    then show ?thesis using False v by (simp add: contextResize_def Let_def)
  qed
qed

lemma io_inv_grow:
  assumes inv: "io_inv s" and fr: "fresh_for new_at s" and n: "length (m_fdContexts s) \<le> n" "n < 2 ^ 31"
  shows "io_inv (contextResize new_at n s)"
    and "i < n \<Longrightarrow> fd_at (contextResize new_at n s) i =
      (if i < length (m_fdContexts s) then fd_at s i else FdContext_new (int i))"
proof -
  let ?old = "length (m_fdContexts s)" and ?s = "contextResize new_at n s"
  have ex: "\<forall>i<?old. fdheap s (m_fdContexts s ! i) \<noteq> None" using inv by (simp add: io_inv_def Let_def)
  note r = contextResize_at [OF fr n(1) _ ex]
  have at: "fd_at ?s i = (if i < ?old then fd_at s i else FdContext_new (int i))" if "i < n" for i
    using r(2) [OF that] by (simp add: fd_at_def)
  then show "i < n \<Longrightarrow> fd_at ?s i = (if i < ?old then fd_at s i else FdContext_new (int i))" .
  have new: "fc_fd (FdContext_new k) = k" "m_events (FdContext_new k) = 0" "fd_ok S (FdContext_new k)"
    for k S
    by (simp_all add: FdContext_new_def NONE_def fd_ok_def)
  have "(\<Sum>i<n. bits (m_events (fd_at ?s i))) =
      (\<Sum>i<n. if i < ?old then bits (m_events (fd_at s i)) else 0)"
    by (intro sum.cong) (simp_all add: at new)
  also have "\<dots> = (\<Sum>i<?old. bits (m_events (fd_at s i)))"
    using n(1) by (simp add: sum.If_cases lessThan_def [symmetric] Int_absorb1 lessThan_subset_iff
        Collect_conj_eq [symmetric])
  finally have cnt: "m_pendingEventCount ?s = of_nat (\<Sum>i<n. bits (m_events (fd_at ?s i)))"
    using inv by (simp add: io_inv_def Let_def del: of_nat_sum)
  have objs: "fdheap ?s (m_fdContexts ?s ! i) \<noteq> None \<and> fc_fd (fd_at ?s i) = int i \<and>
      fd_ok (dom (scheds ?s)) (fd_at ?s i)" if "i < n" for i
    using r(2) [OF that] at [OF that] io_invD(1-3) [OF inv, of i] by (auto simp: new)
  have kout: "kernel s fd = None" if "fd \<noteq> fst (m_tickleFds s)" "fd < 0 \<or> int ?old \<le> fd" for fd
    using inv that unfolding io_inv_def Let_def by blast
  have "if int i = fst (m_tickleFds s) then m_events (fd_at ?s i) = 0
      else kernel ?s (int i) = interest_of (m_fdContexts ?s ! i) (m_events (fd_at ?s i))"
    if "i < n" for i
    using r(1) [OF that] at [OF that] io_invD(4,5) [OF inv, of i] kout [of "int i"]
    by (auto simp: new interest_of_def)
  then show "io_inv ?s"
    using inv n objs cnt kout unfolding io_inv_def Let_def contextResize_simps by auto
qed

section \<open>Removing a registration\<close>

lemma epoll_ctl_cases:
  assumes "epoll_documented os"
  obtains (Fail) rt where "rt \<noteq> 0" "epoll_ctl os k op fd ev = (rt, k)"
  | (Ok) k' where "epoll_ctl os k op fd ev = (0, k')"
      "op = EPOLL_CTL_ADD \<Longrightarrow> k fd = None \<and> k' = k(fd \<mapsto> ev)"
      "op = EPOLL_CTL_MOD \<Longrightarrow> k fd \<noteq> None \<and> k' = k(fd \<mapsto> ev)"
      "op = EPOLL_CTL_DEL \<Longrightarrow> k fd \<noteq> None \<and> k' = k(fd := None)"
proof (cases "epoll_ctl os k op fd ev")
  case (Pair rt k')
  then have *: "if rt \<noteq> 0 then k' = k
      else case op of
           EPOLL_CTL_ADD \<Rightarrow> k fd = None \<and> k' = k(fd \<mapsto> ev)
         | EPOLL_CTL_MOD \<Rightarrow> k fd \<noteq> None \<and> k' = k(fd \<mapsto> ev)
         | EPOLL_CTL_DEL \<Rightarrow> k fd \<noteq> None \<and> k' = k(fd := None)"
    using assms unfolding epoll_documented_def by blast
  show ?thesis
  proof (cases "rt = 0")
    case True
    then show ?thesis using Ok [of k'] Pair * by (cases op) auto
  next
    case False
    then show ?thesis using Fail [of rt] Pair * by auto
  qed
qed

lemma kernel_unchanged [simp]: "s\<lparr>kernel := kernel s\<rparr> = s" by simp

text \<open>The registration of the context at index \<open>i\<close> as the kernel sees it after the mask is \<open>m\<close>.\<close>

definition set_interest :: "nat \<Rightarrow> u32 \<Rightarrow> io \<Rightarrow> io" where
  "set_interest i m s = s\<lparr>kernel := (kernel s)(int i := interest_of (m_fdContexts s ! i) m)\<rparr>"

lemma set_interest_simps [simp]:
  "fdheap (set_interest i m s) = fdheap s" "m_fdContexts (set_interest i m s) = m_fdContexts s"
  "m_tickleFds (set_interest i m s) = m_tickleFds s" "io_self (set_interest i m s) = io_self s"
  "scheds (set_interest i m s) = scheds s" "timers (set_interest i m s) = timers s"
  "pipe_bytes (set_interest i m s) = pipe_bytes s"
  "m_pendingEventCount (set_interest i m s) = m_pendingEventCount s"
  "kernel (set_interest i m s) = (kernel s)(int i := interest_of (m_fdContexts s ! i) m)"
  by (simp_all add: set_interest_def)

text \<open>
  Lowering the mask of a registered context: the call fails and nothing changes, or the kernel
  has the new mask.
\<close>

lemma lower_interest:
  assumes inv: "io_inv s" and ep: "epoll_documented os" and i: "i < length (m_fdContexts s)"
    and m: "m_events (fd_at s i) \<noteq> 0"
    and op: "op = (if m' \<noteq> 0 then EPOLL_CTL_MOD else EPOLL_CTL_DEL)" and ev: "m' = 0 \<or> ev = EPOLLET OR m'"
  obtains (Fail) rt where "rt \<noteq> 0"
      "epoll_ctl os (kernel s) op (int i) (ev, DataPtr (m_fdContexts s ! i)) = (rt, kernel s)"
  | (Ok) k' where "epoll_ctl os (kernel s) op (int i) (ev, DataPtr (m_fdContexts s ! i)) = (0, k')"
      "s\<lparr>kernel := k'\<rparr> = set_interest i m' s" "int i \<noteq> fst (m_tickleFds s)"
  using ep
proof (cases rule: epoll_ctl_cases [where k = "kernel s" and op = op and fd = "int i"
      and ev = "(ev, DataPtr (m_fdContexts s ! i))"])
  case (Ok k')
  have "int i \<noteq> fst (m_tickleFds s)" using io_invD(4) [OF inv i] m by blast
  moreover have "s\<lparr>kernel := k'\<rparr> = set_interest i m' s"
    using Ok(3,4) op ev by (cases "m' = 0") (auto simp: set_interest_def interest_of_def)
  ultimately show ?thesis using that(2) Ok(1) by blast
qed (use that(1) in blast)

lemma dropEvent_cases:
  assumes inv: "io_inv s" and ep: "epoll_documented os" and i: "i < length (m_fdContexts s)"
  obtains (Unset) "m_events (fd_at s i) AND e = 0" "dropEvent os (int i) e act s = Inr (False, s)"
  | (Fail) "m_events (fd_at s i) AND e \<noteq> 0" "dropEvent os (int i) e act s = Inr (False, s)"
  | (Ok) "m_events (fd_at s i) AND e \<noteq> 0" "int i \<noteq> fst (m_tickleFds s)"
      "dropEvent os (int i) e act s = act (m_fdContexts s ! i) (fd_at s i)
         (m_events (fd_at s i) AND NOT e) (set_interest i (m_events (fd_at s i) AND NOT e) s)"
proof -
  let ?p = "m_fdContexts s ! i" and ?f = "fd_at s i"
  let ?new = "m_events ?f AND NOT e"
  let ?op = "if ?new \<noteq> 0 then EPOLL_CTL_MOD else EPOLL_CTL_DEL"
  have d: "dropEvent os (int i) e act s =
      (if m_events ?f AND e = 0 then Inr (False, s)
       else let (rt, k) = epoll_ctl os (kernel s) ?op (int i) (EPOLLET OR ?new, DataPtr ?p)
            in if rt \<noteq> 0 then Inr (False, s\<lparr>kernel := k\<rparr>) else act ?p ?f ?new (s\<lparr>kernel := k\<rparr>))"
    using i io_invD(1) [OF inv i] by (simp add: dropEvent_def size_int_eq [OF inv] at_fd_eq Let_def)
  show ?thesis
  proof (cases "m_events ?f AND e = 0")
    case False
    then have m: "m_events ?f \<noteq> 0" by auto
    from inv ep i m refl disjI2 [OF refl] show ?thesis
    proof (cases rule: lower_interest [where op = ?op and m' = ?new and ev = "EPOLLET OR ?new"])
      case (Fail rt)
      then show ?thesis using that(2) False d by simp
    next
      case (Ok k')
      then show ?thesis using that(3) False d by simp
    qed
  qed (use that(1) d in simp)
qed

section \<open>The abstract table of registrations\<close>

text \<open>
  What the manager stands for: a map from descriptor and event to the scheduler and the task that
  an occurrence of the event wakes.
\<close>

definition reg_of :: "FdContext \<Rightarrow> u32 \<Rightarrow> (nat \<times> FiberAndThread) option" where
  "reg_of f e =
     (if is_event e \<and> m_events f AND e \<noteq> 0
      then Some (the (ec_scheduler (ctx_of e f)), task_of (ctx_of e f)) else None)"

definition registered :: "io \<Rightarrow> int \<times> u32 \<Rightarrow> (nat \<times> FiberAndThread) option" where
  "registered s = (\<lambda>(fd, e).
     if 0 \<le> fd \<and> nat fd < length (m_fdContexts s) then reg_of (fd_at s (nat fd)) e else None)"

lemma registered_at: "i < length (m_fdContexts s) \<Longrightarrow> registered s (int i, e) = reg_of (fd_at s i) e"
  by (simp add: registered_def)

lemma registered_change:
  assumes "io_inv s" "i < length (m_fdContexts s)"
    and "fdheap s' = (fdheap s)(m_fdContexts s ! i \<mapsto> f)" and "m_fdContexts s' = m_fdContexts s"
  shows "registered s' (fd, e) = (if fd = int i then reg_of f e else registered s (fd, e))"
proof (cases "0 \<le> fd \<and> nat fd < length (m_fdContexts s)")
  case True
  then show ?thesis
    using fd_at_change [OF assms(1,2) _ assms(3,4), of "nat fd"] assms(4)
    by (auto simp: registered_def)
next
  case False
  then show ?thesis using assms(2,4) by (auto simp: registered_def)
qed

lemma reg_of_cleared:
  assumes "m_events f \<in> {0, READ, WRITE, READ OR WRITE}" "is_event e" "m_events f AND e \<noteq> 0"
  shows "reg_of (putContext e c (f\<lparr>m_events := m_events f AND NOT e\<rparr>)) e' =
    (if e' = e then None else reg_of f e')"
proof (cases "e' = e \<or> \<not> is_event e'")
  case True
  then show ?thesis using bits_clear(3) [OF assms] by (auto simp: reg_of_def)
next
  case False
  then show ?thesis
    using bits_clear(4) [OF assms, of e'] assms(2) by (simp add: reg_of_def ctx_of_put)
qed

lemma fd_ok_events: "fd_ok S f \<Longrightarrow> m_events f \<in> {0, READ, WRITE, READ OR WRITE}"
  by (simp add: fd_ok_def)

lemma fd_ok_ctx: "fd_ok S f \<Longrightarrow> is_event e \<Longrightarrow> ctx_ok S (m_events f AND e \<noteq> 0) (ctx_of e f)"
  by (simp add: fd_ok_iff)

text \<open>The contract of every way to end one registration.\<close>

lemma remove_registration:
  assumes inv: "io_inv s" and i: "i < length (m_fdContexts s)" and nt: "int i \<noteq> fst (m_tickleFds s)"
    and e: "is_event e" "m_events (fd_at s i) AND e \<noteq> 0"
    and h: "fdheap s' = (fdheap s)(m_fdContexts s ! i \<mapsto>
        putContext e empty_ctx ((fd_at s i)\<lparr>m_events := m_events (fd_at s i) AND NOT e\<rparr>))"
    and v: "m_fdContexts s' = m_fdContexts s"
    and frame: "m_tickleFds s' = m_tickleFds s" "io_self s' = io_self s" "dom (scheds s') = dom (scheds s)"
    and k: "kernel s' = kernel (set_interest i (m_events (fd_at s i) AND NOT e) s)"
    and cnt: "m_pendingEventCount s' = m_pendingEventCount s - 1"
  shows "io_inv s'" and "registered s' = (registered s)((int i, e) := None)"
proof -
  let ?f = "fd_at s i"
  let ?f' = "putContext e empty_ctx (?f\<lparr>m_events := m_events ?f AND NOT e\<rparr>)"
  note ok = io_invD(3) [OF inv i]
  note b = bits_clear [OF fd_ok_events [OF ok] e]
  have "fd_ok (dom (scheds s)) ?f'"
    using b by (intro fd_ok_change [OF ok e(1)]) simp_all
  then show "io_inv s'"
    using b(1) cnt k io_invD(2) [OF inv i]
    by (intro io_inv_change [OF inv i nt _ _ h v frame]) simp_all
  show "registered s' = (registered s)((int i, e) := None)"
  proof
    fix x
    show "registered s' x = ((registered s)((int i, e) := None)) x"
      using registered_change [OF inv i h v, of "fst x" "snd x"]
        reg_of_cleared [OF fd_ok_events [OF ok] e] registered_at [OF i]
      by (cases x) auto
  qed
qed

lemma delEvent_effect:
  assumes "io_inv s" "epoll_documented os" and i: "i < length (m_fdContexts s)" and e: "is_event e"
  obtains (Unset) "registered s (int i, e) = None" "delEvent os (int i) e s = Inr (False, s)"
  | (Fail) "registered s (int i, e) \<noteq> None" "delEvent os (int i) e s = Inr (False, s)"
  | (Ok) s' where "registered s (int i, e) \<noteq> None" "delEvent os (int i) e s = Inr (True, s')"
      "io_inv s'" "registered s' = (registered s)((int i, e) := None)" "scheds s' = scheds s"
      "timers s' = timers s"
  using assms(1-3)
proof (cases rule: dropEvent_cases [where e = e and act = "\<lambda>p f new_events s.
       let s1 = s\<lparr>m_pendingEventCount := m_pendingEventCount s - 1\<rparr>;
           f1 = f\<lparr>m_events := new_events\<rparr>
       in bind_res (getContext e f1) (\<lambda>c.
            Inr (True, put_fd p (putContext e (resetContext c) f1) s1))"])
  case Ok
  let ?f = "fd_at s i"
  let ?new = "m_events ?f AND NOT e"
  let ?s' = "put_fd (m_fdContexts s ! i) (putContext e empty_ctx (?f\<lparr>m_events := ?new\<rparr>))
    ((set_interest i ?new s)\<lparr>m_pendingEventCount := m_pendingEventCount s - 1\<rparr>)"
  have "resetContext c = empty_ctx" for c by (simp add: resetContext_def empty_ctx_def)
  then have d: "delEvent os (int i) e s = Inr (True, ?s')"
    using Ok(3) e by (simp add: delEvent_def getContext_eq Let_def)
  have "io_inv ?s' \<and> registered ?s' = (registered s)((int i, e) := None)"
    using remove_registration [OF assms(1) i Ok(2) e Ok(1), of ?s'] by (simp add: put_fd_def)
  with that(3) [of ?s'] d Ok(1) e show ?thesis
    by (simp add: registered_at [OF i] reg_of_def put_fd_def)
qed (use that(1,2) e in \<open>simp_all add: registered_at [OF i] reg_of_def delEvent_def\<close>)

lemma fired_effect:
  assumes inv: "io_inv s" and os: "os_ok os" and i: "i < length (m_fdContexts s)"
    and nt: "int i \<noteq> fst (m_tickleFds s)" and e: "is_event e" "m_events (fd_at s i) AND e \<noteq> 0"
  obtains s' where
    "trigger_dec os e (m_fdContexts s ! i) (set_interest i (m_events (fd_at s i) AND NOT e) s) = Inr s'"
    "io_inv s'" "registered s' = (registered s)((int i, e) := None)" "timers s' = timers s"
    "scheds s' = (case registered s (int i, e) of Some (k, ft) \<Rightarrow> enqueue k ft (scheds s))"
    "fdheap s' (m_fdContexts s ! i) =
       Some (putContext e empty_ctx ((fd_at s i)\<lparr>m_events := m_events (fd_at s i) AND NOT e\<rparr>))"
proof -
  let ?f = "fd_at s i" and ?p = "m_fdContexts s ! i"
  let ?s1 = "set_interest i (m_events ?f AND NOT e) s"
  have c: "ctx_ok (dom (scheds ?s1)) True (ctx_of e ?f)"
    using fd_ok_ctx [OF io_invD(3) [OF inv i] e(1)] e(2) by simp
  have self: "io_self ?s1 \<in> dom (scheds ?s1)" using inv by (simp add: io_inv_def Let_def)
  obtain b where t: "trigger_dec os e ?p ?s1 = Inr (fired e ?p ?f b ?s1)"
    using trigger_dec_eq [OF _ e c self] os io_invD(1) [OF inv i] by (auto simp: os_ok_def)
  have "io_inv (fired e ?p ?f b ?s1)"
    and "registered (fired e ?p ?f b ?s1) = (registered s)((int i, e) := None)"
    using remove_registration [OF inv i nt e, of "fired e ?p ?f b ?s1"] by simp_all
  with t that [of "fired e ?p ?f b ?s1"] e show ?thesis
    by (simp add: registered_at [OF i] reg_of_def)
qed

lemma cancelEvent_effect:
  assumes "io_inv s" "os_ok os" and i: "i < length (m_fdContexts s)" and e: "is_event e"
  obtains (Unset) "registered s (int i, e) = None" "cancelEvent os (int i) e s = Inr (False, s)"
  | (Fail) "registered s (int i, e) \<noteq> None" "cancelEvent os (int i) e s = Inr (False, s)"
  | (Ok) k ft s' where "registered s (int i, e) = Some (k, ft)"
      "cancelEvent os (int i) e s = Inr (True, s')"
      "io_inv s'" "registered s' = (registered s)((int i, e) := None)"
      "scheds s' = enqueue k ft (scheds s)" "timers s' = timers s"
proof -
  have ep: "epoll_documented os" using assms(2) by (simp add: os_ok_def)
  from assms(1) ep i show ?thesis
  proof (cases rule: dropEvent_cases [where e = e and act = "\<lambda>p f new_events s.
       bind_res (trigger_dec os e p s) (\<lambda>s1. Inr (True, s1))"])
    case Ok
    obtain s' where s': "trigger_dec os e (m_fdContexts s ! i)
        (set_interest i (m_events (fd_at s i) AND NOT e) s) = Inr s'"
      "io_inv s'" "registered s' = (registered s)((int i, e) := None)" "timers s' = timers s"
      "scheds s' = (case registered s (int i, e) of Some (k, ft) \<Rightarrow> enqueue k ft (scheds s))"
      using fired_effect [OF assms(1,2) i Ok(2) e Ok(1)] by blast
    have "registered s (int i, e) =
        Some (the (ec_scheduler (ctx_of e (fd_at s i))), task_of (ctx_of e (fd_at s i)))"
      using Ok(1) e by (simp add: registered_at [OF i] reg_of_def)
    moreover have "cancelEvent os (int i) e s = Inr (True, s')"
      using Ok(3) s'(1) by (simp add: cancelEvent_def)
    ultimately show ?thesis using that(3) s'(2-5) by simp
  qed (use that(1,2) e in \<open>simp_all add: registered_at [OF i] reg_of_def cancelEvent_def\<close>)
qed

text \<open>Both events of a context at once.\<close>

lemma fired_both_effect:
  assumes inv: "io_inv s" and os: "os_ok os" and i: "i < length (m_fdContexts s)"
    and nt: "int i \<noteq> fst (m_tickleFds s)" and m: "m_events (fd_at s i) = READ OR WRITE"
  obtains s1 s2 where
    "trigger_dec os READ (m_fdContexts s ! i) (set_interest i 0 s) = Inr s1"
    "trigger_dec os WRITE (m_fdContexts s ! i) s1 = Inr s2"
    "fdheap s1 (m_fdContexts s ! i) = Some (putContext READ empty_ctx ((fd_at s i)\<lparr>m_events := WRITE\<rparr>))"
    "fdheap s2 (m_fdContexts s ! i) = Some (putContext WRITE empty_ctx
       (putContext READ empty_ctx ((fd_at s i)\<lparr>m_events := 0\<rparr>)))"
    "io_inv s2" "registered s2 = (registered s)((int i, READ) := None, (int i, WRITE) := None)"
    "timers s2 = timers s"
    "scheds s2 = (case (registered s (int i, READ), registered s (int i, WRITE)) of
       (Some (k1, t1), Some (k2, t2)) \<Rightarrow> enqueue k2 t2 (enqueue k1 t1 (scheds s)))"
proof -
  let ?f = "fd_at s i" and ?p = "m_fdContexts s ! i"
  let ?s0 = "set_interest i 0 s"
  have bits: "(READ OR WRITE) AND READ \<noteq> 0" "(READ OR WRITE) AND WRITE \<noteq> 0"
    "(READ OR WRITE) AND NOT READ = WRITE" "WRITE AND WRITE \<noteq> 0" "WRITE AND NOT WRITE = 0"
    "bits (READ OR WRITE) = 2" "is_event READ" "is_event WRITE"
    by (simp_all add: event_consts bits_def is_event_def)
  note ok = io_invD(3) [OF inv i]
  have self: "io_self s \<in> dom (scheds s)" and wr: "write_T os = 1"
    using inv os by (simp_all add: io_inv_def Let_def os_ok_def)
  have cR: "ctx_ok (dom (scheds s)) True (ctx_of READ ?f)"
    and cW: "ctx_ok (dom (scheds s)) True (ctx_of WRITE ?f)"
    using fd_ok_ctx [OF ok bits(7)] fd_ok_ctx [OF ok bits(8)] m bits by simp_all
  obtain b1 where t1: "trigger_dec os READ ?p ?s0 = Inr (fired READ ?p ?f b1 ?s0)" (is "_ = Inr ?s1")
    using trigger_dec_eq [of ?s0 ?p ?f READ os] io_invD(1) [OF inv i] bits m cR self wr by auto
  let ?f1 = "putContext READ empty_ctx (?f\<lparr>m_events := WRITE\<rparr>)"
  have h1: "fdheap ?s1 ?p = Some ?f1" using m bits by simp
  have w1: "ctx_of WRITE ?f1 = ctx_of WRITE ?f" using bits by (simp add: ctx_of_put)
  obtain b2 where t2: "trigger_dec os WRITE ?p ?s1 = Inr (fired WRITE ?p ?f1 b2 ?s1)" (is "_ = Inr ?s2")
    using trigger_dec_eq [OF h1, of WRITE os] bits cW w1 self wr by auto
  let ?f2 = "putContext WRITE empty_ctx (putContext READ empty_ctx (?f\<lparr>m_events := 0\<rparr>))"
  have f2: "putContext WRITE empty_ctx (?f1\<lparr>m_events := WRITE AND NOT WRITE\<rparr>) = ?f2"
    using bits by (simp add: putContext_def)
  have h2: "fdheap ?s2 = (fdheap s)(?p \<mapsto> ?f2)" using f2 by simp
  have "fd_ok (dom (scheds s)) ?f2"
    by (auto simp: fd_ok_iff ctx_of_put bits is_event_def ctx_of_def putContext_def)
  then have inv2: "io_inv ?s2"
    using io_invD(2) [OF inv i] bits m
    by (intro io_inv_change [OF inv i nt _ _ h2]) simp_all
  have "registered ?s2 x = ((registered s)((int i, READ) := None, (int i, WRITE) := None)) x" for x
    using registered_change [OF inv i h2, of "fst x" "snd x"] registered_at [OF i]
    by (cases x) (auto simp: reg_of_def is_event_def)
  then have reg: "registered ?s2 = (registered s)((int i, READ) := None, (int i, WRITE) := None)" ..
  have "scheds ?s2 = (case (registered s (int i, READ), registered s (int i, WRITE)) of
       (Some (k1, t1), Some (k2, t2)) \<Rightarrow> enqueue k2 t2 (enqueue k1 t1 (scheds s)))"
    using m bits w1 by (simp add: registered_at [OF i] reg_of_def)
  moreover have "fdheap ?s2 ?p = Some ?f2" unfolding h2 by simp
  ultimately show ?thesis using that [OF t1 t2 h1 _ inv2 reg] by simp
qed

text \<open>The registrations of descriptor \<open>fd\<close> for the events in a mask end, and their tasks are queued, READ first.\<close>

definition fire_mask :: "int \<Rightarrow> u32 \<Rightarrow> io \<Rightarrow> (nat \<Rightarrow> scheduler option)" where
  "fire_mask fd m s =
     fold (\<lambda>e scs. case registered s (fd, e) of Some (k, ft) \<Rightarrow> enqueue k ft scs | None \<Rightarrow> scs)
       (filter (\<lambda>e. m AND e \<noteq> 0) [READ, WRITE]) (scheds s)"

definition drop_mask :: "int \<Rightarrow> u32 \<Rightarrow> io \<Rightarrow> int \<times> u32 \<Rightarrow> (nat \<times> FiberAndThread) option" where
  "drop_mask fd m s = (\<lambda>(fd', e). if fd' = fd \<and> m AND e \<noteq> 0 then None else registered s (fd', e))"

lemma registered_event: "\<not> is_event e \<Longrightarrow> registered s (fd, e) = None"
  by (simp add: registered_def reg_of_def)

text \<open>
  The triggers for the mask \<open>re\<close>, after \<^verbatim>\<open>epoll_ctl\<close> took these events out of the kernel's mask: they
  succeed when every event of \<open>re\<close> is registered.
\<close>

definition trigger_mask :: "os \<Rightarrow> u32 \<Rightarrow> nat \<Rightarrow> io \<Rightarrow> io res" where
  "trigger_mask os re p s =
     bind_res (if re AND READ \<noteq> 0 then trigger_dec os READ p s else Inr s) (\<lambda>s2.
       if re AND WRITE \<noteq> 0 then trigger_dec os WRITE p s2 else Inr s2)"

lemma drop_mask_single:
  assumes "re = READ \<or> re = WRITE"
  shows "(registered s)((fd, re) := None) = drop_mask fd re s"
proof
  fix x :: "int \<times> u32"
  obtain fd' e where x: "x = (fd', e)" by (cases x)
  have "registered s (fd', e) = None" if "re AND e \<noteq> 0" "e \<noteq> re"
    using that assms by (intro registered_event) (auto simp: is_event_def event_consts)
  moreover have "re AND re \<noteq> 0" using assms by (auto simp: event_consts)
  ultimately show "((registered s)((fd, re) := None)) x = drop_mask fd re s x"
    by (auto simp: x drop_mask_def)
qed

lemma drop_mask_both:
  "(registered s)((fd, READ) := None, (fd, WRITE) := None) = drop_mask fd (READ OR WRITE) s"
proof
  fix x :: "int \<times> u32"
  obtain fd' e where x: "x = (fd', e)" by (cases x)
  have "registered s (fd', e) = None" if "e \<noteq> READ" "e \<noteq> WRITE"
    using that by (intro registered_event) (simp add: is_event_def)
  moreover have "(READ OR WRITE) AND READ \<noteq> 0" "(READ OR WRITE) AND WRITE \<noteq> 0"
    by (simp_all add: event_consts)
  ultimately show "((registered s)((fd, READ) := None, (fd, WRITE) := None)) x =
      drop_mask fd (READ OR WRITE) s x"
    by (auto simp: x drop_mask_def)
qed

lemma trigger_mask_effect:
  assumes inv: "io_inv s" and os: "os_ok os" and i: "i < length (m_fdContexts s)"
    and nt: "int i \<noteq> fst (m_tickleFds s)"
    and re: "re \<in> {READ, WRITE, READ OR WRITE}" "re AND NOT (m_events (fd_at s i)) = 0"
  obtains s' where
    "trigger_mask os re (m_fdContexts s ! i) (set_interest i (m_events (fd_at s i) AND NOT re) s) = Inr s'"
    "io_inv s'" "registered s' = drop_mask (int i) re s" "timers s' = timers s"
    "scheds s' = fire_mask (int i) re s"
proof -
  let ?m = "m_events (fd_at s i)" and ?p = "m_fdContexts s ! i"
  have m: "?m \<in> {0, READ, WRITE, READ OR WRITE}" using fd_ok_events [OF io_invD(3) [OF inv i]] .
  have reg: "registered s (int i, e) \<noteq> None" if "is_event e" "?m AND e \<noteq> 0" for e
    using that by (simp add: registered_at [OF i] reg_of_def)
  consider (one) "re = READ \<or> re = WRITE" | (two) "re = READ OR WRITE" using re(1) by blast
  then show ?thesis
  proof cases
    case one
    then have e: "is_event re" "?m AND re \<noteq> 0"
      using m re(2) by (auto simp: is_event_def event_consts elim!: events_cases)
    obtain s' where s': "trigger_dec os re ?p (set_interest i (?m AND NOT re) s) = Inr s'"
      "io_inv s'" "registered s' = (registered s)((int i, re) := None)" "timers s' = timers s"
      "scheds s' = (case registered s (int i, re) of Some (k, ft) \<Rightarrow> enqueue k ft (scheds s))"
      using fired_effect [OF inv os i nt e] by blast
    have "trigger_mask os re ?p (set_interest i (?m AND NOT re) s) = Inr s'"
      using s'(1) one by (auto simp: trigger_mask_def event_consts)
    moreover have "scheds s' = fire_mask (int i) re s"
      using s'(5) one reg [OF e] by (auto simp: fire_mask_def event_consts)
    ultimately show ?thesis using that s'(2-4) drop_mask_single [OF one, of s] by simp
  next
    case two
    then have m2: "?m = READ OR WRITE" using m re(2) by (auto simp: event_consts)
    have b: "(READ OR WRITE) AND NOT (READ OR WRITE) = 0" "(READ OR WRITE) AND READ \<noteq> 0"
      "(READ OR WRITE) AND WRITE \<noteq> 0" "is_event READ" "is_event WRITE"
      by (simp_all add: event_consts is_event_def)
    obtain s1 s2 where s: "trigger_dec os READ ?p (set_interest i 0 s) = Inr s1"
      "trigger_dec os WRITE ?p s1 = Inr s2" "io_inv s2" "timers s2 = timers s"
      "registered s2 = (registered s)((int i, READ) := None, (int i, WRITE) := None)"
      "scheds s2 = (case (registered s (int i, READ), registered s (int i, WRITE)) of
         (Some (k1, t1), Some (k2, t2)) \<Rightarrow> enqueue k2 t2 (enqueue k1 t1 (scheds s)))"
      using fired_both_effect [OF inv os i nt m2] by blast
    have "trigger_mask os re ?p (set_interest i (?m AND NOT re) s) = Inr s2"
      using s(1,2) b two m2 by (simp add: trigger_mask_def)
    moreover have "scheds s2 = fire_mask (int i) re s"
      using s(6) reg [of READ] reg [of WRITE] b two m2 by (auto simp: fire_mask_def)
    ultimately show ?thesis using that s(3-5) drop_mask_both two by simp
  qed
qed

lemma real_events_range: "real_events evs \<in> {0, READ, WRITE, READ OR WRITE}"
  by (simp add: real_events_def Let_def NONE_def)

lemma trigger_unregistered:
  "fdheap s p = Some f \<Longrightarrow> m_events f AND e = 0 \<Longrightarrow>
     trigger_dec os e p s = Inl (Assert ''m_events & event'')"
  by (simp add: trigger_dec_def triggerEvent_def)

lemma trigger_mask_abort:
  assumes inv: "io_inv s" and os: "os_ok os" and i: "i < length (m_fdContexts s)"
    and nt: "int i \<noteq> fst (m_tickleFds s)"
    and re: "re \<in> {0, READ, WRITE, READ OR WRITE}" "m_events (fd_at s i) AND re \<noteq> 0"
      "re AND NOT (m_events (fd_at s i)) \<noteq> 0"
  shows "trigger_mask os re (m_fdContexts s ! i) (set_interest i (m_events (fd_at s i) AND NOT re) s) =
    Inl (Assert ''m_events & event'')"
proof -
  let ?m = "m_events (fd_at s i)" and ?p = "m_fdContexts s ! i"
  have m: "?m \<in> {0, READ, WRITE, READ OR WRITE}" using fd_ok_events [OF io_invD(3) [OF inv i]] .
  have b: "(READ OR WRITE) AND READ \<noteq> 0" "(READ OR WRITE) AND WRITE \<noteq> 0" "WRITE AND READ = 0"
    "READ AND READ \<noteq> 0" "READ AND NOT READ = 0" "READ AND NOT (READ OR WRITE) = 0" "is_event READ"
    by (simp_all add: event_consts is_event_def)
  have *: "re = READ OR WRITE \<and> (?m = READ \<or> ?m = WRITE)"
    using m re by (auto simp: event_consts)
  show ?thesis
  proof (cases "?m = WRITE")
    case True
    then have "trigger_dec os READ ?p (set_interest i (?m AND NOT re) s) = Inl (Assert ''m_events & event'')"
      using io_invD(1) [OF inv i] b(3) by (intro trigger_unregistered [where f = "fd_at s i"]) simp_all
    then show ?thesis using * b by (simp add: trigger_mask_def)
  next
    case False
    then have mr: "?m = READ" using * by blast
    obtain s' where s': "trigger_dec os READ ?p (set_interest i (?m AND NOT READ) s) = Inr s'"
      "fdheap s' ?p = Some (putContext READ empty_ctx ((fd_at s i)\<lparr>m_events := ?m AND NOT READ\<rparr>))"
      using fired_effect [OF inv os i nt b(7)] mr b by metis
    then have "trigger_dec os WRITE ?p s' = Inl (Assert ''m_events & event'')"
      using mr b by (intro trigger_unregistered [OF s'(2)]) simp
    then show ?thesis using s'(1) * mr b by (simp add: trigger_mask_def)
  qed
qed

lemma handle_ptr_effect:
  assumes inv: "io_inv s" and os: "os_ok os" and i: "i < length (m_fdContexts s)"
  obtains (Nothing) "m_events (fd_at s i) AND real_events evs = 0"
      "handle_ptr os evs (m_fdContexts s ! i) s = Inr s"
  | (Fail) "m_events (fd_at s i) AND real_events evs \<noteq> 0"
      "handle_ptr os evs (m_fdContexts s ! i) s = Inr s"
  | (Ok) s' where "m_events (fd_at s i) AND real_events evs \<noteq> 0"
      "real_events evs AND NOT (m_events (fd_at s i)) = 0"
      "handle_ptr os evs (m_fdContexts s ! i) s = Inr s'" "io_inv s'"
      "registered s' = drop_mask (int i) (real_events evs) s" "timers s' = timers s"
      "scheds s' = fire_mask (int i) (real_events evs) s"
  | (Abort) "m_events (fd_at s i) AND real_events evs \<noteq> 0"
      "real_events evs AND NOT (m_events (fd_at s i)) \<noteq> 0"
      "handle_ptr os evs (m_fdContexts s ! i) s = Inl (Assert ''m_events & event'')"
proof -
  let ?m = "m_events (fd_at s i)" and ?p = "m_fdContexts s ! i" and ?re = "real_events evs"
  let ?left = "?m AND NOT ?re"
  let ?op = "if ?left \<noteq> 0 then EPOLL_CTL_MOD else EPOLL_CTL_DEL"
  have ep: "epoll_documented os" using os by (simp add: os_ok_def)
  have d: "handle_ptr os evs ?p s =
      (if ?m AND ?re = 0 then Inr s
       else let (rt, k) = epoll_ctl os (kernel s) ?op (int i) (EPOLLET OR ?left, DataPtr ?p)
            in if rt \<noteq> 0 then Inr (s\<lparr>kernel := k\<rparr>) else trigger_mask os ?re ?p (s\<lparr>kernel := k\<rparr>))"
    using io_invD(1,2) [OF inv i]
    by (simp add: handle_ptr_def trigger_mask_def Let_def NONE_def split: prod.split)
  show ?thesis
  proof (cases "?m AND ?re = 0")
    case False
    then have m: "?m \<noteq> 0" "?re \<noteq> 0" by auto
    from inv ep i m(1) refl disjI2 [OF refl] show ?thesis
    proof (cases rule: lower_interest [where op = ?op and m' = ?left and ev = "EPOLLET OR ?left"])
      case (Fail rt)
      then show ?thesis using that(2) False d by simp
    next
      case (Ok k')
      have t: "handle_ptr os evs ?p s = trigger_mask os ?re ?p (set_interest i ?left s)"
        using False d Ok by simp
      show ?thesis
      proof (cases "?re AND NOT ?m = 0")
        case True
        have re: "?re \<in> {READ, WRITE, READ OR WRITE}" using real_events_range [of evs] m(2) by blast
        show ?thesis
          using trigger_mask_effect [OF inv os i Ok(3) re True] that(3) t False True by metis
      next
        case abort: False
        show ?thesis
          using trigger_mask_abort [OF inv os i Ok(3) real_events_range False abort] that(4) t False abort
          by simp
      qed
    qed
  qed (use that(1) d in simp)
qed

lemma trigger_if_set_skip:
  "fdheap s p = Some f \<Longrightarrow> m_events f AND e = 0 \<Longrightarrow> trigger_if_set os e p s = Inr s"
  "fdheap s p = Some f \<Longrightarrow> m_events f AND e \<noteq> 0 \<Longrightarrow> trigger_if_set os e p s = trigger_dec os e p s"
  by (simp_all add: trigger_if_set_def)

text \<open>The triggers of \<^verbatim>\<open>cancelAll\<close> end every registration of the descriptor.\<close>

lemma trigger_all_effect:
  assumes inv: "io_inv s" and os: "os_ok os" and i: "i < length (m_fdContexts s)"
    and nt: "int i \<noteq> fst (m_tickleFds s)" and m: "m_events (fd_at s i) \<noteq> 0"
  obtains s1 s2 f where
    "trigger_if_set os READ (m_fdContexts s ! i) (set_interest i 0 s) = Inr s1"
    "trigger_if_set os WRITE (m_fdContexts s ! i) s1 = Inr s2"
    "fdheap s2 (m_fdContexts s ! i) = Some f" "m_events f = 0"
    "io_inv s2" "registered s2 = drop_mask (int i) (m_events (fd_at s i)) s" "timers s2 = timers s"
    "scheds s2 = fire_mask (int i) (m_events (fd_at s i)) s"
proof -
  let ?m = "m_events (fd_at s i)" and ?p = "m_fdContexts s ! i"
  have mr: "?m \<in> {READ, WRITE, READ OR WRITE}"
    using fd_ok_events [OF io_invD(3) [OF inv i]] m by blast
  have b: "READ AND NOT READ = 0" "WRITE AND NOT WRITE = 0" "(READ OR WRITE) AND NOT (READ OR WRITE) = 0"
    "READ AND READ \<noteq> 0" "WRITE AND WRITE \<noteq> 0" "WRITE AND READ = 0" "READ AND WRITE = 0"
    "(READ OR WRITE) AND READ \<noteq> 0" "is_event READ" "is_event WRITE"
    by (simp_all add: event_consts is_event_def)
  have h: "fdheap (set_interest i 0 s) ?p = Some (fd_at s i)" using io_invD(1) [OF inv i] by simp
  have "?m AND NOT ?m = 0" by simp
  then obtain s' where s': "trigger_mask os ?m ?p (set_interest i 0 s) = Inr s'" "io_inv s'"
    "registered s' = drop_mask (int i) ?m s" "timers s' = timers s" "scheds s' = fire_mask (int i) ?m s"
    using trigger_mask_effect [OF inv os i nt mr] by (metis bit.conj_cancel_right)
  consider (R) "?m = READ" | (W) "?m = WRITE" | (RW) "?m = READ OR WRITE" using mr by blast
  then show ?thesis
  proof cases
    case R
    obtain s1 where s1: "trigger_dec os READ ?p (set_interest i 0 s) = Inr s1"
      "fdheap s1 ?p = Some (putContext READ empty_ctx ((fd_at s i)\<lparr>m_events := 0\<rparr>))"
      using fired_effect [OF inv os i nt b(9)] R b by metis
    then have "s1 = s'" using s'(1) R b by (simp add: trigger_mask_def)
    moreover have "trigger_if_set os READ ?p (set_interest i 0 s) = Inr s1"
      using trigger_if_set_skip(2) [OF h, of READ os] R b s1(1) by simp
    moreover have "trigger_if_set os WRITE ?p s1 = Inr s1"
      using trigger_if_set_skip(1) [OF s1(2), of WRITE os] by simp
    ultimately show ?thesis using that s1(2) s'(2-5) by fastforce
  next
    case W
    obtain s1 where s1: "trigger_dec os WRITE ?p (set_interest i 0 s) = Inr s1"
      "fdheap s1 ?p = Some (putContext WRITE empty_ctx ((fd_at s i)\<lparr>m_events := 0\<rparr>))"
      using fired_effect [OF inv os i nt b(10)] W b by metis
    then have "s1 = s'" using s'(1) W b by (simp add: trigger_mask_def)
    moreover have "trigger_if_set os READ ?p (set_interest i 0 s) = Inr (set_interest i 0 s)"
      using trigger_if_set_skip(1) [OF h, of READ os] W b by simp
    moreover have "trigger_if_set os WRITE ?p (set_interest i 0 s) = Inr s1"
      using trigger_if_set_skip(2) [OF h, of WRITE os] W b s1(1) by simp
    ultimately show ?thesis using that s1(2) s'(2-5) by fastforce
  next
    case RW
    obtain s1 s2 where t: "trigger_dec os READ ?p (set_interest i 0 s) = Inr s1"
      "trigger_dec os WRITE ?p s1 = Inr s2"
      "fdheap s1 ?p = Some (putContext READ empty_ctx ((fd_at s i)\<lparr>m_events := WRITE\<rparr>))"
      "fdheap s2 ?p = Some (putContext WRITE empty_ctx
         (putContext READ empty_ctx ((fd_at s i)\<lparr>m_events := 0\<rparr>)))"
      using fired_both_effect [OF inv os i nt RW] by metis
    then have "s2 = s'" using s'(1) RW b by (simp add: trigger_mask_def event_consts)
    moreover have "trigger_if_set os READ ?p (set_interest i 0 s) = Inr s1"
      using trigger_if_set_skip(2) [OF h, of READ os] RW b t(1) by simp
    moreover have "trigger_if_set os WRITE ?p s1 = Inr s2"
      using trigger_if_set_skip(2) [OF t(3), of WRITE os] b t(2) by simp
    ultimately show ?thesis using that t(4) s'(2-5) by fastforce
  qed
qed

lemma cancelAll_effect:
  assumes inv: "io_inv s" and os: "os_ok os" and i: "i < length (m_fdContexts s)"
  obtains (Unset) "m_events (fd_at s i) = 0" "cancelAll os (int i) s = Inr (False, s)"
  | (Fail) "m_events (fd_at s i) \<noteq> 0" "cancelAll os (int i) s = Inr (False, s)"
  | (Ok) s' where "m_events (fd_at s i) \<noteq> 0" "cancelAll os (int i) s = Inr (True, s')" "io_inv s'"
      "registered s' = drop_mask (int i) (m_events (fd_at s i)) s" "timers s' = timers s"
      "scheds s' = fire_mask (int i) (m_events (fd_at s i)) s"
proof -
  let ?m = "m_events (fd_at s i)" and ?p = "m_fdContexts s ! i"
  have ep: "epoll_documented os" using os by (simp add: os_ok_def)
  have in_range: "\<not> size_int s \<le> int i" "at_fd (int i) s = Inr ?p" "fdheap s ?p = Some (fd_at s i)"
    using i io_invD(1) [OF inv i] by (simp_all add: size_int_eq [OF inv] at_fd_eq)
  show ?thesis
  proof (cases "?m = 0")
    case True
    then show ?thesis using that(1) in_range by (simp add: cancelAll_def)
  next
    case False
    have op: "EPOLL_CTL_DEL = (if (0 :: u32) \<noteq> 0 then EPOLL_CTL_MOD else EPOLL_CTL_DEL)" by simp
    from inv ep i False op disjI1 [OF refl] show ?thesis
    proof (cases rule: lower_interest [where m' = 0 and ev = 0])
      case (Fail rt)
      then show ?thesis using that(2) False in_range by (simp add: cancelAll_def)
    next
      case (Ok k')
      obtain s1 s2 f where "trigger_if_set os READ ?p (set_interest i 0 s) = Inr s1"
        "trigger_if_set os WRITE ?p s1 = Inr s2" "fdheap s2 ?p = Some f" "m_events f = 0"
        "io_inv s2" "registered s2 = drop_mask (int i) ?m s" "timers s2 = timers s"
        "scheds s2 = fire_mask (int i) ?m s"
        using trigger_all_effect [OF inv os i Ok(3) False] by blast
      then show ?thesis using that(3) [of s2] Ok(1,2) False in_range by (simp add: cancelAll_def)
    qed
  qed
qed

section \<open>Adding a registration\<close>

lemma registered_grow:
  assumes inv: "io_inv s" and fr: "fresh_for new_at s" and n: "length (m_fdContexts s) \<le> n" "n < 2 ^ 31"
  shows "registered (contextResize new_at n s) = registered s"
proof
  fix x :: "int \<times> u32"
  have "reg_of (FdContext_new k) e = None" for k e by (simp add: reg_of_def FdContext_new_def NONE_def)
  then show "registered (contextResize new_at n s) x = registered s x"
    using io_inv_grow(2) [OF inv fr n, of "nat (fst x)"] n(1) by (cases x) (simp add: registered_def)
qed

lemma addEvent_lookup_effect:
  assumes inv: "io_inv s" and fr: "fresh_for new_at s" and fd: "0 \<le> fd" "fd < 2 ^ 30"
  obtains s1 where "addEvent_lookup new_at fd s = Inr (m_fdContexts s1 ! nat fd, s1)" "io_inv s1"
    "nat fd < length (m_fdContexts s1)" "registered s1 = registered s" "scheds s1 = scheds s"
    "timers s1 = timers s"
proof (cases "fd < size_int s")
  case True
  then have "nat fd < length (m_fdContexts s)" using size_int_eq [OF inv] fd by simp
  then show ?thesis using that [of s] True inv fd by (simp add: addEvent_lookup_def at_fd_eq)
next
  case False
  let ?n = "nat (fd * 3 div 2)"
  have "32 \<le> length (m_fdContexts s)" using inv by (simp add: io_inv_def Let_def)
  then have "int (length (m_fdContexts s)) \<le> fd" "32 \<le> fd" using False size_int_eq [OF inv] by simp_all
  moreover from \<open>32 \<le> fd\<close> have "fd < fd * 3 div 2" by linarith
  moreover have "fd * 3 div 2 < 2 ^ 31" using fd(2) by simp
  ultimately have n: "length (m_fdContexts s) \<le> ?n" "?n < 2 ^ 31" "nat fd < ?n" by simp_all
  let ?s1 = "contextResize new_at ?n s"
  have "addEvent_lookup new_at fd s = Inr (m_fdContexts ?s1 ! nat fd, ?s1)"
    using False fd n(3) by (simp add: addEvent_lookup_def addEvent_grow_def at_fd_eq Let_def)
  with that [of ?s1] io_inv_grow(1) [OF inv fr n(1,2)] registered_grow [OF inv fr n(1,2)] n(3)
  show ?thesis by simp
qed

text \<open>What a registration by this call consists of: the function, or else the calling fiber.\<close>

definition caller_task :: "callback option \<Rightarrow> nat \<Rightarrow> FiberAndThread" where
  "caller_task cb cur = (if cb \<noteq> None then ft_of_cb cb (- 1) else ft_of_fiber (Some cur) (- 1))"

lemma raise_interest:
  assumes inv: "io_inv s" and ep: "epoll_documented os" and i: "i < length (m_fdContexts s)"
    and op: "op = (if m_events (fd_at s i) \<noteq> 0 then EPOLL_CTL_MOD else EPOLL_CTL_ADD)"
    and m': "m' \<noteq> 0" and ev: "ev = EPOLLET OR m'"
  obtains (Fail) rt where "rt \<noteq> 0"
      "epoll_ctl os (kernel s) op (int i) (ev, DataPtr (m_fdContexts s ! i)) = (rt, kernel s)"
  | (Ok) k' where "epoll_ctl os (kernel s) op (int i) (ev, DataPtr (m_fdContexts s ! i)) = (0, k')"
      "s\<lparr>kernel := k'\<rparr> = set_interest i m' s" "int i \<noteq> fst (m_tickleFds s)"
  using ep
proof (cases rule: epoll_ctl_cases [where k = "kernel s" and op = op and fd = "int i"
      and ev = "(ev, DataPtr (m_fdContexts s ! i))"])
  case (Ok k')
  have "kernel s (fst (m_tickleFds s)) \<noteq> None" using inv by (simp add: io_inv_def Let_def)
  then have "int i \<noteq> fst (m_tickleFds s)"
    using io_invD(4) [OF inv i] Ok(2) op by auto
  moreover have "s\<lparr>kernel := k'\<rparr> = set_interest i m' s"
    using Ok(2,3) op m' ev
    by (cases "m_events (fd_at s i) = 0") (auto simp: set_interest_def interest_of_def)
  ultimately show ?thesis using that(2) Ok(1) by blast
qed (use that(1) in blast)

lemma addEvent_locked_effect:
  assumes inv: "io_inv s" and ep: "epoll_documented os" and i: "i < length (m_fdContexts s)"
    and e: "is_event e" and un: "registered s (int i, e) = None" and k: "k \<in> dom (scheds s)"
    and cur: "cb = None \<Longrightarrow> GetThis pm gt = Inr (cur, gt') \<and> state_of (fst gt') cur = EXEC"
      "cb \<noteq> None \<Longrightarrow> gt' = gt"
  obtains (Fail) "addEvent_locked os (Some k) pm (int i) e cb (m_fdContexts s ! i) (s, gt) = Inr (- 1, s, gt)"
  | (Ok) s' where
      "addEvent_locked os (Some k) pm (int i) e cb (m_fdContexts s ! i) (s, gt) = Inr (0, s', gt')"
      "io_inv s'" "registered s' = (registered s)((int i, e) \<mapsto> (k, caller_task cb cur))"
      "scheds s' = scheds s" "timers s' = timers s"
      "m_pendingEventCount s' = m_pendingEventCount s + 1"
proof -
  let ?f = "fd_at s i" and ?p = "m_fdContexts s ! i"
  let ?m = "m_events ?f"
  have un': "?m AND e = 0" using un e by (simp add: registered_at [OF i] reg_of_def split: if_splits)
  note ok = io_invD(3) [OF inv i]
  note b = bits_set [OF fd_ok_events [OF ok] e un']
  let ?op = "if ?m \<noteq> 0 then EPOLL_CTL_MOD else EPOLL_CTL_ADD"
  have emp: "ctx_of e ?f = empty_ctx" using fd_ok_ctx [OF ok e] un' by (simp add: ctx_ok_def)
  define c where "c = (if cb \<noteq> None then \<lparr>ec_scheduler = Some k, ec_fiber = None, ec_cb = cb\<rparr>
    else \<lparr>ec_scheduler = Some k, ec_fiber = Some cur, ec_cb = None\<rparr>)"
  let ?f' = "putContext e c (?f\<lparr>m_events := ?m OR e\<rparr>)"
  from inv ep i refl b(5) refl show ?thesis
  proof (cases rule: raise_interest)
    case (Fail rt)
    then show ?thesis
      using that(1) io_invD(1) [OF inv i] un' by (simp add: addEvent_locked_def Let_def)
  next
    case (Ok k')
    let ?s' = "put_fd ?p ?f' ((set_interest i (?m OR e) s)
      \<lparr>m_pendingEventCount := m_pendingEventCount s + 1\<rparr>)"
    have d: "addEvent_locked os (Some k) pm (int i) e cb ?p (s, gt) = Inr (0, ?s', gt')"
      using Ok(1,2) io_invD(1) [OF inv i] un' emp cur
      by (cases cb) (auto simp: addEvent_locked_def Let_def getContext_eq [OF e] c_def
          empty_ctx_def split: prod.splits)
    have h: "fdheap ?s' = (fdheap s)(?p \<mapsto> ?f')" and v: "m_fdContexts ?s' = m_fdContexts s"
      by (simp_all add: put_fd_def)
    have "ctx_ok (dom (scheds s)) ((?m OR e) AND e \<noteq> 0) c"
      using k b(3) by (auto simp: ctx_ok_def c_def)
    then have "fd_ok (dom (scheds s)) ?f'"
      using b(2,4) by (intro fd_ok_change [OF ok e]) simp_all
    then have inv': "io_inv ?s'"
      using io_invD(2) [OF inv i] b(1)
      by (intro io_inv_change [OF inv i Ok(3) _ _ h v]) (simp_all add: put_fd_def)
    have "task_of c = caller_task cb cur" "the (ec_scheduler c) = k"
      by (simp_all add: task_of_def c_def caller_task_def)
    then have reg: "reg_of ?f' e' = (if e' = e then Some (k, caller_task cb cur) else reg_of ?f e')" for e'
      using e b(3) b(4) [of e'] by (cases "e' = e"; cases "is_event e'") (simp_all add: reg_of_def ctx_of_put)
    have "registered ?s' x = ((registered s)((int i, e) \<mapsto> (k, caller_task cb cur))) x" for x
      using registered_change [OF inv i h v, of "fst x" "snd x"] registered_at [OF i] reg
      by (cases x) auto
    then have "registered ?s' = (registered s)((int i, e) \<mapsto> (k, caller_task cb cur))" ..
    with that(2) [OF d inv'] show ?thesis by (simp add: put_fd_def)
  qed
qed

section \<open>The system\<close>

text \<open>
  The kernel reports an event with the data of its interest list: the wake-up pipe, or the
  address of a context of the table.
\<close>

definition reportable :: "io \<Rightarrow> epoll_event \<Rightarrow> bool" where
  "reportable s ev \<longleftrightarrow>
     (case snd ev of DataFd fd \<Rightarrow> fd = fst (m_tickleFds s) | DataPtr p \<Rightarrow> p \<in> set (m_fdContexts s))"

definition io_init :: "os \<Rightarrow> io \<Rightarrow> bool" where
  "io_init os s \<longleftrightarrow> os_ok os \<and>
     (\<exists>new_at tids epfd prt fds frt self sc scs now h.
        inj new_at \<and> range new_at \<inter> dom h = {} \<and>
        IOManager_new os new_at tids epfd prt fds frt self sc scs now h = Inr s)"

text \<open>
  The steps of any thread. Descriptors are below \<open>2 ^ 30\<close>, new contexts get unused addresses, and
  events are added by threads of a live scheduler; the queues and counters of the schedulers and
  the timers may change in any way in between.
\<close>

inductive io_step :: "os \<Rightarrow> io \<Rightarrow> io \<Rightarrow> bool" for os :: os where
  io_add: "fresh_for new_at s \<Longrightarrow> 0 \<le> fd \<Longrightarrow> fd < 2 ^ 30 \<Longrightarrow> is_event e \<Longrightarrow> k \<in> dom (scheds s) \<Longrightarrow>
    addEvent os new_at (Some k) pm fd e cb (s, gt) = Inr (rt, s', gt') \<Longrightarrow> io_step os s s'"
| io_del: "0 \<le> fd \<Longrightarrow> is_event e \<Longrightarrow> delEvent os fd e s = Inr (b, s') \<Longrightarrow> io_step os s s'"
| io_cancel: "0 \<le> fd \<Longrightarrow> is_event e \<Longrightarrow> cancelEvent os fd e s = Inr (b, s') \<Longrightarrow> io_step os s s'"
| io_cancelAll: "0 \<le> fd \<Longrightarrow> cancelAll os fd s = Inr (b, s') \<Longrightarrow> io_step os s s'"
| io_idle: "\<forall>evs\<in>set waits. \<forall>ev\<in>set (case evs of None \<Rightarrow> [] | Some l \<Rightarrow> l). reportable s ev \<Longrightarrow>
    idle_turn os now waits q now2 s = Inr (r, s') \<Longrightarrow> io_step os s s'"
| io_queues: "dom scs = dom (scheds s) \<Longrightarrow> io_step os s (s\<lparr>scheds := scs\<rparr>)"
| io_timers: "io_step os s (s\<lparr>timers := tm\<rparr>)"
| io_wake: "io_tickle os s = Inr s' \<Longrightarrow> io_step os s s'"

lemma drop_range:
  assumes "io_inv s" and "0 \<le> fd" and "\<not> nat fd < length (m_fdContexts s)"
  shows "delEvent os fd e s = Inr (False, s)" "cancelEvent os fd e s = Inr (False, s)"
    "cancelAll os fd s = Inr (False, s)"
proof -
  have "size_int s \<le> fd" using assms(2,3) size_int_eq [OF assms(1)] by linarith
  then show "delEvent os fd e s = Inr (False, s)" "cancelEvent os fd e s = Inr (False, s)"
    "cancelAll os fd s = Inr (False, s)"
    by (simp_all add: delEvent_def cancelEvent_def dropEvent_def cancelAll_def)
qed

lemma addEvent_inv:
  assumes inv: "io_inv s" and ep: "epoll_documented os" and fr: "fresh_for new_at s"
    and fd: "0 \<le> fd" "fd < 2 ^ 30" and e: "is_event e" and k: "k \<in> dom (scheds s)"
    and r: "addEvent os new_at (Some k) pm fd e cb (s, gt) = Inr (rt, s', gt')"
  shows "io_inv s'"
proof -
  obtain s1 where s1: "addEvent_lookup new_at fd s = Inr (m_fdContexts s1 ! nat fd, s1)" "io_inv s1"
    "nat fd < length (m_fdContexts s1)" "scheds s1 = scheds s"
    using addEvent_lookup_effect [OF inv fr fd] by blast
  let ?p = "m_fdContexts s1 ! nat fd" and ?f = "fd_at s1 (nat fd)"
  have l: "addEvent_locked os (Some k) pm (int (nat fd)) e cb ?p (s1, gt) = Inr (rt, s', gt')"
    using r s1(1) fd(1) by (simp add: addEvent_def)
  have un: "m_events ?f AND e = 0"
    using l io_invD(1) [OF s1(2,3)]
    by (simp add: addEvent_locked_def DUAN_ASSERT_def split: if_splits)
  then have un': "registered s1 (int (nat fd), e) = None"
    unfolding registered_at [OF s1(3)] by (simp add: reg_of_def)
  have k1: "k \<in> dom (scheds s1)" using k s1(4) by simp
  show ?thesis
  proof (cases "\<exists>cur gt2. cb = None \<longrightarrow> GetThis pm gt = Inr (cur, gt2) \<and> state_of (fst gt2) cur = EXEC")
    case True
    then obtain cur gt2 where c: "cb = None \<Longrightarrow> GetThis pm gt = Inr (cur, gt2) \<and> state_of (fst gt2) cur = EXEC"
      by blast
    have "\<exists>gt2. (cb = None \<longrightarrow> GetThis pm gt = Inr (cur, gt2) \<and> state_of (fst gt2) cur = EXEC) \<and>
        (cb \<noteq> None \<longrightarrow> gt2 = gt)"
      using c by (cases cb) auto
    then obtain gt3 where g3: "cb = None \<Longrightarrow> GetThis pm gt = Inr (cur, gt3) \<and> state_of (fst gt3) cur = EXEC"
      "cb \<noteq> None \<Longrightarrow> gt3 = gt" by blast
    show ?thesis
      using addEvent_locked_effect [OF s1(2) ep s1(3) e un' k1 g3] l s1(2) by fastforce
  next
    case False
    then have none: "cb = None"
      "\<not> (\<exists>cur g t. GetThis pm gt = Inr (cur, g, t) \<and> state_of g cur = EXEC)" by auto
    from s1(2) ep s1(3) refl bits_set(5) [OF fd_ok_events [OF io_invD(3) [OF s1(2,3)]] e un] refl
    show ?thesis
    proof (cases rule: raise_interest)
      case (Fail rt2)
      then show ?thesis using l io_invD(1) [OF s1(2,3)] un s1(2)
        by (auto simp: addEvent_locked_def Let_def)
    next
      case (Ok k')
      then show ?thesis using l io_invD(1) [OF s1(2,3)] un none
        by (auto simp: addEvent_locked_def Let_def res_iffs)
    qed
  qed
qed

lemma io_tickle_frame:
  assumes "io_tickle os s = Inr s'"
  shows "\<exists>b. s' = s\<lparr>pipe_bytes := b\<rparr>"
  using assms pipe_unchanged [of s]
  by (auto simp: io_tickle_def res_iffs split: if_splits)

lemma io_inv_timers: "io_inv s \<Longrightarrow> io_inv (s\<lparr>timers := tm\<rparr>)"
  by (erule io_inv_frame) simp_all

lemma io_inv_tickle:
  assumes "io_inv s" and "io_tickle os s = Inr s'"
  shows "io_inv s'"
proof -
  obtain b where "s' = s\<lparr>pipe_bytes := b\<rparr>" using io_tickle_frame [OF assms(2)] by blast
  then show ?thesis by (intro io_inv_frame [OF assms(1)]) simp_all
qed

lemma io_schedule_range_frame:
  assumes "io_schedule_range os cbs s = Inr s'"
  shows "\<exists>scs b. s' = s\<lparr>scheds := scs, pipe_bytes := b\<rparr> \<and> dom scs = dom (scheds s)"
proof -
  obtain sc sc' where sc: "scheds s (io_self s) = Some sc"
    and d: "s' = s\<lparr>scheds := (scheds s)(io_self s \<mapsto> sc')\<rparr> \<or>
      io_tickle os (s\<lparr>scheds := (scheds s)(io_self s \<mapsto> sc')\<rparr>) = Inr s'"
    using assms by (auto simp: io_schedule_range_def res_iffs Let_def case_prod_beta split: if_splits)
  then have "\<exists>b. s' = s\<lparr>scheds := (scheds s)(io_self s \<mapsto> sc'), pipe_bytes := b\<rparr>"
    using io_tickle_frame pipe_unchanged by fastforce
  moreover have "dom ((scheds s)(io_self s \<mapsto> sc')) = dom (scheds s)" using sc by auto
  ultimately show ?thesis by blast
qed

lemma io_schedule_frame:
  assumes "io_schedule os k ft s = Inr s'"
  shows "m_fdContexts s' = m_fdContexts s \<and> m_tickleFds s' = m_tickleFds s"
  using assms
  by (auto simp: io_schedule_def res_iffs Let_def case_prod_beta split: if_splits dest!: io_tickle_frame)

lemma trigger_dec_frame:
  assumes "trigger_dec os e p s = Inr s'"
  shows "m_fdContexts s' = m_fdContexts s \<and> m_tickleFds s' = m_tickleFds s"
  using assms
  by (auto simp: trigger_dec_def triggerEvent_def res_iffs Let_def put_fd_def split: if_splits
      dest!: io_schedule_frame)

lemma handle_ptr_frame:
  assumes "handle_ptr os evs p s = Inr s'"
  shows "m_fdContexts s' = m_fdContexts s \<and> m_tickleFds s' = m_tickleFds s"
  using assms
  by (auto simp: handle_ptr_def res_iffs Let_def split: if_splits prod.splits dest!: trigger_dec_frame)

lemma handle_event_inv:
  assumes inv: "io_inv s" and os: "os_ok os" and r: "reportable s ev" and h: "handle_event os ev s = Inr s'"
  shows "io_inv s' \<and> m_fdContexts s' = m_fdContexts s \<and> m_tickleFds s' = m_tickleFds s"
proof (cases "snd ev")
  case (DataFd fd)
  then have "s' = s\<lparr>pipe_bytes := 0\<rparr>" using r h by (simp add: reportable_def handle_event_def)
  then show ?thesis by (auto intro!: io_inv_frame [OF inv])
next
  case (DataPtr p)
  then obtain i where i: "i < length (m_fdContexts s)" "p = m_fdContexts s ! i"
    using r by (auto simp: reportable_def in_set_conv_nth)
  have hp: "handle_ptr os (fst ev) p s = Inr s'" using h DataPtr by (simp add: handle_event_def)
  have "io_inv s'"
    using handle_ptr_effect [OF inv os i(1), of "fst ev"] hp i(2) inv by fastforce
  moreover have "m_fdContexts s' = m_fdContexts s \<and> m_tickleFds s' = m_tickleFds s"
    using hp by (rule handle_ptr_frame)
  ultimately show ?thesis by simp
qed

lemma reportable_cong:
  "m_fdContexts s' = m_fdContexts s \<Longrightarrow> m_tickleFds s' = m_tickleFds s \<Longrightarrow> reportable s' = reportable s"
  by (simp add: reportable_def fun_eq_iff split: epoll_data.split)

lemma handle_events_inv:
  assumes "io_inv s" and "os_ok os" and "\<forall>ev\<in>set evs. reportable s ev" and "handle_events os evs s = Inr s'"
  shows "io_inv s'"
  using assms
proof (induction evs arbitrary: s)
  case (Cons ev evs)
  then obtain s1 where s1: "handle_event os ev s = Inr s1" "handle_events os evs s1 = Inr s'"
    by (auto simp: res_iffs)
  with handle_event_inv [OF Cons.prems(1,2) _ s1(1)] Cons.prems(3)
  have "io_inv s1" "m_fdContexts s1 = m_fdContexts s" "m_tickleFds s1 = m_tickleFds s" by auto
  moreover from this have "reportable s1 = reportable s"  by (intro reportable_cong)
  ultimately show ?case using Cons.IH [of s1] Cons.prems(2,3) s1(2) by simp
qed simp

lemma wait_events_elem: "wait_events next waits = Some (t, evs) \<Longrightarrow> Some evs \<in> set waits"
  by (induction "next" waits rule: wait_events.induct) auto

lemma stopping_timeoutD:
  assumes "stopping_timeout now s = Inr (b, next, s1)"
  shows "s1 = s\<lparr>timers := snd (getNextTimer now (timers s))\<rparr>" "next = fst (getNextTimer now (timers s))"
  using assms by (auto simp: stopping_timeout_def res_iffs Let_def case_prod_beta)

lemma idle_turn_inv:
  assumes inv: "io_inv s" and os: "os_ok os"
    and rep: "\<forall>evs\<in>set waits. \<forall>ev\<in>set (case evs of None \<Rightarrow> [] | Some l \<Rightarrow> l). reportable s ev"
    and r: "idle_turn os now waits q now2 s = Inr (res, s')"
  shows "io_inv s'"
proof -
  obtain b nx s1 where 1: "stopping_timeout now s = Inr (b, nx, s1)"
    using r by (auto simp: idle_turn_def res_iffs)
  from stopping_timeoutD(1) [OF this] have s1: "s1 = s\<lparr>timers := snd (getNextTimer now (timers s))\<rparr>" .
  then have inv1: "io_inv s1" using io_inv_timers [OF inv] by simp
  show ?thesis
  proof (cases "b \<or> wait_events nx waits = None")
    case True
    then show ?thesis using r 1 inv1 by (cases b) (auto simp: idle_turn_def)
  next
    case False
    then obtain t evs where w: "\<not> b" "wait_events nx waits = Some (t, evs)" by auto
    with r 1 obtain cbs tm s3 where 3: "(if cbs \<noteq> [] then io_schedule_range os cbs (s1\<lparr>timers := tm\<rparr>)
        else Inr (s1\<lparr>timers := tm\<rparr>)) = Inr s3" "handle_events os evs s3 = Inr s'"
      by (auto simp: idle_turn_def res_iffs Let_def)
    have "\<exists>scs b. s3 = s1\<lparr>timers := tm, scheds := scs, pipe_bytes := b\<rparr> \<and> dom scs = dom (scheds s)"
    proof (cases "cbs = []")
      case True
      then have "s3 = s1\<lparr>timers := tm, scheds := scheds s, pipe_bytes := pipe_bytes s\<rparr>"
        using 3(1) s1 by auto
      then show ?thesis by blast
    next
      case False
      then show ?thesis using io_schedule_range_frame [of os cbs "s1\<lparr>timers := tm\<rparr>" s3] 3(1) s1 by auto
    qed
    then obtain scs pb where s3: "s3 = s1\<lparr>timers := tm, scheds := scs, pipe_bytes := pb\<rparr>"
      "dom scs = dom (scheds s)" by blast
    have "io_inv s3" using s3 s1 by (intro io_inv_frame [OF inv]) simp_all
    moreover have "reportable s3 = reportable s"
      using s3(1) s1 by (intro reportable_cong) simp_all
    then have "\<forall>ev\<in>set evs. reportable s3 ev"
      using bspec [OF rep wait_events_elem [OF w(2)]] by simp
    ultimately show ?thesis using handle_events_inv [OF _ os _ 3(2)] by blast
  qed
qed

lemma IOManager_new_inv:
  assumes "os_ok os" and "inj new_at" and "range new_at \<inter> dom h = {}"
    and r: "IOManager_new os new_at tids epfd prt fds frt self sc scs now h = Inr s"
  shows "io_inv s" and "registered s = Map.empty"
proof -
  have ep: "epoll_documented os" using assms(1) by (simp add: os_ok_def)
  let ?ev = "(EPOLLIN OR EPOLLET, DataFd (fst fds))"
  define s0 where "s0 k = \<lparr>io_self = self, scheds = scs(self \<mapsto> sc), timers = TimerManager_new now,
    m_tickleFds = fds, m_pendingEventCount = 0, fdheap = h, m_fdContexts = [], kernel = k, pipe_bytes = 0\<rparr>"
    for k
  obtain k sc1 where k: "epoll_ctl os Map.empty EPOLL_CTL_ADD (fst fds) ?ev = (0, k)"
    and s: "s = (contextResize new_at 32 (s0 k))\<lparr>scheds := (scs(self \<mapsto> sc1))\<rparr>"
    using r by (auto simp: IOManager_new_def res_iffs Let_def case_prod_beta s0_def prod_eq_iff)
  have kv: "k = [fst fds \<mapsto> ?ev]"
    using ep k by (cases rule: epoll_ctl_cases [where k = Map.empty and op = EPOLL_CTL_ADD
      and fd = "fst fds" and ev = ?ev]) auto
  let ?s1 = "contextResize new_at 32 (s0 k)"
  have fr: "fresh_for new_at (s0 k)" using assms(2,3) by (simp add: fresh_for_def s0_def)
  have at: "fdheap ?s1 (m_fdContexts ?s1 ! i) = Some (FdContext_new (int i))" if "i < 32" for i
    using contextResize_at(2) [OF fr, of 32 i] that by (simp add: s0_def)
  have new: "fc_fd (FdContext_new j) = j" "m_events (FdContext_new j) = 0" "fd_ok S (FdContext_new j)"
    for j S
    by (simp_all add: FdContext_new_def NONE_def fd_ok_def)
  have len: "length (m_fdContexts s) = 32" by (simp add: s)
  have at': "fd_at s i = FdContext_new (int i)" "fdheap s (m_fdContexts s ! i) \<noteq> None" if "i < 32" for i
    using at [OF that] by (simp_all add: s fd_at_def)
  have fields: "m_tickleFds s = fds" "io_self s = self" "self \<in> dom (scheds s)"
    "m_pendingEventCount s = 0" "kernel s = [fst fds \<mapsto> ?ev]"
    using kv by (simp_all add: s s0_def)
  have "(\<Sum>i<32. bits (m_events (fd_at s i))) = 0" by (simp add: at' new)
  then have "m_pendingEventCount s = of_nat (\<Sum>i<32. bits (m_events (fd_at s i)))"
    using fields(4) by simp
  then show "io_inv s"
    using fields(3) unfolding io_inv_def Let_def len fields by (auto simp: at' new interest_of_def)
  show "registered s = Map.empty"
    by (auto simp: fun_eq_iff registered_def len at' new reg_of_def)
qed

lemma io_step_inv:
  assumes "io_step os s s'" and os: "os_ok os" and inv: "io_inv s"
  shows "io_inv s'"
proof -
  have ep: "epoll_documented os" using os by (simp add: os_ok_def)
  from assms(1) show ?thesis
  proof cases
    case (io_add new_at fd e k pm cb gt rt gt')
    then show ?thesis using addEvent_inv [OF inv ep] by blast
  next
    case (io_del fd e b)
    show ?thesis
    proof (cases "nat fd < length (m_fdContexts s)")
      case True
      from delEvent_effect [OF inv ep True io_del(2)] io_del(1,3) inv show ?thesis by fastforce
    next
      case False
      then show ?thesis using drop_range(1) [OF inv io_del(1)] io_del(3) inv by simp
    qed
  next
    case (io_cancel fd e b)
    show ?thesis
    proof (cases "nat fd < length (m_fdContexts s)")
      case True
      from cancelEvent_effect [OF inv os True io_cancel(2)] io_cancel(1,3) inv show ?thesis by fastforce
    next
      case False
      then show ?thesis using drop_range(2) [OF inv io_cancel(1)] io_cancel(3) inv by simp
    qed
  next
    case (io_cancelAll fd b)
    show ?thesis
    proof (cases "nat fd < length (m_fdContexts s)")
      case True
      from cancelAll_effect [OF inv os True] io_cancelAll inv show ?thesis by fastforce
    next
      case False
      then show ?thesis using drop_range(3) [OF inv io_cancelAll(1)] io_cancelAll(2) inv by simp
    qed
  next
    case (io_idle waits now q now2 r)
    then show ?thesis using idle_turn_inv [OF inv os] by blast
  next
    case (io_queues scs)
    then show ?thesis by (simp add: io_inv_frame [OF inv])
  next
    case (io_timers tm)
    then show ?thesis using io_inv_timers [OF inv] by simp
  next
    case io_wake
    then show ?thesis using io_inv_tickle [OF inv] by blast
  qed
qed

interpretation io_system: inductive_invariant "io_init os" "io_step os" "\<lambda>s. os_ok os \<and> io_inv s" for os
proof unfold_locales
  show "os_ok os \<and> io_inv s" if "io_init os s" for s
    using that IOManager_new_inv(1) by (auto simp: io_init_def)
qed (auto intro: io_step_inv)

end
