(* ===== verification/Duan_IO_Properties.thy ===== *)
theory Duan_IO_Properties
  imports Duan_IOManager
begin

unbundle bit_operations_syntax

text \<open>
  What the I/O manager guarantees, over the table of registrations it stands for: its counter and
  the kernel's interest list agree with the table in every reachable state, each operation changes
  the table as its name says, an event wakes its task once, and the idle loop waits for the right
  time. The theorems whose names end in \<open>aborts\<close>, \<open>race\<close>, \<open>unscheduled\<close> and \<open>not_woken\<close> are about inputs
  on which the code does not do this.
\<close>

section \<open>A concrete kernel and manager\<close>

definition demo_ctl :: "interest \<Rightarrow> ctl_op \<Rightarrow> int \<Rightarrow> u32 \<times> epoll_data \<Rightarrow> int \<times> interest" where
  "demo_ctl k op fd ev =
     (case op of
        EPOLL_CTL_ADD \<Rightarrow> if k fd = None then (0, k(fd \<mapsto> ev)) else (- 1, k)
      | EPOLL_CTL_MOD \<Rightarrow> if k fd \<noteq> None then (0, k(fd \<mapsto> ev)) else (- 1, k)
      | EPOLL_CTL_DEL \<Rightarrow> if k fd \<noteq> None then (0, k(fd := None)) else (- 1, k))"

definition demo_os :: os where
  "demo_os = \<lparr>epoll_ctl = demo_ctl, write_T = 1\<rparr>"

lemma demo_os_ok: "os_ok demo_os"
  by (auto simp: os_ok_def epoll_documented_def demo_os_def demo_ctl_def split: ctl_op.splits if_splits)

definition demo_io :: io where
  "demo_io =
     (case IOManager_new demo_os (\<lambda>i. i) (\<lambda>k. 0) 3 0 (40, 41) 0 7 demo_sched Map.empty 0 Map.empty of
        Inr s \<Rightarrow> s)"

lemma demo_io_new:
  "IOManager_new demo_os (\<lambda>i. i) (\<lambda>k. 0) 3 0 (40, 41) 0 7 demo_sched Map.empty 0 Map.empty = Inr demo_io"
  by (simp add: demo_io_def IOManager_new_def demo_os_def demo_ctl_def start_def demo_sched_def Let_def)

lemma demo_io_reach: "reach (io_init demo_os) (io_step demo_os) demo_io"
proof (rule reach.reach_init)
  show "io_init demo_os demo_io"
    unfolding io_init_def
    using demo_os_ok demo_io_new by (intro conjI exI [of _ "\<lambda>i. i"]) (auto intro!: exI)
qed

lemma demo_io_inv: "io_inv demo_io" "registered demo_io = Map.empty"
  using IOManager_new_inv [OF demo_os_ok _ _ demo_io_new] by auto

lemma demo_io_eq:
  "demo_io = (contextResize (\<lambda>i. i) 32
     \<lparr>io_self = 7, scheds = [7 \<mapsto> demo_sched], timers = TimerManager_new 0, m_tickleFds = (40, 41),
      m_pendingEventCount = 0, fdheap = Map.empty, m_fdContexts = [],
      kernel = [40 \<mapsto> (EPOLLIN OR EPOLLET, DataFd 40)], pipe_bytes = 0\<rparr>)
     \<lparr>scheds := [7 \<mapsto> demo_sched\<lparr>m_stopping := False, m_threads := [0], m_threadIds := [0]\<rparr>]\<rparr>"
  by (simp add: demo_io_def IOManager_new_def demo_os_def demo_ctl_def start_def demo_sched_def Let_def)

lemma demo_io_simps [simp]:
  "scheds demo_io = [7 \<mapsto> demo_sched\<lparr>m_stopping := False, m_threads := [0], m_threadIds := [0]\<rparr>]"
  "io_self demo_io = 7" "m_tickleFds demo_io = (40, 41)"
  "m_fdContexts demo_io = [0..<32]" "timers demo_io = TimerManager_new 0"
  by (simp_all add: demo_io_eq contextResize_def Let_def)

lemma demo_io_fresh: "fresh_for (\<lambda>i. i + 100) demo_io"
proof -
  have "fdheap demo_io p = None" if "32 \<le> p" for p
    using fold_new_objects [of "\<lambda>i. i" "[0..<32]" Map.empty p] that
    by (simp add: demo_io_eq contextResize_def Let_def)
  then show ?thesis by (auto simp: fresh_for_def inj_def)
qed

lemma demo_io_kernel: "kernel demo_io = [40 \<mapsto> (EPOLLIN OR EPOLLET, DataFd 40)]"
  by (simp add: demo_io_eq)

lemma demo_fd: "fdheap demo_io 5 = Some (FdContext_new 5)"
  using contextResize_at(2) [of "\<lambda>i. i"
      "\<lparr>io_self = 7, scheds = [7 \<mapsto> demo_sched], timers = TimerManager_new 0, m_tickleFds = (40, 41),
      m_pendingEventCount = 0, fdheap = Map.empty, m_fdContexts = [],
      kernel = [40 \<mapsto> (EPOLLIN OR EPOLLET, DataFd 40)], pipe_bytes = 0\<rparr>" 32 5]
  by (simp add: demo_io_eq fresh_for_def) (simp add: contextResize_def Let_def)

text \<open>The same manager with one registration: descriptor 5, READ, the function 3.\<close>

definition demo_gt :: fstate where
  "demo_gt = (demo_env2, demo_tls)"

definition demo_io5 :: io where
  "demo_io5 = put_fd 5
     (putContext READ \<lparr>ec_scheduler = Some 7, ec_fiber = None, ec_cb = Some (Fn 3)\<rparr>
       ((FdContext_new 5)\<lparr>m_events := READ\<rparr>))
     (demo_io\<lparr>kernel := (kernel demo_io)(5 \<mapsto> (EPOLLET OR READ, DataPtr 5)), m_pendingEventCount := 1\<rparr>)"

lemma demo_add:
  "addEvent demo_os (\<lambda>i. i + 100) (Some 7) 0 5 READ (Some (Fn 3)) (demo_io, demo_gt) =
     Inr (0, demo_io5, demo_gt)"
proof -
  have "size_int demo_io = 32" using size_int_eq [OF demo_io_inv(1)] by simp
  moreover have "kernel demo_io = [40 \<mapsto> (EPOLLIN OR EPOLLET, DataFd 40)]" by (simp add: demo_io_eq)
  moreover have "m_pendingEventCount demo_io = 0" by (simp add: demo_io_eq)
  ultimately show ?thesis
    by (simp add: addEvent_def addEvent_lookup_def at_fd_def addEvent_locked_def demo_fd FdContext_new_def
        NONE_def demo_os_def demo_ctl_def demo_io5_def getContext_def empty_ctx_def Let_def READ_def)
qed

lemma demo_io5_reach: "reach (io_init demo_os) (io_step demo_os) demo_io5"
  by (rule reach.reach_step [OF demo_io_reach], rule io_add [OF demo_io_fresh, of 5 READ 7 demo_os 0 "Some (Fn 3)"])
    (use demo_add in \<open>auto simp: is_event_def\<close>)

lemma demo_io5_simps [simp]:
  "m_fdContexts demo_io5 = [0..<32]" "scheds demo_io5 = scheds demo_io" "io_self demo_io5 = 7"
  "kernel demo_io5 = [40 \<mapsto> (EPOLLIN OR EPOLLET, DataFd 40), 5 \<mapsto> (EPOLLET OR READ, DataPtr 5)]"
  "m_tickleFds demo_io5 = (40, 41)" "m_pendingEventCount demo_io5 = 1"
  "fdheap demo_io5 5 = Some
     (putContext READ \<lparr>ec_scheduler = Some 7, ec_fiber = None, ec_cb = Some (Fn 3)\<rparr>
       ((FdContext_new 5)\<lparr>m_events := READ\<rparr>))"
  by (simp_all add: demo_io5_def put_fd_def demo_io_kernel)

lemma demo_io5_inv: "io_inv demo_io5"
  using io_system.inv_reach [OF demo_io5_reach] by simp

lemma demo_io5_registered: "registered demo_io5 = [(5, READ) \<mapsto> (7, ft_of_cb (Some (Fn 3)) (- 1))]"
proof
  fix x
  have "registered demo_io5 (fd, e) = (if fd = int 5 then
      reg_of (putContext READ \<lparr>ec_scheduler = Some 7, ec_fiber = None, ec_cb = Some (Fn 3)\<rparr>
       ((FdContext_new 5)\<lparr>m_events := READ\<rparr>)) e else registered demo_io (fd, e))" for fd e
    by (rule registered_change [OF demo_io_inv(1)]) (simp_all add: demo_io5_def put_fd_def)
  from this [of "fst x" "snd x"]
  show "registered demo_io5 x = [(5, READ) \<mapsto> (7, ft_of_cb (Some (Fn 3)) (- 1))] x"
    by (cases x) (auto simp: demo_io_inv(2) reg_of_def is_event_def ctx_of_def putContext_def task_of_def
        event_consts)
qed

text \<open>The kernel of the example accepts the running fiber's registration for descriptor 5, whatever else the manager holds.\<close>

lemma demo_accepts:
  assumes "GetThis 0 gt = Inr (cur, gt)" and "state_of (fst gt) cur = EXEC" and "dom scs = {7}" and "is_event e"
  shows "\<exists>s'. addEvent demo_os (\<lambda>i. i + 100) (Some 7) 0 5 e None
    (demo_io\<lparr>scheds := scs, timers := tm, pipe_bytes := b\<rparr>, gt) = Inr (0, s', gt) \<and> m_fdContexts s' = [0..<32]"
proof -
  let ?s = "demo_io\<lparr>scheds := scs, timers := tm, pipe_bytes := b\<rparr>"
  have "io_inv ?s" using demo_io_inv(1) by (rule io_inv_frame) (simp_all add: assms(3))
  then have "size_int ?s = 32" by (simp add: size_int_eq)
  moreover have "kernel ?s 5 = None" by (simp add: demo_io_kernel)
  moreover obtain sc where "scs 7 = Some sc" using assms(3) by blast
  moreover have "e = READ \<or> e = WRITE" using assms(4) by (simp add: is_event_def)
  ultimately show ?thesis
    using assms(1,2)
    by (cases "e = READ") (simp_all add: case_prod_beta addEvent_def addEvent_lookup_def at_fd_def addEvent_locked_def demo_fd FdContext_new_def
        NONE_def demo_os_def demo_ctl_def getContext_def empty_ctx_def Let_def READ_def WRITE_def put_fd_def)
qed

lemma demo_drop:
  "\<exists>s'. delEvent demo_os 5 READ demo_io5 = Inr (True, s')"
  "\<exists>s'. cancelEvent demo_os 5 READ demo_io5 = Inr (True, s')"
proof -
  have sz: "size_int demo_io5 = 32" using size_int_eq [OF demo_io5_inv] by simp
  show "\<exists>s'. delEvent demo_os 5 READ demo_io5 = Inr (True, s')"
    by (simp add: delEvent_def dropEvent_def sz at_fd_def demo_os_def demo_ctl_def getContext_def Let_def
        READ_def)
  show "\<exists>s'. cancelEvent demo_os 5 READ demo_io5 = Inr (True, s')"
    by (simp add: cancelEvent_def dropEvent_def sz at_fd_def demo_os_def demo_ctl_def getContext_def Let_def
        READ_def trigger_dec_def triggerEvent_def putContext_def io_schedule_def io_tickle_def put_fd_def
        demo_sched_def schedule_def scheduleNoLock_def ft_valid_def ft_of_cb_def hasIdleThreads_def)
qed

section \<open>Counting registrations\<close>

lemma card_registered:
  assumes "io_inv s"
  shows "card (dom (registered s)) = (\<Sum>i<length (m_fdContexts s). bits (m_events (fd_at s i)))"
    and "finite (dom (registered s))"
proof -
  let ?n = "length (m_fdContexts s)"
  define E where "E i = {e. is_event e \<and> m_events (fd_at s i) AND e \<noteq> 0}" for i
  have E: "finite (E i) \<and> card (E i) = bits (m_events (fd_at s i))" for i
  proof -
    have "E i = set (filter (\<lambda>e. m_events (fd_at s i) AND e \<noteq> 0) [READ, WRITE])"
      by (auto simp: E_def is_event_def)
    moreover have "card (set (filter (\<lambda>e. m AND e \<noteq> 0) [READ, WRITE])) = bits m" for m
      by (simp add: bits_def)
    ultimately show ?thesis by simp
  qed
  have dom: "dom (registered s) = (\<lambda>(i, e). (int i, e)) ` (SIGMA i:{..<?n}. E i)"
  proof (intro set_eqI iffI)
    fix x assume "x \<in> dom (registered s)"
    then obtain y where y: "registered s x = Some y" by blast
    obtain fd e where x: "x = (fd, e)" by (cases x)
    have "0 \<le> fd" "nat fd < ?n" "e \<in> E (nat fd)"
      using y x by (auto simp: registered_def reg_of_def E_def split: if_splits)
    then show "x \<in> (\<lambda>(i, e). (int i, e)) ` (SIGMA i:{..<?n}. E i)"
      using x by (intro image_eqI [of _ _ "(nat fd, e)"]) auto
  next
    fix x assume "x \<in> (\<lambda>(i, e). (int i, e)) ` (SIGMA i:{..<?n}. E i)"
    then show "x \<in> dom (registered s)" by (auto simp: registered_at reg_of_def E_def)
  qed
  have "inj_on (\<lambda>(i, e). (int i, e)) (SIGMA i:{..<?n}. E i)" by (auto simp: inj_on_def)
  then have "card (dom (registered s)) = card (SIGMA i:{..<?n}. E i)" using dom card_image by metis
  also have "\<dots> = (\<Sum>i<?n. bits (m_events (fd_at s i)))" using E by (simp add: card_SigmaI)
  finally show "card (dom (registered s)) = (\<Sum>i<?n. bits (m_events (fd_at s i)))" .
  show "finite (dom (registered s))" unfolding dom using E by blast
qed

text \<open>The mask of a descriptor, from the table.\<close>

definition reg_mask :: "io \<Rightarrow> int \<Rightarrow> u32" where
  "reg_mask s fd = (if registered s (fd, READ) \<noteq> None then READ else 0) OR
     (if registered s (fd, WRITE) \<noteq> None then WRITE else 0)"

lemma reg_mask_at:
  assumes inv: "io_inv s" and i: "i < length (m_fdContexts s)"
  shows "reg_mask s (int i) = m_events (fd_at s i)"
proof -
  have "m_events (fd_at s i) \<in> {0, READ, WRITE, READ OR WRITE}"
    using fd_ok_events [OF io_invD(3) [OF inv i]] .
  then show ?thesis
    by (cases rule: events_cases) (simp_all add: reg_mask_def registered_at [OF i] reg_of_def is_event_def event_consts)
qed

section \<open>Properties\<close>









text \<open>
  \<^verbatim>\<open>cancelAll\<close> on a reachable manager always returns, so its final assertion holds. It returns
  false and changes nothing when the descriptor has no registration (or the kernel refuses);
  otherwise every registration of the descriptor ends and its tasks are queued, READ before WRITE.
\<close>

theorem cancelAll_correct:
  assumes "reach (io_init os) (io_step os) s" and "0 \<le> fd"
  shows "\<exists>b s'. cancelAll os fd s = Inr (b, s') \<and>
    (if b then reg_mask s fd \<noteq> 0 \<and> registered s' = drop_mask fd (READ OR WRITE) s \<and>
       scheds s' = fire_mask fd (reg_mask s fd) s
     else s' = s)"
proof -
  have inv: "io_inv s" and os: "os_ok os" using io_system.inv_reach [OF assms(1)] by simp_all
  show ?thesis
  proof (cases "nat fd < length (m_fdContexts s)")
    case True
    have fd: "int (nat fd) = fd" using assms(2) by simp
    note m = reg_mask_at [OF inv True, unfolded fd]
    have "drop_mask fd (reg_mask s fd) s = drop_mask fd (READ OR WRITE) s"
    proof
      fix x :: "int \<times> u32"
      have "registered s (fd, e) = None" if "(reg_mask s fd AND e = 0) \<noteq> ((READ OR WRITE) AND e = 0)" for e
      proof (cases "is_event e")
        case True
        then show ?thesis
          using that by (cases "registered s (fd, e)") (auto simp: reg_mask_def is_event_def event_consts)
      qed (rule registered_event)
      then show "drop_mask fd (reg_mask s fd) s x = drop_mask fd (READ OR WRITE) s x"
        by (cases x) (auto simp: drop_mask_def)
    qed
    with cancelAll_effect [OF inv os True] show ?thesis unfolding fd m [symmetric] by metis
  next
    case False
    then show ?thesis using drop_range(3) [OF inv assms(2)] by auto
  qed
qed

theorem cancelAll_correct_witness:
  "\<exists>b s'. cancelAll demo_os 5 demo_io5 = Inr (b, s') \<and>
     (if b then registered s' = drop_mask 5 (READ OR WRITE) demo_io5 else s' = demo_io5)"
proof -
  obtain b s' where "cancelAll demo_os 5 demo_io5 = Inr (b, s')"
    "if b then reg_mask demo_io5 5 \<noteq> 0 \<and> registered s' = drop_mask 5 (READ OR WRITE) demo_io5 \<and>
       scheds s' = fire_mask 5 (reg_mask demo_io5 5) demo_io5 else s' = demo_io5"
    using cancelAll_correct [OF demo_io5_reach zero_le_numeral] by blast
  then show ?thesis by (cases b) auto
qed

text \<open>
  The kernel does not refuse to change or remove a descriptor it watches.
\<close>

definition never_refuses :: "os \<Rightarrow> bool" where
  "never_refuses os \<longleftrightarrow>
     (\<forall>k op fd ev. k fd \<noteq> None \<longrightarrow> op \<noteq> EPOLL_CTL_ADD \<longrightarrow> fst (epoll_ctl os k op fd ev) = 0)"

lemma demo_never_refuses: "never_refuses demo_os"
  by (auto simp: never_refuses_def demo_os_def demo_ctl_def split: ctl_op.splits)

text \<open>
  An error or hang-up on a descriptor with only one registered direction stops the process:
  \<^verbatim>\<open>idle\<close> adds both directions to the event without masking them with \<^verbatim>\<open>m_events\<close>, and triggers the one
  that is not registered, whose assertion fails.
\<close>

theorem hangup_aborts:
  assumes "reach (io_init os) (io_step os) s" and "never_refuses os" and "i < length (m_fdContexts s)"
    and "reg_mask s (int i) = READ \<or> reg_mask s (int i) = WRITE"
    and "evs AND (EPOLLERR OR EPOLLHUP) \<noteq> 0"
  shows "handle_event os (evs, DataPtr (m_fdContexts s ! i)) s = Inl (Assert ''m_events & event'')"
proof -
  have inv: "io_inv s" and os: "os_ok os" using io_system.inv_reach [OF assms(1)] by simp_all
  let ?m = "m_events (fd_at s i)" and ?p = "m_fdContexts s ! i" and ?re = "real_events evs"
  have m: "?m = READ \<or> ?m = WRITE" using assms(4) reg_mask_at [OF inv assms(3)] by simp
  have "(evs OR EPOLLIN OR EPOLLOUT) AND EPOLLIN \<noteq> 0" "(evs OR EPOLLIN OR EPOLLOUT) AND EPOLLOUT \<noteq> 0"
    by (simp_all add: event_consts bit.conj_disj_distrib2)
  then have re: "?re = READ OR WRITE" using assms(5) by (simp add: real_events_def)
  have nz: "?m AND ?re \<noteq> 0" "?re AND NOT ?m \<noteq> 0" "?m \<noteq> 0" using m re by (auto simp: event_consts)
  have nt: "int i \<noteq> fst (m_tickleFds s)" using io_invD(4) [OF inv assms(3)] nz(3) by blast
  have "kernel s (int i) \<noteq> None"
    using io_invD(5) [OF inv assms(3) nt] nz(3) by (simp add: interest_of_def)
  then have acc: "fst (epoll_ctl os (kernel s) op (int i) ev) = 0" if "op \<noteq> EPOLL_CTL_ADD" for op ev
    using assms(2) that unfolding never_refuses_def by blast
  show ?thesis
  proof (cases rule: handle_ptr_effect [OF inv os assms(3), of evs, case_names Nothing Fail Ok Abort])
    case Fail
    let ?left = "?m AND NOT ?re"
    let ?op = "if ?left \<noteq> 0 then EPOLL_CTL_MOD else EPOLL_CTL_DEL"
    obtain k' where k': "epoll_ctl os (kernel s) ?op (int i) (EPOLLET OR ?left, DataPtr ?p) = (0, k')"
      using acc [of ?op "(EPOLLET OR ?left, DataPtr ?p)"]
      by (cases "epoll_ctl os (kernel s) ?op (int i) (EPOLLET OR ?left, DataPtr ?p)") auto
    have ep: "epoll_documented os" using os by (simp add: os_ok_def)
    from inv ep assms(3) nz(3) refl disjI2 [OF refl]
    have "s\<lparr>kernel := k'\<rparr> = set_interest i ?left s"
      by (cases rule: lower_interest [where op = ?op and m' = ?left and ev = "EPOLLET OR ?left"])
        (use k' in auto)
    then have "handle_ptr os evs ?p s = trigger_mask os ?re ?p (set_interest i ?left s)"
      using k' nz io_invD(1,2) [OF inv assms(3)]
      by (simp add: handle_ptr_def trigger_mask_def Let_def NONE_def)
    with trigger_mask_abort [OF inv os assms(3) nt real_events_range nz(1,2)] show ?thesis
      by (simp add: handle_event_def)
  qed (use nz in \<open>auto simp: handle_event_def\<close>)
qed

theorem hangup_aborts_witness:
  "handle_event demo_os (EPOLLHUP, DataPtr 5) demo_io5 = Inl (Assert ''m_events & event'')"
  using hangup_aborts [OF demo_io5_reach demo_never_refuses, of 5 EPOLLHUP]
  by (simp add: reg_mask_def demo_io5_registered event_consts)

text \<open>
  Two \<^verbatim>\<open>addEvent\<close> calls can undo each other's growth of the table: the size is not read again
  under the write lock, so a call that decided to grow for \<open>fd\<close> cuts a table that another call has
  grown further in between. A registration beyond \<open>fd * 1.5\<close> is then out of reach of \<^verbatim>\<open>delEvent\<close>,
  while the kernel still watches it and the pending counter still counts it.
\<close>

theorem resize_race:
  assumes "reach (io_init os) (io_step os) s0" and "size_int s0 \<le> fd" and "(io_step os)\<^sup>*\<^sup>* s0 s"
    and "fd * 3 div 2 \<le> fd'" and "registered s (fd', e) \<noteq> None"
  shows "\<exists>p s'. addEvent_grow new_at fd s = Inr (p, s') \<and> registered s' (fd', e) = None \<and>
    delEvent os fd' e s' = Inr (False, s') \<and> cancelEvent os fd' e s' = Inr (False, s') \<and>
    kernel s' = kernel s \<and> m_pendingEventCount s' = m_pendingEventCount s"
proof -
  have inv: "io_inv s" using io_system.inv_reach [OF reach_steps [OF assms(1,3)]] by simp
  have inv0: "io_inv s0" using io_system.inv_reach [OF assms(1)] by simp
  then have "32 \<le> size_int s0" unfolding size_int_eq [OF inv0] by (simp add: io_inv_def Let_def)
  then have fd: "2 \<le> fd" using assms(2) by linarith
  let ?n = "nat (fd * 3 div 2)" and ?s' = "contextResize new_at (nat (fd * 3 div 2)) s"
  have r: "0 \<le> fd'" "nat fd' < length (m_fdContexts s)"
    using assms(5) by (auto simp: registered_def split: if_splits)
  have n31: "length (m_fdContexts s) < 2 ^ 31" using inv by (simp add: io_inv_def Let_def)
  have lt: "fd < fd * 3 div 2" using fd by linarith
  have "?n < 2 ^ 31" "int ?n \<le> fd'" using r n31 assms(4) lt fd by linarith+
  then have sz: "size_int ?s' \<le> fd'" by (simp add: size_int_def int_cast_small)
  have "addEvent_grow new_at fd s = Inr (m_fdContexts ?s' ! nat fd, ?s')"
    using lt fd by (simp add: addEvent_grow_def at_fd_def Let_def)
  moreover have "registered ?s' (fd', e) = None"
    using assms(4) by (simp add: registered_def)
  ultimately show ?thesis
    using sz by (simp add: delEvent_def cancelEvent_def dropEvent_def)
qed

lemma demo_far: "\<exists>s. (io_step demo_os)\<^sup>*\<^sup>* demo_io s \<and> registered s (1000, READ) \<noteq> None"
proof -
  let ?na = "\<lambda>i. i + 100 :: nat"
  let ?s1 = "contextResize ?na 1500 demo_io"
  have n: "length (m_fdContexts demo_io) \<le> 1500" "(1500 :: nat) < 2 ^ 31" by simp_all
  note inv1 = io_inv_grow(1) [OF demo_io_inv(1) demo_io_fresh n]
  have i: "1000 < length (m_fdContexts ?s1)" by simp
  have at: "fd_at ?s1 1000 = FdContext_new 1000"
    using io_inv_grow(2) [OF demo_io_inv(1) demo_io_fresh n, of 1000] by simp
  have h: "fdheap ?s1 (m_fdContexts ?s1 ! 1000) = Some (FdContext_new 1000)"
    using io_invD(1) [OF inv1 i] at by simp
  have un: "registered ?s1 (int 1000, READ) = None"
    unfolding registered_at [OF i] at by (simp add: reg_of_def FdContext_new_def NONE_def)
  have l: "addEvent_lookup ?na 1000 demo_io = Inr (m_fdContexts ?s1 ! 1000, ?s1)"
    using size_int_eq [OF demo_io_inv(1)]
    by (simp add: addEvent_lookup_def addEvent_grow_def at_fd_def Let_def)
  have ok: "\<exists>s' g. addEvent_locked demo_os (Some 7) 0 1000 READ (Some (Fn 1)) (m_fdContexts ?s1 ! 1000)
      (?s1, demo_gt) = Inr (0, s', g)"
    using h by (simp add: addEvent_locked_def demo_io_kernel FdContext_new_def NONE_def demo_os_def
        demo_ctl_def getContext_def empty_ctx_def Let_def)
  have k: "7 \<in> dom (scheds ?s1)" and e: "is_event READ" and ep: "epoll_documented demo_os"
    using demo_os_ok by (simp_all add: is_event_def os_ok_def)
  obtain s' where s': "addEvent_locked demo_os (Some 7) 0 1000 READ (Some (Fn 1))
      (m_fdContexts ?s1 ! 1000) (?s1, demo_gt) = Inr (0, s', demo_gt)"
    "registered s' = (registered ?s1)((1000, READ) \<mapsto> (7, caller_task (Some (Fn 1)) 0))"
    using addEvent_locked_effect [OF inv1 ep i e un k, where cb = "Some (Fn 1)" and gt = demo_gt
        and gt' = demo_gt and pm = 0 and cur = 0] ok
    by fastforce
  then have "addEvent demo_os ?na (Some 7) 0 1000 READ (Some (Fn 1)) (demo_io, demo_gt) =
      Inr (0, s', demo_gt)"
    using l by (simp add: addEvent_def)
  then have "io_step demo_os demo_io s'"
    using e by (intro io_add [OF demo_io_fresh, of 1000 READ 7]) simp_all
  then show ?thesis using s'(2) by auto
qed

theorem resize_race_witness:
  "\<exists>s p s'. registered s (1000, READ) \<noteq> None \<and> addEvent_grow (\<lambda>i. i + 9000) 100 s = Inr (p, s') \<and>
     delEvent demo_os 1000 READ s' = Inr (False, s') \<and> kernel s' = kernel s"
proof -
  obtain s where s: "(io_step demo_os)\<^sup>*\<^sup>* demo_io s" "registered s (1000, READ) \<noteq> None"
    using demo_far by blast
  have "size_int demo_io \<le> 100" using size_int_eq [OF demo_io_inv(1)] by simp
  from resize_race [OF demo_io_reach this s(1) _ s(2)] s(2) show ?thesis by fastforce
qed

section \<open>Waiting and stopping\<close>

lemma int_cast_unat: "unat x < 2 ^ 31 \<Longrightarrow> int_cast x = int (unat x)"
  using int_cast_small [of "unat x"] by simp

lemma wait_timeout_short:
  assumes "next = - 1 \<or> unat next < 2 ^ 31"
  shows "wait_timeout next = (if next = - 1 then 3000 else min 3000 (int (unat next)))"
proof (cases "next = - 1 \<or> 3000 < int (unat next)")
  case True
  have "int_cast (3000 :: u64) = 3000" using int_cast_small [of 3000] by simp
  then show ?thesis
    using True assms by (auto simp: wait_timeout_def adjust_timeout_def MAX_TIMEOUT_def int_cast_unat)
next
  case False
  then show ?thesis
    using assms by (auto simp: wait_timeout_def adjust_timeout_def MAX_TIMEOUT_def int_cast_unat)
qed

text \<open>
  The timeout given to \<^verbatim>\<open>epoll_wait\<close>: for a next timer less than \<open>2 ^ 31\<close> milliseconds away it is
  that distance, at most \<^verbatim>\<open>MAX_TIMEOUT\<close>, and \<^verbatim>\<open>MAX_TIMEOUT\<close> when there is no timer; it is never
  negative then. But a distance with bit 31 set is negative after the cast to \<^verbatim>\<open>int\<close>, passes the
  comparison, and is handed to \<^verbatim>\<open>epoll_wait\<close> as a negative timeout, which means to wait without limit.
\<close>

theorem wait_timeout_range:
  "(next = - 1 \<or> unat next < 2 ^ 31 \<longrightarrow>
      wait_timeout next = (if next = - 1 then MAX_TIMEOUT else min MAX_TIMEOUT (int (unat next)))) \<and>
   (next \<noteq> - 1 \<and> bit next 31 \<longrightarrow> wait_timeout next < 0)"
proof (intro conjI impI)
  show "wait_timeout next = (if next = - 1 then MAX_TIMEOUT else min MAX_TIMEOUT (int (unat next)))"
    if "next = - 1 \<or> unat next < 2 ^ 31"
    using wait_timeout_short [OF that] by (simp add: MAX_TIMEOUT_def)
  show "wait_timeout next < 0" if "next \<noteq> - 1 \<and> bit next 31"
  proof -
    have "bit (ucast next :: 32 word) (LENGTH(32) - Suc 0)" using that by (simp add: bit_ucast_iff)
    then have "int_cast next < 0" by (simp only: int_cast_def bit_last_iff)
    then show ?thesis using that by (simp add: wait_timeout_def adjust_timeout_def MAX_TIMEOUT_def)
  qed
qed

theorem wait_timeout_range_witness:
  "wait_timeout 20000 = 3000 \<and> wait_timeout 2147483648 < 0"
  using wait_timeout_range [of 20000] wait_timeout_range [of 2147483648]
  by (simp add: MAX_TIMEOUT_def)


text \<open>
  \<^verbatim>\<open>IOManager::stopping\<close> tells the truth in every reachable state with a well-formed timer manager
  (and a clock that is not 0): it is true exactly when no timer is armed, no event is registered and
  the scheduler itself is drained.
\<close>

theorem io_stopping_iff:
  assumes "reach (io_init os) (io_step os) s" and "timers_wf (timers s)" and "now \<noteq> 0"
  shows "\<exists>sc s'. scheds s (io_self s) = Some sc \<and>
    io_stopping now s = Inr (m_timers (timers s) = [] \<and> registered s = Map.empty \<and> stopping sc, s')"
proof -
  have inv: "io_inv s" using io_system.inv_reach [OF assms(1)] by simp
  then obtain sc where sc: "scheds s (io_self s) = Some sc" by (auto simp: io_inv_def Let_def)
  let ?n = "length (m_fdContexts s)"
  have "bits m \<le> 2" for m by (simp add: bits_def)
  then have "(\<Sum>i<?n. bits (m_events (fd_at s i))) \<le> 2 * ?n"
    using sum_bounded_above [of "{..<?n}" "\<lambda>i. bits (m_events (fd_at s i))" 2] by (simp add: mult.commute)
  moreover have "?n < 2 ^ 31" using inv by (simp add: io_inv_def Let_def)
  ultimately have small: "card (dom (registered s)) < 2 ^ 64" using card_registered(1) [OF inv] by simp
  have "m_pendingEventCount s = of_nat (card (dom (registered s)))"
    using inv card_registered(1) [OF inv] by (simp add: io_inv_def Let_def del: of_nat_sum)
  then have pend: "m_pendingEventCount s = 0 \<longleftrightarrow> registered s = Map.empty"
    using u64_of_nat_eq_0_iff [OF small] card_registered(2) [OF inv] by (simp add: card_0_eq)
  have "fst (getNextTimer now (timers s)) = - 1 \<longleftrightarrow> m_timers (timers s) = []"
    using timer_iface.idle_forever_iff [OF assms(2,3)] .
  with sc pend show ?thesis
    by (auto simp: io_stopping_def stopping_timeout_def Let_def case_prod_beta)
qed

theorem io_stopping_iff_witness:
  "\<exists>sc s'. scheds demo_io 7 = Some sc \<and> io_stopping 1 demo_io = Inr (stopping sc, s')"
proof -
  have "timers_wf (timers demo_io)" by (simp add: timers_wf_def TimerManager_new_def)
  with io_stopping_iff [OF demo_io_reach, of 1] demo_io_inv(2) show ?thesis
    by (simp add: TimerManager_new_def)
qed

lemma registered_cong:
  assumes "fdheap s' = fdheap s" and "m_fdContexts s' = m_fdContexts s"
  shows "registered s' = registered s"
proof -
  have at: "fd_at s' = fd_at s" using assms by (simp add: fd_at_def fun_eq_iff)
  show ?thesis unfolding registered_def assms at ..
qed

lemma handle_event_single:
  assumes "io_inv s" and "os_ok os" and "registered s (fd, e) = Some (k, ft)" and "is_event e"
    and "real_events evs = e"
  shows "\<exists>s'. handle_event os (evs, DataPtr (m_fdContexts s ! nat fd)) s = Inr s' \<and> timers s' = timers s \<and>
    (s' = s \<or> registered s' = (registered s)((fd, e) := None) \<and> scheds s' = enqueue k ft (scheds s))"
proof -
  have i: "int (nat fd) = fd" "nat fd < length (m_fdContexts s)"
    using assms(3) by (auto simp: registered_def split: if_splits)
  have "reg_of (fd_at s (nat fd)) e \<noteq> None" using assms(3) registered_at [OF i(2), of e] unfolding i(1) by (metis option.distinct(1))
  then have m: "m_events (fd_at s (nat fd)) AND e \<noteq> 0" by (auto simp: reg_of_def split: if_splits)
  have b: "e AND NOT (m_events (fd_at s (nat fd))) = 0"
    using m fd_ok_events [OF io_invD(3) [OF assms(1) i(2)]] assms(4)
    by (auto simp: is_event_def event_consts)
  have "(registered s)((fd, e) := None) = drop_mask fd e s"
    using drop_mask_single [of e s fd] assms(4) by (simp add: is_event_def)
  moreover have "fire_mask fd e s = enqueue k ft (scheds s)"
    using assms(3,4) by (auto simp: fire_mask_def is_event_def event_consts)
  ultimately show ?thesis
    using handle_ptr_effect [OF assms(1,2) i(2), of evs] m b i(1) assms(5)
    by (auto simp: handle_event_def; metis)
qed

lemma addEvent_fiber:
  assumes "io_inv s" and "epoll_documented os" and "fresh_for new_at s" and "0 \<le> fd" "fd < 2 ^ 30"
    and "is_event e" and "registered s (fd, e) = None" and "k \<in> dom (scheds s)"
    and "GetThis pm f = Inr (cur, g)" and "state_of (fst g) cur = EXEC"
  obtains (Fail) s' where "addEvent os new_at (Some k) pm fd e None (s, f) = Inr (- 1, s', f)" "io_inv s'"
      "registered s' = registered s" "timers s' = timers s" "scheds s' = scheds s"
  | (Ok) s' where "addEvent os new_at (Some k) pm fd e None (s, f) = Inr (0, s', g)" "io_inv s'"
      "registered s' = (registered s)((fd, e) \<mapsto> (k, ft_of_fiber (Some cur) (- 1)))" "timers s' = timers s"
      "scheds s' = scheds s"
proof -
  obtain s1 where s1: "addEvent_lookup new_at fd s = Inr (m_fdContexts s1 ! nat fd, s1)" "io_inv s1"
    "nat fd < length (m_fdContexts s1)" "registered s1 = registered s" "scheds s1 = scheds s"
    "timers s1 = timers s"
    using addEvent_lookup_effect [OF assms(1,3-5)] by blast
  have fd: "int (nat fd) = fd" using assms(4) by simp
  have un: "registered s1 (int (nat fd), e) = None" and k: "k \<in> dom (scheds s1)"
    using assms(7,8) s1 fd by simp_all
  have c: "(None :: callback option) = None \<Longrightarrow> GetThis pm f = Inr (cur, g) \<and> state_of (fst g) cur = EXEC"
    "(None :: callback option) \<noteq> None \<Longrightarrow> g = f" using assms(9,10) by simp_all
  have a: "addEvent os new_at (Some k) pm fd e None (s, f) =
      addEvent_locked os (Some k) pm (int (nat fd)) e None (m_fdContexts s1 ! nat fd) (s1, f)"
    using s1(1) fd by (simp add: addEvent_def)
  show ?thesis
  proof (rule addEvent_locked_effect [OF s1(2) assms(2) s1(3) assms(6) un k c])
    assume "addEvent_locked os (Some k) pm (int (nat fd)) e None (m_fdContexts s1 ! nat fd) (s1, f) =
      Inr (- 1, s1, f)"
    then show thesis using that(1) [of s1] a s1 by simp
  next
    fix s'
    assume "addEvent_locked os (Some k) pm (int (nat fd)) e None (m_fdContexts s1 ! nat fd) (s1, f) = Inr (0, s', g)"
      "io_inv s'" "registered s' = (registered s1)((int (nat fd), e) \<mapsto> (k, caller_task None cur))"
      "scheds s' = scheds s1" "timers s' = timers s1"
    then show thesis using that(2) [of s'] a s1 fd by (simp add: caller_task_def)
  qed
qed

lemma addEvent_lookup_self: "addEvent_lookup new_at fd s = Inr (p, s1) \<Longrightarrow> io_self s1 = io_self s"
  by (auto simp: addEvent_lookup_def addEvent_grow_def res_iffs Let_def contextResize_def split: if_splits)

lemma addEvent_locked_self:
  assumes "addEvent_locked os this pm fd event cb p (s, gt) = Inr (rt, s', gt')"
  shows "io_self s' = io_self s"
proof -
  obtain f where f: "fdheap s p = Some f" using assms by (auto simp: addEvent_locked_def res_iffs)
  obtain r k where e: "epoll_ctl os (kernel s) (if m_events f \<noteq> 0 then EPOLL_CTL_MOD else EPOLL_CTL_ADD) fd
      (EPOLLET OR m_events f OR event, DataPtr p) = (r, k)" by (metis prod.exhaust)
  show ?thesis
  proof (cases "r = 0")
    case True
    with assms f e show ?thesis
      by (cases cb) (auto simp: addEvent_locked_def Let_def res_iffs put_fd_def case_prod_beta)
  next
    case False
    with assms f e show ?thesis by (auto simp: addEvent_locked_def Let_def res_iffs)
  qed
qed

lemma addEvent_self:
  "addEvent os new_at this pm fd event cb (s, gt) = Inr (rt, s', gt') \<Longrightarrow> io_self s' = io_self s"
  by (auto simp: addEvent_def res_iffs dest!: addEvent_lookup_self addEvent_locked_self)

lemma io_schedule_range_eq:
  assumes "scheds s (io_self s) = Some sc" and "write_T os = 1"
  shows "\<exists>b. io_schedule_range os cbs s = Inr (s\<lparr>scheds := (scheds s)(io_self s \<mapsto>
      sc\<lparr>m_fibers := m_fibers sc @ filter ft_valid (map (\<lambda>cb. ft_of_cb cb (- 1)) cbs)\<rparr>), pipe_bytes := b\<rparr>)"
proof -
  obtain n r sc' where e: "schedule_range cbs sc = (n, r, sc')" by (metis prod.exhaust)
  have sc': "sc' = sc\<lparr>m_fibers := m_fibers sc @ filter ft_valid (map (\<lambda>cb. ft_of_cb cb (- 1)) cbs)\<rparr>"
    using schedule_range_effect [OF e] by simp
  let ?s1 = "s\<lparr>scheds := (scheds s)(io_self s \<mapsto> sc')\<rparr>"
  have "\<exists>b. io_tickle os ?s1 = Inr (?s1\<lparr>pipe_bytes := b\<rparr>)" using assms(2) by (intro io_tickle_eq) auto
  then show ?thesis
    using assms(1) e pipe_unchanged [of ?s1] unfolding io_schedule_range_def sc' [symmetric] by (cases n) auto
qed

text \<open>
  A turn of the loop that goes on: the due callbacks are queued, then the events are handled.
\<close>

lemma idle_turn_effect:
  assumes "io_inv s" and "write_T os = 1" and "timers_wf (timers s)" and "theap (timers s) q = None"
    and "stopping_timeout now s = Inr (False, t, s1)" and "wait_events t waits = Some (tw, evs)"
  obtains s3 sc where "idle_turn os now waits q now2 s =
      bind_res (handle_events os evs s3) (\<lambda>s4. Inr (IdleSwapOut tw, s4))"
    "io_inv s3" "timers_wf (timers s3)" "armed (timers s3) = expire now2 (due now2 (timers s)) (armed (timers s))"
    "registered s3 = registered s" "m_fdContexts s3 = m_fdContexts s" "io_self s3 = io_self s"
    "scheds s (io_self s) = Some sc"
    "scheds s3 = (scheds s)(io_self s \<mapsto> sc\<lparr>m_fibers := m_fibers sc @
       filter ft_valid (map (\<lambda>cb. ft_of_cb cb (- 1)) (due_callbacks now2 (timers s)))\<rparr>)"
proof -
  obtain sc where sc: "scheds s (io_self s) = Some sc" using assms(1) by (auto simp: io_inv_def Let_def)
  have s1: "s1 = s\<lparr>timers := snd (getNextTimer now (timers s))\<rparr>" using stopping_timeoutD(1) [OF assms(5)] .
  have wf1: "timers_wf (timers s1)" "theap (timers s1) q = None" "armed (timers s1) = armed (timers s)"
    using assms(3,4) getNextTimer_wf by (simp_all add: s1 armed_def fun_eq_iff)
  obtain tm where tm: "listExpiredCb q now2 (timers s1) = Inr (due_callbacks now2 (timers s), tm)"
    "timers_wf tm" "armed tm = expire now2 (due now2 (timers s)) (armed (timers s))"
    using listExpiredCb_total [OF wf1(1,2), of now2] wf1(3)
    by (auto simp: s1 due_getNextTimer due_callbacks_def)
  let ?s2 = "s1\<lparr>timers := tm\<rparr>"
  let ?q = "filter ft_valid (map (\<lambda>cb. ft_of_cb cb (- 1)) (due_callbacks now2 (timers s)))"
  have "\<exists>b. (if due_callbacks now2 (timers s) \<noteq> [] then io_schedule_range os (due_callbacks now2 (timers s)) ?s2
      else Inr ?s2) = Inr (?s2\<lparr>scheds := (scheds s)(io_self s \<mapsto> sc\<lparr>m_fibers := m_fibers sc @ ?q\<rparr>), pipe_bytes := b\<rparr>)"
  proof (cases "due_callbacks now2 (timers s) = []")
    case True
    have "(scheds s)(io_self s \<mapsto> sc) = scheds s" using sc by (simp add: fun_upd_idem)
    then show ?thesis using True pipe_unchanged [of ?s2] by (simp add: s1)
  next
    case False
    then show ?thesis using io_schedule_range_eq [of ?s2 sc os] sc assms(2) by (simp add: s1)
  qed
  then obtain b where b: "(if due_callbacks now2 (timers s) \<noteq> []
      then io_schedule_range os (due_callbacks now2 (timers s)) ?s2 else Inr ?s2) =
      Inr (?s2\<lparr>scheds := (scheds s)(io_self s \<mapsto> sc\<lparr>m_fibers := m_fibers sc @ ?q\<rparr>), pipe_bytes := b\<rparr>)"
    (is "_ = Inr ?s3") by blast
  show thesis
  proof (rule that [of ?s3 sc])
    show "idle_turn os now waits q now2 s = bind_res (handle_events os evs ?s3) (\<lambda>s4. Inr (IdleSwapOut tw, s4))"
      using assms(5,6) tm(1) b by (simp add: idle_turn_def Let_def)
    show "io_inv ?s3" by (rule io_inv_frame [OF assms(1)]) (use sc in \<open>auto simp: s1\<close>)
    show "registered ?s3 = registered s" by (rule registered_cong) (simp_all add: s1)
  qed (simp_all add: tm sc s1)
qed

text \<open>
  A turn of the idle loop in which no descriptor is ready: in a reachable state with a well-formed
  timer manager the loop exits or comes to its switch without an error, and then the callbacks of
  exactly the timers that were due, without the empty ones, have been appended in deadline order to
  the manager's own queue, no other queue and no registration has changed, and the due timers are
  disarmed or rearmed.
\<close>

theorem idle_turn_fires_timers:
  assumes "reach (io_init os) (io_step os) s" and "timers_wf (timers s)" and "theap (timers s) q = None"
    and "stopping_timeout now s = Inr (False, t, s1)"
  shows "\<exists>s' sc. idle_turn os now [Some []] q now2 s = Inr (IdleSwapOut (wait_timeout t), s') \<and>
    timers_wf (timers s') \<and> armed (timers s') = expire now2 (due now2 (timers s)) (armed (timers s)) \<and>
    registered s' = registered s \<and> scheds s (io_self s) = Some sc \<and>
    scheds s' = (scheds s)(io_self s \<mapsto> sc\<lparr>m_fibers := m_fibers sc @
      filter ft_valid (map (\<lambda>cb. ft_of_cb cb (- 1)) (due_callbacks now2 (timers s)))\<rparr>)"
proof -
  have inv: "io_inv s" and wr: "write_T os = 1"
    using io_system.inv_reach [OF assms(1)] by (simp_all add: os_ok_def)
  have "wait_events t [Some []] = Some (wait_timeout t, [])" by simp
  from idle_turn_effect [OF inv wr assms(2-4) this, of now2] obtain s3 sc
    where "idle_turn os now [Some []] q now2 s =
        bind_res (handle_events os [] s3) (\<lambda>s4. Inr (IdleSwapOut (wait_timeout t), s4))"
      "timers_wf (timers s3)" "armed (timers s3) = expire now2 (due now2 (timers s)) (armed (timers s))"
      "registered s3 = registered s" "scheds s (io_self s) = Some sc"
      "scheds s3 = (scheds s)(io_self s \<mapsto> sc\<lparr>m_fibers := m_fibers sc @
        filter ft_valid (map (\<lambda>cb. ft_of_cb cb (- 1)) (due_callbacks now2 (timers s)))\<rparr>)" by blast
  then show ?thesis by (intro exI [of _ s3] exI [of _ sc]) simp
qed

text \<open>The manager with the two timers of \<^term>\<open>two_timers\<close>.\<close>

definition demo_io_timers :: io where
  "demo_io_timers = demo_io\<lparr>timers := two_timers\<rparr>"

lemma demo_io_timers_reach: "reach (io_init demo_os) (io_step demo_os) demo_io_timers"
  unfolding demo_io_timers_def by (rule reach.reach_step [OF demo_io_reach io_timers])

lemma demo_timers_wf: "timers_wf (timers demo_io_timers)"
  using timer_system.inv_reach [OF two_timers_reach] by (simp add: demo_io_timers_def)

lemma demo_stopping: "\<exists>s1. stopping_timeout 105 demo_io_timers = Inr (False, 15, s1)"
  by (simp add: stopping_timeout_def demo_io_timers_def two_timers_eq getNextTimer_def Timer_new_def
      next_of_def stopping_def demo_sched_def)


theorem idle_turn_fires_timers_witness:
  "\<exists>s'. idle_turn demo_os 105 [Some []] 9 120 demo_io_timers = Inr (IdleSwapOut (wait_timeout 15), s') \<and>
     timers_wf (timers s')"
proof -
  obtain s1 where "stopping_timeout 105 demo_io_timers = Inr (False, 15, s1)" using demo_stopping by blast
  moreover have "theap (timers demo_io_timers) 9 = None" by (simp add: demo_io_timers_def two_timers_eq)
  ultimately show ?thesis
    using idle_turn_fires_timers [OF demo_io_timers_reach demo_timers_wf, of 9 105 15 s1 120] by blast
qed

section \<open>Where the manager does not wake a thread\<close>

text \<open>
  A wake-up is not sent when somebody could receive it: \<^verbatim>\<open>IOManager::tickle\<close> returns at once when
  threads are idle. So a task scheduled on an empty queue writes nothing to the pipe while threads
  wait in \<^verbatim>\<open>epoll_wait\<close>, and they find the task only after their timeout; when no thread is idle,
  a byte is written that nobody waits for.
\<close>

theorem idle_thread_not_woken:
  assumes "scheds s (io_self s) = Some sc" and "m_fibers sc = []" and "ft_valid ft" and "write_T os = 1"
  shows "\<exists>s'. io_schedule os (Some (io_self s)) ft s = Inr s' \<and>
    scheds s' = enqueue (io_self s) ft (scheds s) \<and>
    pipe_bytes s' = (if m_idleThreadCount sc > 0 then pipe_bytes s else Suc (pipe_bytes s))"
  using assms
  by (simp add: io_schedule_def schedule_def scheduleNoLock_def io_tickle_def hasIdleThreads_def
      enqueue_def Let_def)

theorem idle_thread_not_woken_witness:
  "\<exists>s'. io_schedule demo_os (Some 7) (ft_of_cb (Some (Fn 1)) (- 1))
       (demo_io\<lparr>scheds := [7 \<mapsto> demo_sched\<lparr>m_idleThreadCount := 2\<rparr>]\<rparr>) = Inr s' \<and>
     pipe_bytes s' = pipe_bytes demo_io"
  using idle_thread_not_woken [of "demo_io\<lparr>scheds := [7 \<mapsto> demo_sched\<lparr>m_idleThreadCount := 2\<rparr>]\<rparr>"
      "demo_sched\<lparr>m_idleThreadCount := 2\<rparr>" "ft_of_cb (Some (Fn 1)) (- 1)" demo_os]
  by (auto simp: demo_sched_def demo_os_def ft_valid_def ft_of_cb_def)

text \<open>
  An event added by a thread that has no scheduler cannot be delivered: \<^verbatim>\<open>addEvent\<close> accepts it
  and stores the null \<^verbatim>\<open>Scheduler::GetThis()\<close>; \<^verbatim>\<open>cancelEvent\<close> of this event, like its occurrence,
  then calls through a null pointer.
\<close>

theorem event_of_unscheduled_thread:
  assumes "io_inv s" and "os_ok os" and "never_refuses os" and "i < length (m_fdContexts s)"
    and "is_event e" and "addEvent os new_at None pm (int i) e (Some cb) (s, gt) = Inr (0, s', gt')"
  shows "cancelEvent os (int i) e s' = Inl (UB ''ctx.scheduler'')"
proof -
  let ?p = "m_fdContexts s ! i" and ?f = "fd_at s i"
  have sz: "size_int s = int (length (m_fdContexts s))" using size_int_eq [OF assms(1)] .
  have ep: "epoll_documented os" using assms(2) by (simp add: os_ok_def)
  let ?op = "if m_events ?f \<noteq> 0 then EPOLL_CTL_MOD else EPOLL_CTL_ADD"
  let ?f' = "putContext e (empty_ctx\<lparr>ec_cb := Some cb\<rparr>) (?f\<lparr>m_events := m_events ?f OR e\<rparr>)"
  have l: "addEvent_locked os None pm (int i) e (Some cb) ?p (s, gt) = Inr (0, s', gt')"
    using assms(4,6) sz by (simp add: addEvent_def addEvent_lookup_def at_fd_eq)
  then obtain k where k: "epoll_ctl os (kernel s) ?op (int i) (EPOLLET OR m_events ?f OR e, DataPtr ?p) = (0, k)"
    and un: "m_events ?f AND e = 0"
    and s': "s' = put_fd ?p ?f' (s\<lparr>kernel := k, m_pendingEventCount := m_pendingEventCount s + 1\<rparr>)"
    using io_invD(1) [OF assms(1,4)] assms(5)
    by (auto simp: addEvent_locked_def res_iffs Let_def case_prod_beta getContext_eq empty_ctx_def
        prod_eq_iff split: if_splits)
  have b: "(m_events ?f OR e) AND e \<noteq> 0"
    using bits_set(3) [OF fd_ok_events [OF io_invD(3) [OF assms(1,4)]] assms(5) un] .
  have "kernel s' (int i) \<noteq> None"
    using ep k by (cases rule: epoll_ctl_cases [where k = "kernel s" and op = ?op and fd = "int i"
        and ev = "(EPOLLET OR m_events ?f OR e, DataPtr ?p)"]) (auto simp: s' put_fd_def split: if_splits)
  then have acc: "fst (epoll_ctl os (kernel s') op (int i) ev) = 0" if "op \<noteq> EPOLL_CTL_ADD" for op ev
    using assms(3) that unfolding never_refuses_def by blast
  let ?new = "(m_events ?f OR e) AND NOT e"
  have t: "trigger_dec os e ?p (s'\<lparr>kernel := k'\<rparr>) = Inl (UB ''ctx.scheduler'')" for k'
    using b assms(5)
    by (simp add: trigger_dec_def triggerEvent_def s' put_fd_def getContext_eq ctx_of_put empty_ctx_def
        io_schedule_def Let_def)
  have h': "fdheap s' ?p = Some ?f'" and v': "m_fdContexts s' = m_fdContexts s" by (simp_all add: s' put_fd_def)
  have sz': "size_int s' = int (length (m_fdContexts s))" using sz v' by (simp add: size_int_def)
  have "dropEvent os (int i) e act s' = (let (rt, k) = epoll_ctl os (kernel s')
      (if ?new \<noteq> 0 then EPOLL_CTL_MOD else EPOLL_CTL_DEL) (int i) (EPOLLET OR ?new, DataPtr ?p)
      in if rt \<noteq> 0 then Inr (False, s'\<lparr>kernel := k\<rparr>) else act ?p ?f' ?new (s'\<lparr>kernel := k\<rparr>))" for act
    using assms(4) b sz' h' v' by (simp add: dropEvent_def at_fd_eq Let_def)
  then show ?thesis
    using acc [of "if ?new \<noteq> 0 then EPOLL_CTL_MOD else EPOLL_CTL_DEL" "(EPOLLET OR ?new, DataPtr ?p)"] t
    by (simp add: cancelEvent_def Let_def case_prod_beta)
qed

theorem event_of_unscheduled_thread_witness:
  "\<exists>s'. addEvent demo_os (\<lambda>i. i + 100) None 0 5 READ (Some (Fn 3)) (demo_io, demo_gt) = Inr (0, s', demo_gt) \<and>
     cancelEvent demo_os 5 READ s' = Inl (UB ''ctx.scheduler'')"
proof -
  have "\<exists>s'. addEvent demo_os (\<lambda>i. i + 100) None 0 (int 5) READ (Some (Fn 3)) (demo_io, demo_gt) =
      Inr (0, s', demo_gt)"
    using size_int_eq [OF demo_io_inv(1)]
    by (simp add: addEvent_def addEvent_lookup_def at_fd_def addEvent_locked_def demo_fd FdContext_new_def
        NONE_def demo_os_def demo_ctl_def getContext_def empty_ctx_def Let_def READ_def demo_io_kernel)
  then obtain s' where s': "addEvent demo_os (\<lambda>i. i + 100) None 0 (int 5) READ (Some (Fn 3)) (demo_io, demo_gt) =
      Inr (0, s', demo_gt)" by blast
  have "5 < length (m_fdContexts demo_io)" "is_event READ" by (simp_all add: is_event_def)
  from event_of_unscheduled_thread [OF demo_io_inv(1) demo_os_ok demo_never_refuses this s'] s'
  show ?thesis by auto
qed

end
