(* ===== verification/Duan_System.thy ===== *)
theory Duan_System
  imports Duan_Scheduler_Drain Duan_IO_Properties
begin

text \<open>
  The I/O manager as the scheduler it is: a worker thread of \<^verbatim>\<open>Scheduler::run\<close> whose idle fiber executes
  \<^verbatim>\<open>IOManager::idle\<close>. The state is the world of the scheduling loop beside the manager; the scheduler object they
  share is that of the world.
\<close>

section \<open>The combined state\<close>

type_synonym system = "world \<times> io"

definition manager :: "system \<Rightarrow> io" where
  "manager ws = (let (w, s) = ws in s\<lparr>scheds := (scheds s)(io_self s \<mapsto> sch w)\<rparr>)"

text \<open>An operation of the manager.\<close>

definition on_io :: "(io \<Rightarrow> ('a \<times> io) res) \<Rightarrow> system \<Rightarrow> ('a \<times> system) res" where
  "on_io f ws =
     bind_res (f (manager ws)) (\<lambda>(r, s').
       deref ''this'' (scheds s' (io_self s')) (\<lambda>sc. Inr (r, (fst ws)\<lparr>sch := sc\<rparr>, s')))"

text \<open>
  What the idle fiber of thread \<open>i\<close> does each time it runs: one turn of \<^verbatim>\<open>IOManager::idle\<close>, which ends with the
  function, so that \<^verbatim>\<open>MainFunc\<close> finishes the fiber, or with the switch back to the loop. \<open>pm\<close> is the address of a main
  fiber \<^verbatim>\<open>Fiber::GetThis\<close> may create.
\<close>

definition io_idle_body ::
  "os \<Rightarrow> u64 \<Rightarrow> epoll_event list option list \<Rightarrow> nat \<Rightarrow> u64 \<Rightarrow> nat \<Rightarrow> int \<Rightarrow> system \<Rightarrow> (idle_result \<times> system) res" where
  "io_idle_body os now waits q now2 pm i ws =
     bind_res (on_io (idle_turn os now waits q now2) ws) (\<lambda>(r, w1, s1).
       case r of
         IdleExit \<Rightarrow> bind_res (on_thread i (MainFunc pm Returns) w1) (\<lambda>w2. Inr (r, w2, s1))
       | IdleStuck \<Rightarrow> Inr (r, w1, s1)
       | IdleSwapOut t \<Rightarrow>
           bind_res (on_thread i (\<lambda>gt. bind_res (GetThis pm gt) (\<lambda>(cur, gt1). swapOut cur InCallback gt1)) w1)
             (\<lambda>w2. Inr (r, w2, s1)))"

text \<open>A turn of the loop that finds no task: scan, switch to the idle fiber, its body, and back.\<close>

definition idle_round ::
  "os \<Rightarrow> u64 \<Rightarrow> epoll_event list option list \<Rightarrow> nat \<Rightarrow> u64 \<Rightarrow> nat \<Rightarrow> nat \<Rightarrow> int \<Rightarrow> system \<Rightarrow>
     (idle_result \<times> system) res" where
  "idle_round os now waits q now2 pn stk i ws =
     (let (w, s) = ws in
      bind_res (run_take i w) (\<lambda>w1.
        bind_res (run_dispatch pn stk i w1) (\<lambda>w2.
          bind_res (io_idle_body os now waits q now2 pn i (w2, s)) (\<lambda>(r, w3, s3).
            bind_res (run_return i w3) (\<lambda>w4. Inr (r, w4, s3))))))"

section \<open>The idle fiber\<close>

definition idle_ready :: "nat \<Rightarrow> int \<Rightarrow> world \<Rightarrow> bool" where
  "idle_ready pn i w \<longleftrightarrow>
     (let p = idle_fiber (rl w i) in
      p \<noteq> pn \<and> cb_fiber (rl w i) \<noteq> Some p \<and> t_mainFiber (tl w i) \<noteq> Some p \<and>
      (\<exists>f. fheap (env w) p = Some f \<and> m_state f \<in> {INIT, HOLD} \<and> resume (m_ctx f) \<noteq> AtNeverReach \<and>
         fiber_cb f \<noteq> None \<and> m_stack f \<noteq> 0))"

text \<open>A worker between two turns of the loop.\<close>

definition worker :: "nat \<Rightarrow> int \<Rightarrow> world \<Rightarrow> bool" where
  "worker pn i w \<longleftrightarrow> at_top pn i w \<and> idle_ready pn i w"

lemma worker_local:
  assumes "worker pn i w" and "local_to pn i w w'" and "at_top pn i w'"
  shows "worker pn i w'"
  using assms by (auto simp: worker_def idle_ready_def local_to_def Let_def)

lemma worker_sch [simp]: "worker pn i (w\<lparr>sch := sc\<rparr>) = worker pn i w"
  by (simp add: worker_def idle_ready_def at_top_def)

definition in_idle :: "nat \<Rightarrow> int \<Rightarrow> world \<Rightarrow> bool" where
  "in_idle pn i w \<longleftrightarrow>
     (let p = idle_fiber (rl w i) in
      pc (rl w i) = InIdle \<and> ctx_rt (env w) = 0 \<and> t_fiber (tl w i) = Some p \<and> p \<noteq> pn \<and> cb_fiber (rl w i) \<noteq> Some p \<and>
      (\<exists>f. fheap (env w) p = Some f \<and> fiber_cb f \<noteq> None \<and> m_state f = EXEC \<and> m_stack f \<noteq> 0) \<and>
      (\<exists>mf fm. t_mainFiber (tl w i) = Some mf \<and> fheap (env w) mf = Some fm \<and> p \<noteq> mf \<and>
        cb_slot pn mf (cb_fiber (rl w i)) (fheap (env w))))"

lemma in_idle_sch [simp]: "in_idle pn i (w\<lparr>sch := sc\<rparr>) = in_idle pn i w"
  by (simp add: in_idle_def)

lemma run_take_empty:
  "m_fibers (sch w) = [] \<Longrightarrow> run_take i w = Inr (set_pc i (Got ft_reset False) w)"
  by (simp add: run_take_def tickle_if_def)

text \<open>What a turn without a task leaves alone.\<close>

definition idle_local :: "int \<Rightarrow> world \<Rightarrow> world \<Rightarrow> bool" where
  "idle_local i w w' \<longleftrightarrow>
     (\<forall>j. j \<noteq> i \<longrightarrow> rl w' j = rl w j \<and> tl w' j = tl w j) \<and>
     idle_fiber (rl w' i) = idle_fiber (rl w i) \<and> cb_fiber (rl w' i) = cb_fiber (rl w i) \<and>
     t_mainFiber (tl w' i) = t_mainFiber (tl w i) \<and> t_threadFiber (tl w' i) = t_threadFiber (tl w i) \<and>
     (\<forall>mf. t_mainFiber (tl w i) = Some mf \<longrightarrow> fiber_core (env w') mf = fiber_core (env w) mf) \<and>
     (\<forall>p. p \<noteq> idle_fiber (rl w i) \<longrightarrow> Some p \<noteq> t_mainFiber (tl w i) \<longrightarrow> fheap (env w') p = fheap (env w) p)"

lemma idle_local_trans:
  assumes "idle_local i w w'" and "idle_local i w' w''"
  shows "idle_local i w w''"
  using assms by (simp add: idle_local_def)

lemma idle_local_sch [simp]: "idle_local i w (w'\<lparr>sch := sc\<rparr>) = idle_local i w w'"
  "idle_local i (w\<lparr>sch := sc\<rparr>) w' = idle_local i w w'"
  by (simp_all add: idle_local_def)

lemma idle_enter:
  assumes "worker pn i w" and "m_fibers (sch w) = []"
  shows "\<exists>w1 w2. run_take i w = Inr w1 \<and> run_dispatch pn stk i w1 = Inr w2 \<and> in_idle pn i w2 \<and>
    sch w2 = (sch w)\<lparr>m_idleThreadCount := m_idleThreadCount (sch w) + 1\<rparr> \<and> idle_local i w w2"
proof -
  let ?p = "idle_fiber (rl w i)"
  obtain mf fm f where a: "ctx_rt (env w) = 0" "t_mainFiber (tl w i) = Some mf" "fheap (env w) mf = Some fm"
    "cb_slot pn mf (cb_fiber (rl w i)) (fheap (env w))" "?p \<noteq> pn" "cb_fiber (rl w i) \<noteq> Some ?p" "?p \<noteq> mf"
    "fheap (env w) ?p = Some f" "m_state f \<in> {INIT, HOLD}" "resume (m_ctx f) \<noteq> AtNeverReach" "fiber_cb f \<noteq> None" "m_stack f \<noteq> 0"
    using assms(1) by (auto simp: worker_def at_top_def idle_ready_def Let_def)
  let ?w1 = "set_pc i (Got ft_reset False) w"
  let ?fm = "fm\<lparr>m_ctx := (m_ctx fm)\<lparr>resume := InSwapIn\<rparr>\<rparr>"
  let ?g = "set_fiber mf ?fm (set_fiber ?p (f\<lparr>m_state := EXEC\<rparr>) (env w))"
  let ?t = "(tl w i)\<lparr>t_fiber := Some ?p, cpu := (?p, resume (m_ctx f))\<rparr>"
  let ?w2 = "(set_pc i InIdle (add_idle 1 ?w1))\<lparr>env := ?g, tl := (tl w)(i := ?t)\<rparr>"
  have "swapIn ?p (env w, tl w i) = Inr (?g, ?t)"
    using a swapIn_eq [of "env w" ?p f "tl w i" mf fm] by auto
  then have "run_dispatch pn stk i ?w1 = Inr ?w2"
    using a by (auto simp: run_dispatch_def Let_def on_thread_def resumed_def rl_set_pc ft_reset_def state_of_def)
  moreover have "in_idle pn i ?w2"
    using a by (auto simp: in_idle_def Let_def rl_set_pc cb_slot_def split: option.splits)
  moreover have "sch ?w2 = (sch w)\<lparr>m_idleThreadCount := m_idleThreadCount (sch w) + 1\<rparr>"
    by (simp add: add_idle_def)
  moreover have "idle_local i w ?w2" using a by (auto simp: idle_local_def rl_set_pc fiber_core_def)
  ultimately show ?thesis using run_take_empty [OF assms(2)] by blast
qed

lemma idle_switch_back:
  assumes "in_idle pn i w"
  shows "\<exists>w3 w4. on_thread i (\<lambda>gt. bind_res (GetThis pm gt) (\<lambda>(cur, gt1). swapOut cur InCallback gt1)) w = Inr w3 \<and>
    run_return i w3 = Inr w4 \<and> worker pn i w4 \<and>
    sch w4 = (sch w)\<lparr>m_idleThreadCount := m_idleThreadCount (sch w) - 1\<rparr> \<and> idle_local i w w4"
proof -
  let ?p = "idle_fiber (rl w i)"
  obtain mf fm f where a: "pc (rl w i) = InIdle" "ctx_rt (env w) = 0" "t_fiber (tl w i) = Some ?p" "?p \<noteq> pn"
    "cb_fiber (rl w i) \<noteq> Some ?p" "fheap (env w) ?p = Some f" "fiber_cb f \<noteq> None"
    "t_mainFiber (tl w i) = Some mf" "fheap (env w) mf = Some fm" "?p \<noteq> mf"
    "cb_slot pn mf (cb_fiber (rl w i)) (fheap (env w))" "m_state f = EXEC" "m_stack f \<noteq> 0"
    using assms by (auto simp: in_idle_def Let_def)
  let ?f = "f\<lparr>m_ctx := (m_ctx f)\<lparr>resume := InCallback\<rparr>\<rparr>"
  let ?t = "(tl w i)\<lparr>t_fiber := Some mf, cpu := (mf, resume (m_ctx fm))\<rparr>"
  let ?w3 = "w\<lparr>env := set_fiber ?p ?f (env w), tl := (tl w)(i := ?t)\<rparr>"
  let ?w4 = "(set_pc i Top (add_idle (- 1) ?w3))\<lparr>env := set_fiber ?p (?f\<lparr>m_state := HOLD\<rparr>) (env ?w3)\<rparr>"
  have "swapOut ?p InCallback (env w, tl w i) = Inr (set_fiber ?p ?f (env w), ?t)"
    using swapOut_eq [OF a(6,8,9,10,2)] .
  then have "on_thread i (\<lambda>gt. bind_res (GetThis pm gt) (\<lambda>(cur, gt1). swapOut cur InCallback gt1)) w = Inr ?w3"
    using GetThis_cur [OF a(3), of pm "env w"] by (simp add: on_thread_def)
  moreover have "run_return i ?w3 = Inr ?w4"
    using a by (simp add: run_return_def hold_if_live_def state_of_def set_state_def rl_set_pc)
  moreover have "worker pn i ?w4"
    using a by (auto simp: worker_def at_top_def idle_ready_def Let_def rl_set_pc cb_slot_def split: option.splits)
  moreover have "sch ?w4 = (sch w)\<lparr>m_idleThreadCount := m_idleThreadCount (sch w) - 1\<rparr>"
    by (simp add: add_idle_def)
  moreover have "idle_local i w ?w4" using a by (auto simp: idle_local_def rl_set_pc fiber_core_def)
  ultimately show ?thesis by blast
qed

text \<open>The thread has left the loop of \<^verbatim>\<open>run\<close>.\<close>

definition left_loop :: "nat \<Rightarrow> int \<Rightarrow> world \<Rightarrow> bool" where
  "left_loop pn i w \<longleftrightarrow>
     (let p = idle_fiber (rl w i) in
      pc (rl w i) = Exited \<and> ctx_rt (env w) = 0 \<and> cb_fiber (rl w i) \<noteq> Some p \<and>
      (\<exists>f. fheap (env w) p = Some f \<and> m_state f = TERM_ST \<and> m_stack f \<noteq> 0) \<and>
      (\<exists>mf fm. t_mainFiber (tl w i) = Some mf \<and> t_fiber (tl w i) = Some mf \<and> fheap (env w) mf = Some fm \<and> p \<noteq> mf \<and>
        cb_slot pn mf (cb_fiber (rl w i)) (fheap (env w))))"

lemma idle_finish:
  assumes "in_idle pn i w" and "m_fibers (sch w) = []"
  shows "\<exists>w3 w4 w5 w6. on_thread i (MainFunc pm Returns) w = Inr w3 \<and> run_return i w3 = Inr w4 \<and>
    sch w4 = (sch w)\<lparr>m_idleThreadCount := m_idleThreadCount (sch w) - 1\<rparr> \<and> idle_local i w w6 \<and>
    run_take i w4 = Inr w5 \<and> run_dispatch pn stk i w5 = Inr w6 \<and> left_loop pn i w6 \<and> sch w6 = sch w4"
proof -
  let ?p = "idle_fiber (rl w i)"
  obtain mf fm f where a: "pc (rl w i) = InIdle" "ctx_rt (env w) = 0" "t_fiber (tl w i) = Some ?p"
    "fheap (env w) ?p = Some f" "fiber_cb f \<noteq> None" "t_mainFiber (tl w i) = Some mf" "fheap (env w) mf = Some fm"
    "?p \<noteq> mf" "m_stack f \<noteq> 0" "cb_fiber (rl w i) \<noteq> Some ?p" "?p \<noteq> pn"
    "cb_slot pn mf (cb_fiber (rl w i)) (fheap (env w))"
    using assms(1) by (auto simp: in_idle_def Let_def)
  let ?f = "(finished Returns f)\<lparr>m_ctx := (m_ctx f)\<lparr>resume := AtNeverReach\<rparr>\<rparr>"
  let ?t = "(tl w i)\<lparr>t_fiber := Some mf, cpu := (mf, resume (m_ctx fm))\<rparr>"
  let ?w3 = "w\<lparr>env := set_fiber ?p ?f (env w), tl := (tl w)(i := ?t)\<rparr>"
  let ?w4 = "set_pc i Top (add_idle (- 1) ?w3)"
  have tst: "m_state ?f = TERM_ST" "m_stack ?f \<noteq> 0"
    using a(5,9) by (auto simp: finished_def call_outcome_def)
  have 1: "on_thread i (MainFunc pm Returns) w = Inr ?w3"
    by (rule on_thread_eq) (rule MainFunc_eq [OF a(3,4,6,7,8,2)])
  have 2: "run_return i ?w3 = Inr ?w4"
    using a(1) tst by (simp add: run_return_def hold_if_live_def state_of_def rl_set_pc)
  have 3: "sch ?w4 = (sch w)\<lparr>m_idleThreadCount := m_idleThreadCount (sch w) - 1\<rparr>"
    by (simp add: add_idle_def)
  let ?w5 = "set_pc i (Got ft_reset False) ?w4"
  let ?w6 = "tickle_if True (set_pc i Exited ?w5)"
  have 4: "run_take i ?w4 = Inr ?w5" by (rule run_take_empty) (simp add: 3 assms(2))
  have 5: "run_dispatch pn stk i ?w5 = Inr ?w6"
    using tst by (simp add: run_dispatch_def Let_def rl_set_pc ft_reset_def state_of_def)
  have 6: "idle_local i w ?w6" using a by (auto simp: idle_local_def rl_set_pc fiber_core_def)
  have 7: "left_loop pn i ?w6"
    using a tst by (auto simp: left_loop_def Let_def rl_set_pc cb_slot_def split: option.splits)
  have 8: "sch ?w6 = sch ?w4" by simp
  show ?thesis using 1 2 3 4 5 6 7 8 by blast
qed

section \<open>Turns without a task\<close>

lemma idle_count_back [simp]:
  "sc\<lparr>m_idleThreadCount := a, m_fibers := q, m_idleThreadCount := m_idleThreadCount sc\<rparr> = sc\<lparr>m_fibers := q\<rparr>"
  by (cases sc) simp

lemma manager_simps [simp]:
  "timers (manager (w, s)) = timers s" "io_self (manager (w, s)) = io_self s"
  "m_pendingEventCount (manager (w, s)) = m_pendingEventCount s"
  "m_fdContexts (manager (w, s)) = m_fdContexts s"
  "scheds (manager (w, s)) = (scheds s)(io_self s \<mapsto> sch w)"
  by (simp_all add: manager_def)

lemma manager_inv: "io_inv s \<Longrightarrow> io_inv (manager (w, s))"
  by (rule io_inv_frame [of s]) (auto simp: manager_def io_inv_def Let_def)

lemma manager_registered [simp]: "registered (manager (w, s)) = registered s"
  by (rule registered_cong) (simp_all add: manager_def)

lemma stopping_timeout_manager:
  "stopping_timeout now (manager (w, s)) =
     Inr (fst (getNextTimer now (timers s)) = - 1 \<and> m_pendingEventCount s = 0 \<and> stopping (sch w),
       fst (getNextTimer now (timers s)), (manager (w, s))\<lparr>timers := snd (getNextTimer now (timers s))\<rparr>)"
  by (simp add: stopping_timeout_def case_prod_beta Let_def)

definition due_tasks :: "u64 \<Rightarrow> io \<Rightarrow> FiberAndThread list" where
  "due_tasks now s = filter ft_valid (map (\<lambda>cb. ft_of_cb cb (- 1)) (due_callbacks now (timers s)))"

text \<open>
  The scan finds nothing and the idle fiber does not stop: it queues the due callbacks, handles the events, and
  the worker is back at the top of its loop.
\<close>

lemma idle_round_goes_on:
  assumes "worker pn i w" and "m_fibers (sch w) = []" and "io_inv s" and "write_T os = 1" and "timers_wf (timers s)"
    and "theap (timers s) q = None" and "\<not> stopping (sch w)"
    and "wait_events (fst (getNextTimer now (timers s))) waits = Some (tw, evs)"
  obtains s3 where "io_inv s3" "timers_wf (timers s3)"
    "armed (timers s3) = expire now2 (due now2 (timers s)) (armed (timers s))" "registered s3 = registered s"
    "m_fdContexts s3 = m_fdContexts s" "io_self s3 = io_self s"
    "scheds s3 = (scheds s)(io_self s \<mapsto> (sch w)\<lparr>m_idleThreadCount := m_idleThreadCount (sch w) + 1,
       m_fibers := due_tasks now2 s\<rparr>)"
    "\<And>s4 sc. handle_events os evs s3 = Inr s4 \<Longrightarrow> scheds s4 (io_self s4) = Some sc \<Longrightarrow>
       \<exists>w4. idle_round os now waits q now2 pn stk i (w, s) = Inr (IdleSwapOut tw, w4, s4) \<and> worker pn i w4 \<and>
         sch w4 = sc\<lparr>m_idleThreadCount := m_idleThreadCount sc - 1\<rparr> \<and> idle_local i w w4"
proof -
  obtain w1 w2 where e: "run_take i w = Inr w1" "run_dispatch pn stk i w1 = Inr w2" "in_idle pn i w2"
    "sch w2 = (sch w)\<lparr>m_idleThreadCount := m_idleThreadCount (sch w) + 1\<rparr>" "idle_local i w w2"
    using idle_enter [OF assms(1,2)] by blast
  let ?m = "manager (w2, s)"
  have inv: "io_inv ?m" by (rule manager_inv [OF assms(3)])
  have "stopping (sch w2) = stopping (sch w)" by (simp add: e(4) stopping_def)
  then have st: "stopping_timeout now ?m = Inr (False, fst (getNextTimer now (timers s)),
      ?m\<lparr>timers := snd (getNextTimer now (timers s))\<rparr>)"
    using assms(7) by (simp add: stopping_timeout_manager)
  have tm: "timers_wf (timers ?m)" "theap (timers ?m) q = None" using assms(5,6) by simp_all
  obtain s3 sc where s3': "idle_turn os now waits q now2 ?m = bind_res (handle_events os evs s3) (\<lambda>s4. Inr (IdleSwapOut tw, s4))"
      "io_inv s3" "timers_wf (timers s3)" "armed (timers s3) = expire now2 (due now2 (timers ?m)) (armed (timers ?m))"
      "registered s3 = registered ?m" "m_fdContexts s3 = m_fdContexts ?m" "io_self s3 = io_self ?m"
      "scheds ?m (io_self ?m) = Some sc" "scheds s3 = (scheds ?m)(io_self ?m \<mapsto> sc\<lparr>m_fibers := m_fibers sc @
        filter ft_valid (map (\<lambda>cb. ft_of_cb cb (- 1)) (due_callbacks now2 (timers ?m)))\<rparr>)"
    by (rule idle_turn_effect [OF inv assms(4) tm st assms(8), of now2])
  have sc: "sc = sch w2" using s3'(8) by simp
  note s3 = s3' [simplified sc manager_simps manager_registered due_tasks_def [symmetric] fun_upd_upd]
  show thesis
  proof (rule that [OF s3(2-7)])
    show "scheds s3 = (scheds s)(io_self s \<mapsto> (sch w)\<lparr>m_idleThreadCount := m_idleThreadCount (sch w) + 1,
       m_fibers := due_tasks now2 s\<rparr>)"
      using assms(2) s3'(9) by (simp add: sc e(4) due_tasks_def)
  next
    fix s4 sc4
    assume h: "handle_events os evs s3 = Inr s4" "scheds s4 (io_self s4) = Some sc4"
    then have o: "on_io (idle_turn os now waits q now2) (w2, s) = Inr (IdleSwapOut tw, w2\<lparr>sch := sc4\<rparr>, s4)"
      by (simp add: on_io_def s3(1))
    have "in_idle pn i (w2\<lparr>sch := sc4\<rparr>)" using e(3) by simp
    from idle_switch_back [OF this, of pn] obtain w3 w4
      where b: "on_thread i (\<lambda>gt. bind_res (GetThis pn gt) (\<lambda>(cur, gt1). swapOut cur InCallback gt1))
          (w2\<lparr>sch := sc4\<rparr>) = Inr w3"
        "run_return i w3 = Inr w4" "worker pn i w4" "sch w4 = sc4\<lparr>m_idleThreadCount := m_idleThreadCount sc4 - 1\<rparr>"
        "idle_local i w2 w4" by auto
    have "io_idle_body os now waits q now2 pn i (w2, s) = Inr (IdleSwapOut tw, w3, s4)"
      using o b(1) by (simp add: io_idle_body_def)
    then have "idle_round os now waits q now2 pn stk i (w, s) = Inr (IdleSwapOut tw, w4, s4)"
      using e(1,2) b(2) by (simp add: idle_round_def)
    with b(3,4) idle_local_trans [OF e(5) b(5)]
    show "\<exists>w4. idle_round os now waits q now2 pn stk i (w, s) = Inr (IdleSwapOut tw, w4, s4) \<and> worker pn i w4 \<and>
        sch w4 = sc4\<lparr>m_idleThreadCount := m_idleThreadCount sc4 - 1\<rparr> \<and> idle_local i w w4" by blast
  qed
qed

section \<open>Timers\<close>

lemma due_tasks_all:
  assumes "\<forall>cb\<in>set (due_callbacks now (timers s)). cb \<noteq> None"
  shows "due_tasks now s = map (\<lambda>cb. ft_of_cb cb (- 1)) (due_callbacks now (timers s))"
  using assms unfolding due_tasks_def by (simp add: filter_id_conv ft_of_cb_def ft_valid_def)

text \<open>
  C3. From the timer to the function: a worker without tasks whose wait ends without an event runs the
  functions of exactly the timers that are due then, each once and in the order of their deadlines, within
  one turn of the loop for each after its idle turn. What these functions schedule comes after them.
\<close>

theorem due_timers_run_in_order:
  assumes "worker pn i w" and "m_fibers (sch w) = []" and "\<not> stopping (sch w)" and "io_inv s" and "os_ok os"
    and "timers_wf (timers s)" and "theap (timers s) q = None"
    and "wait_events (fst (getNextTimer now (timers s))) waits = Some (tw, [])"
    and "\<forall>cb\<in>set (due_callbacks now2 (timers s)). cb \<noteq> None"
    and "stk \<noteq> 0" and "length as = length (due_callbacks now2 (timers s))"
  shows "\<exists>w1 s1 w2. idle_round os now waits q now2 pn stk i (w, s) = Inr (IdleSwapOut tw, w1, s1) \<and>
    run_turns pn stk i as w1 = Inr (due_callbacks now2 (timers s), w2) \<and>
    due_callbacks now2 (timers s) =
      map (\<lambda>p. timer_cb (the (theap (timers s) p))) (filter (due now2 (timers s)) (m_timers (timers s))) \<and>
    sorted (map (next_of (theap (timers s))) (filter (due now2 (timers s)) (m_timers (timers s)))) \<and>
    armed (timers s1) = expire now2 (due now2 (timers s)) (armed (timers s)) \<and>
    worker pn i w2 \<and> sch w2 = (sch w)\<lparr>m_fibers := filter ft_valid (concat (map spawns as))\<rparr>"
proof -
  let ?cbs = "due_callbacks now2 (timers s)"
  have wr: "write_T os = 1" using assms(5) by (simp add: os_ok_def)
  obtain s3 where s3: "armed (timers s3) = expire now2 (due now2 (timers s)) (armed (timers s))" "io_self s3 = io_self s"
    "scheds s3 = (scheds s)(io_self s \<mapsto> (sch w)\<lparr>m_idleThreadCount := m_idleThreadCount (sch w) + 1,
       m_fibers := due_tasks now2 s\<rparr>)"
    "\<And>s4 sc. handle_events os [] s3 = Inr s4 \<Longrightarrow> scheds s4 (io_self s4) = Some sc \<Longrightarrow>
       \<exists>w4. idle_round os now waits q now2 pn stk i (w, s) = Inr (IdleSwapOut tw, w4, s4) \<and> worker pn i w4 \<and>
         sch w4 = sc\<lparr>m_idleThreadCount := m_idleThreadCount sc - 1\<rparr> \<and> idle_local i w w4"
    using idle_round_goes_on [OF assms(1,2,4) wr assms(6,7,3,8), of now2 stk] by metis
  from s3(2,3,4) obtain w1 where w1: "idle_round os now waits q now2 pn stk i (w, s) = Inr (IdleSwapOut tw, w1, s3)"
    "worker pn i w1" "sch w1 = (sch w)\<lparr>m_fibers := due_tasks now2 s\<rparr>" by fastforce
  let ?fts = "map (\<lambda>cb. ft_of_cb cb (- 1)) ?cbs"
  have q: "m_fibers (sch w1) = ?fts @ []" using w1(3) due_tasks_all [OF assms(9)] by simp
  have f: "list_all (function_task i) ?fts"
    using assms(9) by (auto simp: list_all_iff function_task_def ft_of_cb_def)
  have "length as = length ?fts" "at_top pn i w1" using assms(11) w1(2) by (simp_all add: worker_def)
  from run_turns_serve [OF this(2) assms(10) q f this(1)] obtain w2
    where w2: "run_turns pn stk i as w1 = Inr (map ft_cb ?fts, w2)" "at_top pn i w2"
      "sch w2 = (sch w1)\<lparr>m_fibers := [] @ filter ft_valid (concat (map spawns as))\<rparr>" "local_to pn i w1 w2" by blast
  have cb: "map ft_cb ?fts = ?cbs" by (simp add: comp_def ft_of_cb_def)
  have "sorted (map (next_of (theap (timers s))) (m_timers (timers s)))"
    using assms(6) unfolding timers_wf_def sorted_map
    by (auto elim!: sorted_wrt_mono_rel [rotated] simp: timer_lt_iff)
  then have "sorted (map (next_of (theap (timers s))) (filter (due now2 (timers s)) (m_timers (timers s))))"
    by (rule sorted_filter)
  moreover have "sch w2 = (sch w)\<lparr>m_fibers := filter ft_valid (concat (map spawns as))\<rparr>"
    using w2(3) w1(3) by simp
  moreover have "worker pn i w2" by (rule worker_local [OF w1(2) w2(4,2)])
  moreover have "?cbs = map (\<lambda>p. timer_cb (the (theap (timers s) p))) (filter (due now2 (timers s)) (m_timers (timers s)))"
    by (simp add: due_callbacks_def)
  ultimately show ?thesis using w1(1) w2(1) s3(1) unfolding cb by blast
qed

section \<open>Stopping\<close>

text \<open>Without a task, a timer or a pending event a stopping worker leaves the loop.\<close>

lemma idle_round_exits:
  assumes "worker pn i w" and "m_fibers (sch w) = []" and "stopping (sch w)" and "m_timers (timers s) = []"
    and "m_pendingEventCount s = 0"
  obtains w1 w2 w3 w4 w5 w6 s2 where "run_take i w = Inr w1" "run_dispatch pn stk i w1 = Inr w2" "pc (rl w2 i) = InIdle"
    "io_idle_body os now waits q now2 pn i (w2, s) = Inr (IdleExit, w3, s2)" "run_return i w3 = Inr w4"
    "run_take i w4 = Inr w5" "run_dispatch pn stk2 i w5 = Inr w6" "left_loop pn i w6" "sch w6 = sch w"
    "idle_local i w w6" "s2 = (manager (w2, s))\<lparr>timers := snd (getNextTimer now (timers s))\<rparr>"
proof -
  from idle_enter [OF assms(1,2)] obtain w1 w2 where e: "run_take i w = Inr w1" "run_dispatch pn stk i w1 = Inr w2"
    "in_idle pn i w2" "sch w2 = (sch w)\<lparr>m_idleThreadCount := m_idleThreadCount (sch w) + 1\<rparr>" "idle_local i w w2" by blast
  let ?s2 = "(manager (w2, s))\<lparr>timers := snd (getNextTimer now (timers s))\<rparr>"
  have "stopping (sch w2)" using assms(3) by (simp add: stopping_def e(4))
  moreover have "fst (getNextTimer now (timers s)) = - 1" using assms(4) by (simp add: getNextTimer_def)
  ultimately have "idle_turn os now waits q now2 (manager (w2, s)) = Inr (IdleExit, ?s2)"
    "scheds ?s2 (io_self ?s2) = Some (sch w2)"
    using assms(5) by (simp_all add: idle_turn_def stopping_timeout_manager)
  then have o: "on_io (idle_turn os now waits q now2) (w2, s) = Inr (IdleExit, w2, ?s2)" by (simp add: on_io_def)
  have "m_fibers (sch w2) = []" by (simp add: e(4) assms(2))
  from idle_finish [OF e(3) this, of pn stk2] obtain w3 w4 w5 w6
    where f: "on_thread i (MainFunc pn Returns) w2 = Inr w3" "run_return i w3 = Inr w4"
      "sch w4 = (sch w2)\<lparr>m_idleThreadCount := m_idleThreadCount (sch w2) - 1\<rparr>" "idle_local i w2 w6"
      "run_take i w4 = Inr w5" "run_dispatch pn stk2 i w5 = Inr w6" "left_loop pn i w6" "sch w6 = sch w4" by blast
  have b: "io_idle_body os now waits q now2 pn i (w2, s) = Inr (IdleExit, w3, ?s2)"
    using o f(1) by (simp add: io_idle_body_def)
  have p: "pc (rl w2 i) = InIdle" using e(3) by (simp add: in_idle_def Let_def)
  have sc: "sch w6 = sch w" by (simp add: f(3,8) e(4))
  from that [OF e(1,2) p b f(2,5,6,7) sc idle_local_trans [OF e(5) f(4)] refl] show thesis .
qed


section \<open>Events\<close>

lemma io_schedule_self: "io_schedule os k ft s = Inr s' \<Longrightarrow> io_self s' = io_self s"
  by (auto simp: io_schedule_def res_iffs Let_def case_prod_beta split: if_splits dest!: io_tickle_frame)

lemma trigger_dec_self: "trigger_dec os e p s = Inr s' \<Longrightarrow> io_self s' = io_self s"
  by (auto simp: trigger_dec_def triggerEvent_def res_iffs Let_def put_fd_def split: if_splits
      dest!: io_schedule_self)

lemma handle_event_self: "handle_event os ev s = Inr s' \<Longrightarrow> io_self s' = io_self s"
  by (auto simp: handle_event_def handle_ptr_def res_iffs Let_def split: epoll_data.splits if_splits prod.splits
      dest!: trigger_dec_self)

text \<open>The worker executes the task fiber \<open>p\<close>.\<close>

definition in_fiber :: "nat \<Rightarrow> int \<Rightarrow> nat \<Rightarrow> world \<Rightarrow> bool" where
  "in_fiber pn i p w \<longleftrightarrow>
     pc (rl w i) = InFiber p \<and> ctx_rt (env w) = 0 \<and> t_fiber (tl w i) = Some p \<and> p \<noteq> idle_fiber (rl w i) \<and>
     p \<noteq> pn \<and> cb_fiber (rl w i) \<noteq> Some p \<and> state_of (env w) p = EXEC \<and>
     (\<exists>f. fheap (env w) p = Some f) \<and> idle_ready pn i w \<and>
     (\<exists>mf fm. t_mainFiber (tl w i) = Some mf \<and> fheap (env w) mf = Some fm \<and> p \<noteq> mf \<and>
        cb_slot pn mf (cb_fiber (rl w i)) (fheap (env w)))"

text \<open>The fiber \<open>p\<close> waits behind a yield.\<close>

definition on_hold :: "int \<Rightarrow> nat \<Rightarrow> world \<Rightarrow> bool" where
  "on_hold i p w \<longleftrightarrow>
     p \<noteq> idle_fiber (rl w i) \<and> t_mainFiber (tl w i) \<noteq> Some p \<and>
     (\<exists>f. fheap (env w) p = Some f \<and> m_state f = HOLD \<and> resume (m_ctx f) = InCallback)"

lemma on_hold_local: "on_hold i p w \<Longrightarrow> idle_local i w w' \<Longrightarrow> on_hold i p w'"
  by (auto simp: on_hold_def idle_local_def)

lemma fiber_yields:
  assumes "in_fiber pn i p w"
  shows "\<exists>w1 w2. on_thread i (YieldToHold pm) w = Inr w1 \<and> run_return i w1 = Inr w2 \<and> worker pn i w2 \<and>
    on_hold i p w2 \<and> sch w2 = (sch w)\<lparr>m_activeThreadCount := m_activeThreadCount (sch w) - 1\<rparr> \<and>
    cb_fiber (rl w2 i) = cb_fiber (rl w i)"
proof -
  obtain mf fm f where a: "pc (rl w i) = InFiber p" "ctx_rt (env w) = 0" "t_fiber (tl w i) = Some p"
    "p \<noteq> idle_fiber (rl w i)" "p \<noteq> pn" "cb_fiber (rl w i) \<noteq> Some p" "fheap (env w) p = Some f" "idle_ready pn i w"
    "t_mainFiber (tl w i) = Some mf" "fheap (env w) mf = Some fm" "p \<noteq> mf"
    "cb_slot pn mf (cb_fiber (rl w i)) (fheap (env w))"
    using assms by (auto simp: in_fiber_def)
  let ?f = "f\<lparr>m_state := HOLD, m_ctx := (m_ctx f)\<lparr>resume := InCallback\<rparr>\<rparr>"
  let ?t = "(tl w i)\<lparr>t_fiber := Some mf, cpu := (mf, resume (m_ctx fm))\<rparr>"
  let ?w1 = "w\<lparr>env := set_fiber p ?f (env w), tl := (tl w)(i := ?t)\<rparr>"
  let ?w2 = "(set_pc i Top (add_active (- 1) ?w1))\<lparr>env := set_fiber p (?f\<lparr>m_state := HOLD\<rparr>) (env ?w1)\<rparr>"
  have 1: "on_thread i (YieldToHold pm) w = Inr ?w1"
    by (rule on_thread_eq) (rule YieldTo_eq [OF a(3,7,9,10,11,2)])
  have 2: "run_return i ?w1 = Inr ?w2"
    using a(1) by (simp add: run_return_def hold_if_live_def state_of_def set_state_def rl_set_pc Let_def)
  have 3: "at_top pn i ?w2"
    using a by (auto simp: at_top_def cb_slot_def rl_set_pc split: option.splits)
  have 4: "idle_ready pn i ?w2"
    using a by (auto simp: idle_ready_def Let_def rl_set_pc)
  have 5: "on_hold i p ?w2" using a by (auto simp: on_hold_def rl_set_pc)
  have 6: "sch ?w2 = (sch w)\<lparr>m_activeThreadCount := m_activeThreadCount (sch w) - 1\<rparr>"
    by (simp add: add_active_def)
  have 7: "cb_fiber (rl ?w2 i) = cb_fiber (rl w i)" by (simp add: rl_set_pc)
  show ?thesis using 1 2 3 4 5 6 7 unfolding worker_def by blast
qed

text \<open>A scheduled fiber that does not execute is loaded by the next turn of any thread's loop.\<close>

lemma fiber_loaded:
  assumes "m_fibers (sch w) = ft_of_fiber (Some p) (- 1) # q" and "fheap (env w) p = Some f" and "m_state f = HOLD"
    and "resume (m_ctx f) \<noteq> AtNeverReach" and "ctx_rt (env w) = 0"
    and "t_mainFiber (tl w i) = Some mf" and "fheap (env w) mf = Some fm" and "p \<noteq> mf"
  shows "\<exists>w1 w2. run_take i w = Inr w1 \<and> run_dispatch pn stk i w1 = Inr w2 \<and> pc (rl w2 i) = InFiber p \<and>
    t_fiber (tl w2 i) = Some p \<and> cpu (tl w2 i) = (p, resume (m_ctx f)) \<and> state_of (env w2) p = EXEC \<and>
    m_fibers (sch w2) = q \<and> (\<forall>k. k \<noteq> i \<longrightarrow> tl w2 k = tl w k \<and> rl w2 k = rl w k)"
proof -
  let ?ft = "ft_of_fiber (Some p) (- 1)"
  let ?w1 = "set_pc i (Got ?ft True) (add_active 1 (w\<lparr>sch := (sch w)\<lparr>m_fibers := q\<rparr>\<rparr>))"
  have 1: "run_take i w = Inr ?w1"
    using assms(1-3)
    by (simp add: run_take_def ft_of_fiber_def ft_valid_def state_of_def tickle_if_def Let_def)
  let ?g = "set_fiber mf (fm\<lparr>m_ctx := (m_ctx fm)\<lparr>resume := InSwapIn\<rparr>\<rparr>) (set_fiber p (f\<lparr>m_state := EXEC\<rparr>) (env w))"
  let ?t = "(tl w i)\<lparr>t_fiber := Some p, cpu := (p, resume (m_ctx f))\<rparr>"
  let ?w2 = "(set_pc i (InFiber p) (add_active 1 ?w1))\<lparr>env := ?g, tl := (tl w)(i := ?t)\<rparr>"
  have "swapIn p (env w, tl w i) = Inr (?g, ?t)"
    using swapIn_eq [OF assms(2) _ assms(6,7,8,5)] assms(3) by simp
  then have 2: "run_dispatch pn stk i ?w1 = Inr ?w2"
    using assms(4) by (auto simp: run_dispatch_def Let_def on_thread_def resumed_def rl_set_pc ft_of_fiber_def)
  have 3: "pc (rl ?w2 i) = InFiber p" "t_fiber (tl ?w2 i) = Some p" "cpu (tl ?w2 i) = (p, resume (m_ctx f))"
    "state_of (env ?w2) p = EXEC" "m_fibers (sch ?w2) = q" "\<forall>k. k \<noteq> i \<longrightarrow> tl ?w2 k = tl w k \<and> rl ?w2 k = rl w k"
    using assms(8) by (simp_all add: rl_set_pc state_of_def)
  show ?thesis using 1 2 3 by blast
qed

lemma fiber_dispatched:
  assumes "at_top pn i w" and "m_fibers (sch w) = ft_of_fiber (Some p) (- 1) # q" and "on_hold i p w"
  shows "\<exists>w1 w2. run_take i w = Inr w1 \<and> run_dispatch pn stk i w1 = Inr w2 \<and> pc (rl w2 i) = InFiber p \<and>
    t_fiber (tl w2 i) = Some p \<and> cpu (tl w2 i) = (p, InCallback) \<and> state_of (env w2) p = EXEC"
proof -
  obtain mf fm f where a: "ctx_rt (env w) = 0" "t_mainFiber (tl w i) = Some mf" "fheap (env w) mf = Some fm"
    "p \<noteq> mf" "fheap (env w) p = Some f" "m_state f = HOLD" "resume (m_ctx f) = InCallback"
    using assms(1,3) by (auto simp: at_top_def on_hold_def)
  have "resume (m_ctx f) \<noteq> AtNeverReach" using a(7) by simp
  from fiber_loaded [OF assms(2) a(5,6) this a(1-4), of pn stk] a(7) show ?thesis by auto
qed


section \<open>A yield in two parts\<close>

text \<open>\<^verbatim>\<open>YieldToHold\<close> and \<^verbatim>\<open>YieldToReady\<close> up to the switch: they set the state first.\<close>

definition yield_mark :: "State \<Rightarrow> nat \<Rightarrow> fstate \<Rightarrow> (nat \<times> fstate) res" where
  "yield_mark st pm s =
     bind_res (GetThis pm s) (\<lambda>(cur, s1).
       bind_res (set_state cur st (fst s1)) (\<lambda>g. Inr (cur, g, snd s1)))"

lemma YieldTo_parts: "YieldTo st pm s = bind_res (yield_mark st pm s) (\<lambda>(cur, s1). swapOut cur InCallback s1)"
  by (auto simp: YieldTo_def yield_mark_def bind_res_def split: sum.split)

text \<open>
  C17. A fiber can execute on two threads at once. The loop skips a scheduled fiber only while its state is \<^verbatim>\<open>EXEC\<close>, and a
  fiber that waits with \<^verbatim>\<open>YieldToHold\<close> sets \<^verbatim>\<open>HOLD\<close> before it leaves its stack. When its event occurs between its
  registration and its switch, another thread takes the fiber in this window: that thread loads the
  context of an earlier switch while the first one still executes the fiber, and both believe the fiber
  to be their current one.
\<close>

theorem hold_race:
  assumes "in_fiber pn i p w" and "cpu (tl w i) = (p, a)" and "j \<noteq> i" and "at_top pn j w"
    and "t_mainFiber (tl w j) \<noteq> Some p" and "fheap (env w) p = Some f" and "resume (m_ctx f) \<noteq> AtNeverReach"
    and "m_fibers (sch w) = [ft_of_fiber (Some p) (- 1)]"
  shows "(\<exists>w1. run_take j w = Inr w1 \<and> pc (rl w1 j) = Got ft_reset False \<and> m_fibers (sch w1) = m_fibers (sch w)) \<and>
    (\<exists>g t w2 w3. yield_mark HOLD pm (env w, tl w i) = Inr (p, g, t) \<and>
       run_take j (w\<lparr>env := g, tl := (tl w)(i := t)\<rparr>) = Inr w2 \<and> run_dispatch pn stk j w2 = Inr w3 \<and>
       cpu (tl w3 i) = (p, a) \<and> cpu (tl w3 j) = (p, resume (m_ctx f)) \<and>
       t_fiber (tl w3 i) = Some p \<and> t_fiber (tl w3 j) = Some p)"
proof
  have ex: "state_of (env w) p = EXEC" "t_fiber (tl w i) = Some p" using assms(1) by (auto simp: in_fiber_def)
  then show "\<exists>w1. run_take j w = Inr w1 \<and> pc (rl w1 j) = Got ft_reset False \<and> m_fibers (sch w1) = m_fibers (sch w)"
    using assms(8) by (simp add: run_take_def ft_of_fiber_def ft_valid_def tickle_if_def rl_set_pc)
  let ?g = "set_fiber p (f\<lparr>m_state := HOLD\<rparr>) (env w)"
  let ?w1 = "w\<lparr>env := ?g, tl := (tl w)(i := tl w i)\<rparr>"
  have m: "yield_mark HOLD pm (env w, tl w i) = Inr (p, ?g, tl w i)"
    using GetThis_cur [OF ex(2), of pm "env w"] assms(6) by (simp add: yield_mark_def set_state_def)
  obtain mf fm where mf: "t_mainFiber (tl w j) = Some mf" "fheap (env w) mf = Some fm" "ctx_rt (env w) = 0"
    using assms(4) by (auto simp: at_top_def)
  have "p \<noteq> mf" using assms(5) mf(1) by auto
  then have "\<exists>w2 w3. run_take j ?w1 = Inr w2 \<and> run_dispatch pn stk j w2 = Inr w3 \<and> pc (rl w3 j) = InFiber p \<and>
      t_fiber (tl w3 j) = Some p \<and> cpu (tl w3 j) = (p, resume (m_ctx (f\<lparr>m_state := HOLD\<rparr>))) \<and>
      state_of (env w3) p = EXEC \<and> m_fibers (sch w3) = [] \<and>
      (\<forall>k. k \<noteq> j \<longrightarrow> tl w3 k = tl ?w1 k \<and> rl w3 k = rl ?w1 k)"
    by (intro fiber_loaded [where mf = mf and fm = fm]) (use assms(7,8) mf in auto)
  then obtain w2 w3 where w: "run_take j ?w1 = Inr w2" "run_dispatch pn stk j w2 = Inr w3"
    "t_fiber (tl w3 j) = Some p" "cpu (tl w3 j) = (p, resume (m_ctx f))" "tl w3 i = tl w i"
    using assms(3) by auto
  show "\<exists>g t w2 w3. yield_mark HOLD pm (env w, tl w i) = Inr (p, g, t) \<and>
       run_take j (w\<lparr>env := g, tl := (tl w)(i := t)\<rparr>) = Inr w2 \<and> run_dispatch pn stk j w2 = Inr w3 \<and>
       cpu (tl w3 i) = (p, a) \<and> cpu (tl w3 j) = (p, resume (m_ctx f)) \<and>
       t_fiber (tl w3 i) = Some p \<and> t_fiber (tl w3 j) = Some p"
    using m w ex(2) assms(2) by metis
qed

section \<open>The theorems on the example worker\<close>

text \<open>Thread 0 at the top of its loop; its idle fiber is fiber 2.\<close>

definition demo_worker :: world where
  "demo_worker = demo_world\<lparr>rl := (\<lambda>_. \<lparr>pc = Top, idle_fiber = 2, cb_fiber = None\<rparr>)\<rparr>"

lemmas demo_worker_simps = demo_worker_def demo_defs

lemma demo_worker_ok: "worker 3 0 demo_worker" "m_fibers (sch demo_worker) = []" "\<not> stopping (sch demo_worker)"
  "\<not> m_autoStop (sch demo_worker)"
  by (simp_all add: worker_def at_top_def idle_ready_def cb_slot_def demo_worker_simps makecontext_def stopping_def)

theorem due_timers_run_in_order_witness:
  "\<exists>w1 s1 w2. idle_round demo_os 105 [Some []] 9 120 3 9 0 (demo_worker, demo_io_timers) = Inr (IdleSwapOut 15, w1, s1) \<and>
     run_turns 3 9 0 [\<lparr>spawns = [ft_of_cb (Some (Fn 7)) (- 1)], ends_by = Returns\<rparr>] w1 = Inr ([Some (Fn 2)], w2) \<and>
     m_fibers (sch w2) = [ft_of_cb (Some (Fn 7)) (- 1)]"
proof -
  have "due_callbacks 120 (timers demo_io_timers) = [Some (Fn 2)]"
    by (simp add: demo_io_timers_def two_timers_eq due_callbacks_def due_def next_of_def Timer_new_def
      detectClockRollover_def)
  moreover have "io_inv demo_io_timers" using io_system.inv_reach [OF demo_io_timers_reach] by simp
  moreover have "theap (timers demo_io_timers) 9 = None" by (simp add: demo_io_timers_def two_timers_eq)
  moreover have "wait_events (fst (getNextTimer 105 (timers demo_io_timers))) [Some []] = Some (15, [])"
    by (simp add: demo_io_timers_def two_timers_eq getNextTimer_def Timer_new_def next_of_def wait_timeout_def adjust_timeout_def int_cast_def
        MAX_TIMEOUT_def)
  moreover have "ft_valid (ft_of_cb (Some (Fn 7)) (- 1))" by (simp add: ft_of_cb_def ft_valid_def)
  ultimately show ?thesis
    using due_timers_run_in_order [OF demo_worker_ok(1-3) _ demo_os_ok demo_timers_wf, of 9 105 "[Some []]" 15 120 9
        "[\<lparr>spawns = [ft_of_cb (Some (Fn 7)) (- 1)], ends_by = Returns\<rparr>]"] by fastforce
qed


text \<open>The thread executes fiber 6, beside its idle fiber.\<close>

definition demo_in_fiber :: world where
  "demo_in_fiber = demo_worker\<lparr>env := demo_env2\<lparr>fheap := (fheap demo_env2)(6 \<mapsto> demo_fiber\<lparr>m_state := EXEC\<rparr>)\<rparr>,
     tl := (\<lambda>_. demo_tls\<lparr>t_fiber := Some 6\<rparr>),
     rl := (\<lambda>_. \<lparr>pc = InFiber 6, idle_fiber = 2, cb_fiber = None\<rparr>)\<rparr>"

lemma demo_in_fiber_ok: "in_fiber 3 0 6 demo_in_fiber" "m_fibers (sch demo_in_fiber) = []"
  "\<not> m_autoStop (sch demo_in_fiber)"
  by (simp_all add: in_fiber_def idle_ready_def cb_slot_def demo_in_fiber_def demo_worker_simps makecontext_def
      state_of_def)


text \<open>Beside it a second thread at the top of its loop, with a main fiber of its own.\<close>

definition demo_two_threads :: world where
  "demo_two_threads = demo_in_fiber\<lparr>
     sch := demo_sched\<lparr>m_fibers := [ft_of_fiber (Some 6) (- 1)]\<rparr>,
     env := (env demo_in_fiber)\<lparr>fheap := (fheap (env demo_in_fiber))(8 \<mapsto> demo_main)\<rparr>,
     tl := (\<lambda>_. demo_tls\<lparr>t_mainFiber := Some 8\<rparr>)(0 := demo_tls\<lparr>t_fiber := Some 6, cpu := (6, InCallback)\<rparr>),
     rl := (rl demo_in_fiber)(1 := \<lparr>pc = Top, idle_fiber = 2, cb_fiber = None\<rparr>)\<rparr>"

theorem hold_race_witness:
  "\<exists>g t w2 w3. yield_mark HOLD 0 (env demo_two_threads, tl demo_two_threads 0) = Inr (6, g, t) \<and>
     run_take 1 (demo_two_threads\<lparr>env := g, tl := (tl demo_two_threads)(0 := t)\<rparr>) = Inr w2 \<and>
     run_dispatch 3 9 1 w2 = Inr w3 \<and> cpu (tl w3 0) = (6, InCallback) \<and> cpu (tl w3 1) = (6, AtMainFunc)"
proof -
  have "in_fiber 3 0 6 demo_two_threads" "at_top 3 1 demo_two_threads"
    by (simp_all add: in_fiber_def at_top_def idle_ready_def cb_slot_def demo_two_threads_def demo_in_fiber_def
        demo_worker_simps makecontext_def state_of_def)
  moreover have "fheap (env demo_two_threads) 6 = Some (demo_fiber\<lparr>m_state := EXEC\<rparr>)"
    "m_fibers (sch demo_two_threads) = [ft_of_fiber (Some 6) (- 1)]" "cpu (tl demo_two_threads 0) = (6, InCallback)"
    "t_mainFiber (tl demo_two_threads 1) \<noteq> Some 6" "resume (m_ctx (demo_fiber\<lparr>m_state := EXEC\<rparr>)) = AtMainFunc"
    by (simp_all add: demo_two_threads_def demo_in_fiber_def demo_worker_simps makecontext_def)
  ultimately show ?thesis
    using hold_race [of 3 0 6 demo_two_threads InCallback 1 "demo_fiber\<lparr>m_state := EXEC\<rparr>" 0 9] by auto
qed

end
