(* ===== verification/Duan_Hook.thy ===== *)
theory Duan_Hook
  imports Duan_IOManager "HOL-Library.Signed_Division"
begin

unbundle bit_operations_syntax

text \<open>
  \<^verbatim>\<open>hook.h\<close>, \<^verbatim>\<open>hook.cc\<close>: system calls that put the calling fiber to sleep instead of blocking its thread. The
  file is not part of the build: the class \<^verbatim>\<open>FdMgr\<close> with its contexts \<^verbatim>\<open>FdCtx\<close> and the function
  \<^verbatim>\<open>Fiber::yield\<close> do not exist in the repository. The descriptor manager is therefore an argument, and a
  hooked call is cut at the \<^verbatim>\<open>yield\<close>: one function up to it, one for what follows when the fiber runs
  again. What the original functions (the names with \<^verbatim>\<open>_f\<close>) return is an argument too. Log messages are not
  modelled.
\<close>

section \<open>Constants\<close>

definition EINTR :: int where "EINTR = 4"
definition EBADF :: int where "EBADF = 9"
definition EAGAIN :: int where "EAGAIN = 11"
definition ETIMEDOUT :: int where "ETIMEDOUT = 110"
definition EINPROGRESS :: int where "EINPROGRESS = 115"

definition SOL_SOCKET :: int where "SOL_SOCKET = 1"
definition SO_RCVTIMEO :: int where "SO_RCVTIMEO = 20"
definition SO_SNDTIMEO :: int where "SO_SNDTIMEO = 21"

definition O_NONBLOCK :: u32 where "O_NONBLOCK = 2048"
definition F_GETFL :: int where "F_GETFL = 3"
definition F_SETFL :: int where "F_SETFL = 4"
definition FIONBIO :: int where "FIONBIO = 21537"

section \<open>State\<close>

text \<open>The descriptor manager, over a state of its own; contexts are named by addresses.\<close>

record 'm FdMgr =
  fd_get :: "int \<Rightarrow> bool \<Rightarrow> 'm \<Rightarrow> nat option \<times> 'm"
  fd_del :: "int \<Rightarrow> 'm \<Rightarrow> 'm"
  isClose :: "nat \<Rightarrow> 'm \<Rightarrow> bool"
  isSocket :: "nat \<Rightarrow> 'm \<Rightarrow> bool"
  getUserNonblock :: "nat \<Rightarrow> 'm \<Rightarrow> bool"
  setUserNonblock :: "nat \<Rightarrow> bool \<Rightarrow> 'm \<Rightarrow> 'm"
  getSysNonblock :: "nat \<Rightarrow> 'm \<Rightarrow> bool"
  getTimeout :: "nat \<Rightarrow> int \<Rightarrow> 'm \<Rightarrow> u64"
  setTimeout :: "nat \<Rightarrow> int \<Rightarrow> u64 \<Rightarrow> 'm \<Rightarrow> 'm"

text \<open>
  \<open>mgr\<close> is \<^verbatim>\<open>IOManager::GetThis()\<close>, \<open>gt\<close> the calling thread's fibers, \<open>cancelled\<close> the live \<^verbatim>\<open>timer_info\<close> objects by
  their only member.
\<close>

record 'm hook =
  mgr :: "io option"
  gt :: fstate
  fds :: 'm
  errno :: int
  t_hook_enable :: bool
  cancelled :: "nat \<Rightarrow> int option"
  s_connect_timeout :: u64

text \<open>
  What one call needs from outside: the kernel, addresses for new objects, the clock, and the name of
  the function object it gives to a timer.
\<close>

record hook_call =
  c_os :: os
  c_new_at :: "nat \<Rightarrow> nat"
  c_main :: nat
  c_timer :: nat
  c_now :: u64
  c_fn :: nat

datatype hook_next =
    Returned int
  | Yields "nat option"
  | Loops

definition is_hook_enable :: "'m hook \<Rightarrow> bool" where
  "is_hook_enable h = t_hook_enable h"

definition set_hook_enable :: "bool \<Rightarrow> 'm hook \<Rightarrow> 'm hook" where
  "set_hook_enable flag h = h\<lparr>t_hook_enable := flag\<rparr>"

text \<open>
  \<^verbatim>\<open>hook_init\<close> looks up every original function with \<^verbatim>\<open>dlsym\<close>; before, its pointer is null (0). The state is the
  static flag \<^verbatim>\<open>is_inited\<close>, which is tested and never set, and the pointers by name.
\<close>

definition HOOK_FUN :: "string list" where
  "HOOK_FUN =
     [''sleep'', ''usleep'', ''nanosleep'', ''socket'', ''connect'', ''accept'', ''read'', ''readv'', ''recv'', ''recvfrom'',
      ''recvmsg'', ''write'', ''writev'', ''send'', ''sendto'', ''sendmsg'', ''close'', ''fcntl'', ''ioctl'', ''getsockopt'',
      ''setsockopt'']"

definition originals_null :: "string \<Rightarrow> nat" where
  "originals_null = (\<lambda>name. 0)"

definition hook_init :: "(string \<Rightarrow> nat) \<Rightarrow> bool \<times> (string \<Rightarrow> nat) \<Rightarrow> bool \<times> (string \<Rightarrow> nat)" where
  "hook_init dlsym st =
     (let (is_inited, orig) = st in
      if is_inited then st else (is_inited, fold (\<lambda>name orig. orig(name := dlsym name)) HOOK_FUN orig))"

text \<open>The listener of \<^verbatim>\<open>tcp.connect.timeout\<close>: an \<^verbatim>\<open>int\<close> assigned to a \<^verbatim>\<open>uint64_t\<close>.\<close>

definition connect_timeout_listener :: "int \<Rightarrow> int \<Rightarrow> 'm hook \<Rightarrow> 'm hook" where
  "connect_timeout_listener old_value new_value h = h\<lparr>s_connect_timeout := of_int new_value\<rparr>"

text \<open>A call of an original function: it sets \<^verbatim>\<open>errno\<close> when it fails.\<close>

definition sys_call :: "int \<times> int \<Rightarrow> 'm hook \<Rightarrow> int \<times> 'm hook" where
  "sys_call r h = (fst r, if fst r = - 1 then h\<lparr>errno := snd r\<rparr> else h)"

definition get_ctx :: "'m FdMgr \<Rightarrow> int \<Rightarrow> bool \<Rightarrow> 'm hook \<Rightarrow> nat option \<times> 'm hook" where
  "get_ctx M fd auto_create h = (let (c, m) = fd_get M fd auto_create (fds h) in (c, h\<lparr>fds := m\<rparr>))"

definition with_mgr :: "(io \<Rightarrow> io res) \<Rightarrow> 'm hook \<Rightarrow> 'm hook res" where
  "with_mgr f h = deref ''iom'' (mgr h) (\<lambda>s. bind_res (f s) (\<lambda>s'. Inr (h\<lparr>mgr := Some s'\<rparr>)))"

section \<open>Timers of a hooked call\<close>

text \<open>\<^verbatim>\<open>iom->addTimer\<close> and \<^verbatim>\<open>iom->addConditionTimer\<close> with the virtual \<^verbatim>\<open>onTimerInsertedAtFront\<close>.\<close>

definition timer_added :: "os \<Rightarrow> bool \<times> timer_manager \<Rightarrow> io \<Rightarrow> io res" where
  "timer_added os r s =
     (let s1 = s\<lparr>timers := snd r\<rparr> in if fst r then onTimerInsertedAtFront os s1 else Inr s1)"

definition iom_addTimer :: "hook_call \<Rightarrow> u64 \<Rightarrow> callback \<Rightarrow> io \<Rightarrow> io res" where
  "iom_addTimer a ms cb s =
     timer_added (c_os a) (addTimer (c_timer a) (c_now a) ms (Some cb) False (timers s)) s"

definition iom_addConditionTimer :: "hook_call \<Rightarrow> u64 \<Rightarrow> callback \<Rightarrow> nat \<Rightarrow> io \<Rightarrow> io res" where
  "iom_addConditionTimer a ms cb weak_cond s =
     timer_added (c_os a) (addConditionTimer (c_timer a) (c_now a) ms cb weak_cond False (timers s)) s"

text \<open>\<^verbatim>\<open>if(timer) timer->cancel()\<close>.\<close>

definition cancel_timer :: "nat option \<Rightarrow> 'm hook \<Rightarrow> 'm hook res" where
  "cancel_timer timer h =
     (case timer of
        None \<Rightarrow> Inr h
      | Some p \<Rightarrow> with_mgr (\<lambda>s. bind_res (cancel p (timers s)) (\<lambda>(_, tm). Inr (s\<lparr>timers := tm\<rparr>))) h)"

text \<open>
  The function given to the timer: it locks the weak pointer to the \<^verbatim>\<open>timer_info\<close> at \<open>ti\<close> and, the first time,
  marks it and cancels the event.
\<close>

definition on_timeout :: "os \<Rightarrow> nat \<Rightarrow> int \<Rightarrow> u32 \<Rightarrow> 'm hook \<Rightarrow> 'm hook res" where
  "on_timeout os ti fd event h =
     (case cancelled h ti of
        None \<Rightarrow> Inr h
      | Some c \<Rightarrow>
          if c \<noteq> 0 then Inr h
          else with_mgr (\<lambda>s. bind_res (cancelEvent os fd event s) (\<lambda>(_, s'). Inr s'))
                 (h\<lparr>cancelled := (cancelled h)(ti \<mapsto> ETIMEDOUT)\<rparr>))"

text \<open>The end of the scope of the \<^verbatim>\<open>shared_ptr\<close>: the only strong reference is gone.\<close>

definition leave :: "nat \<Rightarrow> int \<Rightarrow> 'm hook \<Rightarrow> (hook_next \<times> 'm hook) res" where
  "leave ti n h = Inr (Returned n, h\<lparr>cancelled := (cancelled h)(ti := None)\<rparr>)"

text \<open>
  Waiting for an event, common to \<^verbatim>\<open>do_io\<close> and \<^verbatim>\<open>connect_with_timeout\<close>: the timer, if there is a time limit,
  and the event. The results are what \<^verbatim>\<open>addEvent\<close> returned and the timer.
\<close>

definition wait_for ::
  "hook_call \<Rightarrow> nat \<Rightarrow> u64 \<Rightarrow> int \<Rightarrow> u32 \<Rightarrow> 'm hook \<Rightarrow> (int \<times> nat option \<times> 'm hook) res" where
  "wait_for a ti to fd event h =
     deref ''iom'' (mgr h) (\<lambda>s.
       bind_res
         (if to \<noteq> - 1 then iom_addConditionTimer a to (Fn (c_fn a)) ti s else Inr s)
         (\<lambda>s1.
           bind_res (addEvent (c_os a) (c_new_at a) (Some (io_self s1)) (c_main a) fd event None (s1, gt h))
             (\<lambda>(rt, s2, g). Inr (rt, if to \<noteq> - 1 then Some (c_timer a) else None, h\<lparr>mgr := Some s2, gt := g\<rparr>))))"

section \<open>Reading and writing\<close>

text \<open>
  The call and the loop that repeats it while it is interrupted: \<open>outs\<close> is what the calls return. A call that is
  interrupted for ever gives \<^term>\<open>None\<close>.
\<close>

fun call_until :: "(int \<times> int) list \<Rightarrow> (int \<times> int) option" where
  "call_until [] = None"
| "call_until (r # rs) = (if fst r = - 1 \<and> snd r = EINTR then call_until rs else Some r)"

text \<open>\<^verbatim>\<open>do_io\<close> from the label \<^verbatim>\<open>retry\<close> to its end or to the \<^verbatim>\<open>yield\<close>.\<close>

definition do_io_retry ::
  "hook_call \<Rightarrow> nat \<Rightarrow> u64 \<Rightarrow> int \<Rightarrow> u32 \<Rightarrow> (int \<times> int) list \<Rightarrow> 'm hook \<Rightarrow> (hook_next \<times> 'm hook) res" where
  "do_io_retry a ti to fd event outs h =
     (case call_until outs of
        None \<Rightarrow> Inr (Loops, h)
      | Some r \<Rightarrow>
          (let (n, h1) = sys_call r h in
           if n = - 1 \<and> errno h1 = EAGAIN then
             bind_res (wait_for a ti to fd event h1) (\<lambda>(rt, timer, h2).
               if rt \<noteq> 0 then bind_res (cancel_timer timer h2) (leave ti (- 1))
               else Inr (Yields timer, h2))
           else leave ti n h1))"

text \<open>\<^verbatim>\<open>do_io\<close> after the \<^verbatim>\<open>yield\<close>.\<close>

definition do_io_resume ::
  "hook_call \<Rightarrow> nat \<Rightarrow> u64 \<Rightarrow> int \<Rightarrow> u32 \<Rightarrow> nat option \<Rightarrow> (int \<times> int) list \<Rightarrow> 'm hook \<Rightarrow>
     (hook_next \<times> 'm hook) res" where
  "do_io_resume a ti to fd event timer outs h =
     bind_res (cancel_timer timer h) (\<lambda>h1.
       deref ''tinfo'' (cancelled h1 ti) (\<lambda>c.
         if c \<noteq> 0 then leave ti (- 1) (h1\<lparr>errno := c\<rparr>)
         else do_io_retry a ti to fd event outs h1))"

text \<open>One call of the original function.\<close>

definition call_once :: "(int \<times> int) list \<Rightarrow> 'm hook \<Rightarrow> (hook_next \<times> 'm hook) res" where
  "call_once outs h =
     (case outs of
        [] \<Rightarrow> Inr (Loops, h)
      | r # _ \<Rightarrow> (let (n, h1) = sys_call r h in Inr (Returned n, h1)))"

text \<open>\<^verbatim>\<open>do_io\<close> from its start; \<open>ti\<close> is the address of the new \<^verbatim>\<open>timer_info\<close>.\<close>

definition do_io ::
  "'m FdMgr \<Rightarrow> hook_call \<Rightarrow> nat \<Rightarrow> int \<Rightarrow> u32 \<Rightarrow> int \<Rightarrow> (int \<times> int) list \<Rightarrow> 'm hook \<Rightarrow>
     (hook_next \<times> 'm hook) res" where
  "do_io M a ti fd event timeout_so outs h =
     (if \<not> t_hook_enable h then call_once outs h
      else
        let (ctx, h1) = get_ctx M fd False h in
        case ctx of
          None \<Rightarrow> call_once outs h1
        | Some c \<Rightarrow>
            if isClose M c (fds h1) then Inr (Returned (- 1), h1\<lparr>errno := EBADF\<rparr>)
            else if \<not> isSocket M c (fds h1) \<or> getUserNonblock M c (fds h1) then call_once outs h1
            else
              let to = getTimeout M c timeout_so (fds h1)
              in do_io_retry a ti to fd event outs (h1\<lparr>cancelled := (cancelled h1)(ti \<mapsto> 0)\<rparr>))"

text \<open>\<^verbatim>\<open>read\<close>, \<^verbatim>\<open>readv\<close>, \<^verbatim>\<open>recv\<close>, \<^verbatim>\<open>recvfrom\<close>, \<^verbatim>\<open>recvmsg\<close> and the five functions that write.\<close>

definition hook_read ::
  "'m FdMgr \<Rightarrow> hook_call \<Rightarrow> nat \<Rightarrow> int \<Rightarrow> (int \<times> int) list \<Rightarrow> 'm hook \<Rightarrow> (hook_next \<times> 'm hook) res" where
  "hook_read M a ti fd outs h = do_io M a ti fd READ SO_RCVTIMEO outs h"

definition hook_write ::
  "'m FdMgr \<Rightarrow> hook_call \<Rightarrow> nat \<Rightarrow> int \<Rightarrow> (int \<times> int) list \<Rightarrow> 'm hook \<Rightarrow> (hook_next \<times> 'm hook) res" where
  "hook_write M a ti fd outs h = do_io M a ti fd WRITE SO_SNDTIMEO outs h"

text \<open>\<^verbatim>\<open>accept\<close>: the end of the function, given how its \<^verbatim>\<open>do_io\<close> came back.\<close>

definition accept_end :: "'m FdMgr \<Rightarrow> hook_next \<times> 'm hook \<Rightarrow> hook_next \<times> 'm hook" where
  "accept_end M r =
     (case fst r of
        Returned fd \<Rightarrow> (Returned fd, if 0 \<le> fd then snd (get_ctx M fd True (snd r)) else snd r)
      | _ \<Rightarrow> r)"

definition hook_accept ::
  "'m FdMgr \<Rightarrow> hook_call \<Rightarrow> nat \<Rightarrow> int \<Rightarrow> (int \<times> int) list \<Rightarrow> 'm hook \<Rightarrow> (hook_next \<times> 'm hook) res" where
  "hook_accept M a ti s outs h =
     bind_res (do_io M a ti s READ SO_RCVTIMEO outs h) (\<lambda>r. Inr (accept_end M r))"

section \<open>Sockets\<close>

definition hook_socket :: "'m FdMgr \<Rightarrow> int \<times> int \<Rightarrow> 'm hook \<Rightarrow> int \<times> 'm hook" where
  "hook_socket M r h =
     (if \<not> t_hook_enable h then sys_call r h
      else
        let (fd, h1) = sys_call r h
        in if fd = - 1 then (fd, h1) else (fd, snd (get_ctx M fd True h1)))"

text \<open>
  The last part of \<^verbatim>\<open>connect_with_timeout\<close>: \<open>gs\<close> is what \<^verbatim>\<open>getsockopt\<close> returns and \<open>err\<close> the value it stores.
\<close>

definition connect_result :: "int \<times> int \<Rightarrow> int \<Rightarrow> nat \<Rightarrow> 'm hook \<Rightarrow> (hook_next \<times> 'm hook) res" where
  "connect_result gs err ti h =
     (let (rt, h1) = sys_call gs h in
      if rt = - 1 then leave ti (- 1) h1
      else if err = 0 then leave ti 0 h1
      else leave ti (- 1) (h1\<lparr>errno := err\<rparr>))"

definition connect_with_timeout ::
  "'m FdMgr \<Rightarrow> hook_call \<Rightarrow> nat \<Rightarrow> int \<Rightarrow> int \<times> int \<Rightarrow> u64 \<Rightarrow> int \<times> int \<Rightarrow> int \<Rightarrow> 'm hook \<Rightarrow>
     (hook_next \<times> 'm hook) res" where
  "connect_with_timeout M a ti fd r timeout_ms gs err h =
     (if \<not> t_hook_enable h then call_once [r] h
      else
        let (ctx, h1) = get_ctx M fd False h in
        case ctx of
          None \<Rightarrow> Inr (Returned (- 1), h1\<lparr>errno := EBADF\<rparr>)
        | Some c \<Rightarrow>
            if isClose M c (fds h1) then Inr (Returned (- 1), h1\<lparr>errno := EBADF\<rparr>)
            else if \<not> isSocket M c (fds h1) then call_once [r] h1
            else if getUserNonblock M c (fds h1) then call_once [r] h1
            else
              let (n, h2) = sys_call r h1 in
              if n = 0 then Inr (Returned 0, h2)
              else if n \<noteq> - 1 \<or> errno h2 \<noteq> EINPROGRESS then Inr (Returned n, h2)
              else
                bind_res (wait_for a ti timeout_ms fd WRITE (h2\<lparr>cancelled := (cancelled h2)(ti \<mapsto> 0)\<rparr>))
                  (\<lambda>(rt, timer, h3).
                    if rt = 0 then Inr (Yields timer, h3)
                    else bind_res (cancel_timer timer h3) (connect_result gs err ti)))"

text \<open>\<^verbatim>\<open>connect_with_timeout\<close> after the \<^verbatim>\<open>yield\<close>.\<close>

definition connect_resume ::
  "nat \<Rightarrow> nat option \<Rightarrow> int \<times> int \<Rightarrow> int \<Rightarrow> 'm hook \<Rightarrow> (hook_next \<times> 'm hook) res" where
  "connect_resume ti timer gs err h =
     bind_res (cancel_timer timer h) (\<lambda>h1.
       deref ''tinfo'' (cancelled h1 ti) (\<lambda>c.
         if c \<noteq> 0 then leave ti (- 1) (h1\<lparr>errno := c\<rparr>) else connect_result gs err ti h1))"

definition hook_connect ::
  "'m FdMgr \<Rightarrow> hook_call \<Rightarrow> nat \<Rightarrow> int \<Rightarrow> int \<times> int \<Rightarrow> int \<times> int \<Rightarrow> int \<Rightarrow> 'm hook \<Rightarrow>
     (hook_next \<times> 'm hook) res" where
  "hook_connect M a ti sockfd r gs err h =
     connect_with_timeout M a ti sockfd r (s_connect_timeout h) gs err h"

definition hook_close :: "'m FdMgr \<Rightarrow> os \<Rightarrow> int \<Rightarrow> int \<times> int \<Rightarrow> 'm hook \<Rightarrow> (int \<times> 'm hook) res" where
  "hook_close M os fd r h =
     (if \<not> t_hook_enable h then Inr (sys_call r h)
      else
        let (ctx, h1) = get_ctx M fd False h in
        case ctx of
          None \<Rightarrow> Inr (sys_call r h1)
        | Some c \<Rightarrow>
            bind_res
              (if mgr h1 \<noteq> None
               then with_mgr (\<lambda>s. bind_res (cancelAll os fd s) (\<lambda>(_, s'). Inr s')) h1
               else Inr h1)
              (\<lambda>h2. Inr (sys_call r (h2\<lparr>fds := fd_del M fd (fds h2)\<rparr>))))"

section \<open>Sleeping\<close>

text \<open>
  What the three functions give to \<^verbatim>\<open>addTimer\<close>: the product is computed in 32 bits, the quotient is rounded
  down, and the \<^verbatim>\<open>int\<close> is extended with its sign.
\<close>

definition sleep_ms :: "u32 \<Rightarrow> u64" where
  "sleep_ms seconds = ucast (seconds * 1000)"

definition usleep_ms :: "u32 \<Rightarrow> u64" where
  "usleep_ms usec = ucast (usec div 1000)"

definition nanosleep_ms :: "int \<Rightarrow> int \<Rightarrow> u64" where
  "nanosleep_ms tv_sec tv_nsec =
     (let timeout_ms = sint (of_int (tv_sec * 1000 + tv_nsec sdiv 1000 sdiv 1000) :: u32)
      in of_int timeout_ms)"

text \<open>
  The common body up to the \<^verbatim>\<open>yield\<close>; when the fiber runs again the call returns 0. The function given to the
  timer is the bound \<^verbatim>\<open>schedule(fiber, -1)\<close>.
\<close>

definition sleep_for :: "hook_call \<Rightarrow> u64 \<Rightarrow> int \<times> int \<Rightarrow> 'm hook \<Rightarrow> (hook_next \<times> nat \<times> 'm hook) res" where
  "sleep_for a ms r h =
     (if \<not> t_hook_enable h then (let (n, h1) = sys_call r h in Inr (Returned n, 0, h1))
      else
        bind_res (GetThis (c_main a) (gt h)) (\<lambda>(fiber, g).
          bind_res (with_mgr (iom_addTimer a ms (Fn (c_fn a))) (h\<lparr>gt := g\<rparr>)) (\<lambda>h1.
            Inr (Yields (Some (c_timer a)), fiber, h1))))"

definition on_wake :: "os \<Rightarrow> nat \<Rightarrow> 'm hook \<Rightarrow> 'm hook res" where
  "on_wake os fiber h =
     with_mgr (\<lambda>s. io_schedule os (Some (io_self s)) (ft_of_fiber (Some fiber) (- 1)) s) h"

definition hook_sleep :: "hook_call \<Rightarrow> u32 \<Rightarrow> int \<times> int \<Rightarrow> 'm hook \<Rightarrow> (hook_next \<times> nat \<times> 'm hook) res" where
  "hook_sleep a seconds r h = sleep_for a (sleep_ms seconds) r h"

definition hook_usleep :: "hook_call \<Rightarrow> u32 \<Rightarrow> int \<times> int \<Rightarrow> 'm hook \<Rightarrow> (hook_next \<times> nat \<times> 'm hook) res" where
  "hook_usleep a usec r h = sleep_for a (usleep_ms usec) r h"

definition hook_nanosleep ::
  "hook_call \<Rightarrow> int \<Rightarrow> int \<Rightarrow> int \<times> int \<Rightarrow> 'm hook \<Rightarrow> (hook_next \<times> nat \<times> 'm hook) res" where
  "hook_nanosleep a tv_sec tv_nsec r h = sleep_for a (nanosleep_ms tv_sec tv_nsec) r h"

section \<open>Options of descriptors\<close>

text \<open>The last argument of \<^verbatim>\<open>fcntl\<close>: none, an \<^verbatim>\<open>int\<close> by its bits, or a pointer.\<close>

datatype fc_arg = NoArg | IntArg u32 | PtrArg nat

definition int_cmds :: "int list" where
  "int_cmds = [0, 1030, 2, 8, 10, 1024, 1026, 1031]"

definition void_cmds :: "int list" where
  "void_cmds = [1, 9, 11, 1025, 1032]"

definition ptr_cmds :: "int list" where
  "ptr_cmds = [6, 7, 5, 16, 15]"

definition managed_socket :: "'m FdMgr \<Rightarrow> int \<Rightarrow> 'm hook \<Rightarrow> nat option \<times> 'm hook" where
  "managed_socket M fd h =
     (let (ctx, h1) = get_ctx M fd False h
      in (case ctx of
            None \<Rightarrow> None
          | Some c \<Rightarrow> if isClose M c (fds h1) \<or> \<not> isSocket M c (fds h1) then None else Some c, h1))"

definition set_bit_to :: "bool \<Rightarrow> u32 \<Rightarrow> u32" where
  "set_bit_to b arg = (if b then arg OR O_NONBLOCK else arg AND NOT O_NONBLOCK)"

text \<open>
  \<^verbatim>\<open>fcntl\<close>; \<open>fcntl_f\<close> is the original function over the state \<open>k\<close> of the kernel. The lists above are the
  commands of the cases of the \<^verbatim>\<open>switch\<close> that pass an \<^verbatim>\<open>int\<close>, nothing, or a pointer. A call of \<^verbatim>\<open>F_SETFL\<close>
  without an \<^verbatim>\<open>int\<close> is passed on as it is.
\<close>

definition hook_fcntl ::
  "'m FdMgr \<Rightarrow> (int \<Rightarrow> int \<Rightarrow> fc_arg \<Rightarrow> 'k \<Rightarrow> u32 \<times> 'k) \<Rightarrow> int \<Rightarrow> int \<Rightarrow> fc_arg \<Rightarrow> 'm hook \<times> 'k \<Rightarrow>
     u32 \<times> 'm hook \<times> 'k" where
  "hook_fcntl M fcntl_f fd cmd va hk =
     (let (h, k) = hk;
          pass = (\<lambda>va' h'. let (r, k') = fcntl_f fd cmd va' k in (r, h', k'))
      in if cmd = F_SETFL then
           (case va of
              IntArg arg \<Rightarrow>
                (let (ctx, h1) = managed_socket M fd h in
                 case ctx of
                   None \<Rightarrow> pass (IntArg arg) h1
                 | Some c \<Rightarrow>
                     let h2 = h1\<lparr>fds := setUserNonblock M c (arg AND O_NONBLOCK \<noteq> 0) (fds h1)\<rparr>
                     in pass (IntArg (set_bit_to (getSysNonblock M c (fds h2)) arg)) h2)
            | _ \<Rightarrow> pass va h)
         else if cmd = F_GETFL then
           (let (arg, k1) = fcntl_f fd cmd NoArg k;
                (ctx, h1) = managed_socket M fd h
            in case ctx of
                 None \<Rightarrow> (arg, h1, k1)
               | Some c \<Rightarrow> (set_bit_to (getUserNonblock M c (fds h1)) arg, h1, k1))
         else if cmd \<in> set int_cmds then pass va h
         else if cmd \<in> set void_cmds then pass NoArg h
         else if cmd \<in> set ptr_cmds then pass va h
         else pass NoArg h)"

text \<open>\<^verbatim>\<open>ioctl\<close>; \<open>val\<close> is the \<^verbatim>\<open>int\<close> the argument of \<^verbatim>\<open>FIONBIO\<close> points to.\<close>

definition hook_ioctl :: "'m FdMgr \<Rightarrow> int \<Rightarrow> int \<Rightarrow> int \<Rightarrow> int \<times> int \<Rightarrow> 'm hook \<Rightarrow> int \<times> 'm hook" where
  "hook_ioctl M d request val r h =
     (if request = FIONBIO then
        let (ctx, h1) = managed_socket M d h in
        case ctx of
          None \<Rightarrow> sys_call r h1
        | Some c \<Rightarrow> sys_call r (h1\<lparr>fds := setUserNonblock M c (val \<noteq> 0) (fds h1)\<rparr>)
      else sys_call r h)"

definition hook_getsockopt :: "int \<times> int \<Rightarrow> 'm hook \<Rightarrow> int \<times> 'm hook" where
  "hook_getsockopt r h = sys_call r h"

text \<open>\<^verbatim>\<open>setsockopt\<close>; \<open>tv\<close> is the \<^verbatim>\<open>timeval\<close> the option value points to.\<close>

definition hook_setsockopt ::
  "'m FdMgr \<Rightarrow> int \<Rightarrow> int \<Rightarrow> int \<Rightarrow> int \<times> int \<Rightarrow> int \<times> int \<Rightarrow> 'm hook \<Rightarrow> int \<times> 'm hook" where
  "hook_setsockopt M sockfd level optname tv r h =
     (if \<not> t_hook_enable h then sys_call r h
      else if level = SOL_SOCKET \<and> (optname = SO_RCVTIMEO \<or> optname = SO_SNDTIMEO) then
        let (ctx, h1) = get_ctx M sockfd False h in
        case ctx of
          None \<Rightarrow> sys_call r h1
        | Some c \<Rightarrow>
            sys_call r (h1\<lparr>fds := setTimeout M c optname (of_int (fst tv * 1000 + snd tv sdiv 1000)) (fds h1)\<rparr>)
      else sys_call r h)"

end
