(* ===== verification/Duan_Hook_Properties.thy ===== *)
theory Duan_Hook_Properties
  imports Duan_Hook Duan_IO_Properties
begin

unbundle bit_operations_syntax

text \<open>
  The hooked calls over the timers and the I/O manager: what a call that would block registers, how it ends
  when it is ready and when its time is over, sleeping, and the two views of the flag \<^verbatim>\<open>O_NONBLOCK\<close>.
\<close>

section \<open>Timers and events of a waiting call\<close>

lemma io_same_table:
  fixes s :: io and tm :: timer_manager and b :: nat
  defines "s' \<equiv> s\<lparr>timers := tm, pipe_bytes := b\<rparr>"
  shows "io_inv s \<Longrightarrow> io_inv s'" "registered s' = registered s" "fresh_for new_at s' \<longleftrightarrow> fresh_for new_at s"
proof -
  show "io_inv s'" if "io_inv s"
    by (rule io_inv_frame [OF that]) (simp_all add: s'_def)
  show "registered s' = registered s"
    by (rule registered_cong) (simp_all add: s'_def)
  show "fresh_for new_at s' \<longleftrightarrow> fresh_for new_at s"
    by (simp add: fresh_for_def s'_def)
qed

lemma timer_added_eq:
  assumes "io_inv s" and "write_T os = 1"
  shows "\<exists>b. timer_added os r s = Inr (s\<lparr>timers := snd r, pipe_bytes := b\<rparr>)"
proof (cases "fst r")
  case True
  have "io_self (s\<lparr>timers := snd r\<rparr>) \<in> dom (scheds (s\<lparr>timers := snd r\<rparr>))"
    using assms(1) by (simp add: io_inv_def Let_def)
  from io_tickle_eq [OF this assms(2)] True show ?thesis
    by (simp add: timer_added_def onTimerInsertedAtFront_def)
next
  case False
  then show ?thesis
    by (intro exI [of _ "pipe_bytes s"]) (simp add: timer_added_def)
qed

lemma armed_addTimer:
  assumes "timers_wf m" and "theap m p = None"
  shows "armed (snd (addTimer p now ms cb rec m)) = (armed m)(p \<mapsto> Timer_new now ms cb rec)"
proof -
  have "p \<notin> set (m_timers m)" using assms by (auto simp: timers_wf_def)
  then show ?thesis by (auto simp: armed_def addTimer_fields fun_eq_iff)
qed

lemma cancel_timer_effect:
  assumes "mgr h = Some s" and "timers_wf (timers s)" and "theap (timers s) p = Some t"
  shows "\<exists>tm. cancel_timer (Some p) h = Inr (h\<lparr>mgr := Some (s\<lparr>timers := tm\<rparr>)\<rparr>) \<and> timers_wf tm \<and>
    theap tm p = Some (t\<lparr>timer_cb := None\<rparr>) \<and> (timer_cb t \<noteq> None \<longrightarrow> armed tm = (armed (timers s))(p := None))"
proof (cases "timer_cb t = None")
  case True
  have "h\<lparr>mgr := Some (s\<lparr>timers := timers s\<rparr>)\<rparr> = h" using assms(1) by simp
  moreover have "t\<lparr>timer_cb := None\<rparr> = t" using True by simp
  ultimately show ?thesis
    using assms True
    by (intro exI [of _ "timers s"]) (simp add: cancel_timer_def with_mgr_def cancel_def)
next
  case False
  from cancel_armed [OF assms(2,3) False] obtain tm where c: "cancel p (timers s) = Inr (True, tm)"
    "timers_wf tm" "set (m_timers tm) = set (m_timers (timers s)) - {p}"
    "theap tm = (theap (timers s))(p \<mapsto> t\<lparr>timer_cb := None\<rparr>)" by blast
  then have "armed tm = (armed (timers s))(p := None)" by (auto simp: armed_def fun_eq_iff)
  with c assms(1) show ?thesis
    by (intro exI [of _ tm]) (simp add: cancel_timer_def with_mgr_def)
qed

text \<open>What a call needs that is about to wait: addresses for its objects and a running fiber \<open>cur\<close>.\<close>

definition can_wait :: "hook_call \<Rightarrow> int \<Rightarrow> u32 \<Rightarrow> nat \<Rightarrow> fstate \<Rightarrow> 'm hook \<Rightarrow> io \<Rightarrow> bool" where
  "can_wait a fd e cur g h s \<longleftrightarrow>
     mgr h = Some s \<and> io_inv s \<and> os_ok (c_os a) \<and> timers_wf (timers s) \<and> theap (timers s) (c_timer a) = None \<and>
     fresh_for (c_new_at a) s \<and> 0 \<le> fd \<and> fd < 2 ^ 30 \<and> is_event e \<and> registered s (fd, e) = None \<and>
     GetThis (c_main a) (gt h) = Inr (cur, g) \<and> state_of (fst g) cur = EXEC"

lemma can_waitD:
  assumes "can_wait a fd e cur g h s"
  shows "mgr h = Some s" "io_inv s" "os_ok (c_os a)" "timers_wf (timers s)" "theap (timers s) (c_timer a) = None"
    "fresh_for (c_new_at a) s" "0 \<le> fd" "fd < 2 ^ 30" "is_event e" "registered s (fd, e) = None"
    "GetThis (c_main a) (gt h) = Inr (cur, g)" "state_of (fst g) cur = EXEC"
  using assms by (simp_all add: can_wait_def)

text \<open>
  \<^verbatim>\<open>wait_for\<close> with a time limit: the kernel refuses, or the fiber is registered; in both cases the timer is armed.
\<close>

lemma wait_for_effect:
  assumes "can_wait a fd e cur g h s" and "to \<noteq> - 1"
  obtains (Fail) s1 where
      "wait_for a ti to fd e h = Inr (- 1, Some (c_timer a), h\<lparr>mgr := Some s1\<rparr>)" "registered s1 = registered s"
      "timers_wf (timers s1)" "io_inv s1"
      "armed (timers s1) = (armed (timers s))(c_timer a \<mapsto>
         Timer_new (c_now a) to (Some (OnTimerBind ti (Fn (c_fn a)))) False)"
  | (Ok) s1 where
      "wait_for a ti to fd e h = Inr (0, Some (c_timer a), h\<lparr>mgr := Some s1, gt := g\<rparr>)"
      "registered s1 = (registered s)((fd, e) \<mapsto> (io_self s, ft_of_fiber (Some cur) (- 1)))"
      "timers_wf (timers s1)" "io_inv s1" "scheds s1 = scheds s"
      "armed (timers s1) = (armed (timers s))(c_timer a \<mapsto>
         Timer_new (c_now a) to (Some (OnTimerBind ti (Fn (c_fn a)))) False)"
proof -
  note d = can_waitD [OF assms(1)]
  have ep: "epoll_documented (c_os a)" and w: "write_T (c_os a) = 1" using d(3) by (simp_all add: os_ok_def)
  let ?r = "addConditionTimer (c_timer a) (c_now a) to (Fn (c_fn a)) ti False (timers s)"
  obtain b where t: "iom_addConditionTimer a to (Fn (c_fn a)) ti s = Inr (s\<lparr>timers := snd ?r, pipe_bytes := b\<rparr>)"
    using timer_added_eq [OF d(2) w, of ?r] by (auto simp: iom_addConditionTimer_def)
  let ?s = "s\<lparr>timers := snd ?r, pipe_bytes := b\<rparr>"
  note same = io_same_table [where s = s and tm = "snd ?r" and b = b]
  have tm: "timers_wf (snd ?r)" "armed (snd ?r) = (armed (timers s))(c_timer a \<mapsto>
      Timer_new (c_now a) to (Some (OnTimerBind ti (Fn (c_fn a)))) False)"
    unfolding addConditionTimer_def using addTimer_wf [OF d(4,5)] armed_addTimer [OF d(4,5)] by simp_all
  have "registered ?s (fd, e) = None" "io_self s \<in> dom (scheds ?s)"
    using d(2,10) same(2) by (simp_all add: io_inv_def Let_def)
  note facts = this
  have fr: "fresh_for (c_new_at a) ?s" using same(3) d(6) by simp
  show ?thesis
  proof (rule addEvent_fiber [OF same(1) [OF d(2)] ep fr d(7-9) facts d(11,12)])
    fix s'
    assume "addEvent (c_os a) (c_new_at a) (Some (io_self s)) (c_main a) fd e None (?s, gt h) = Inr (- 1, s', gt h)"
      "io_inv s'" "registered s' = registered ?s" "timers s' = timers ?s"
    then show thesis
      using that(1) [of s'] t d(1) assms(2) tm same(2) by (simp add: wait_for_def)
  next
    fix s'
    assume "addEvent (c_os a) (c_new_at a) (Some (io_self s)) (c_main a) fd e None (?s, gt h) = Inr (0, s', g)"
      "io_inv s'" "registered s' = (registered ?s)((fd, e) \<mapsto> (io_self s, ft_of_fiber (Some cur) (- 1)))"
      "timers s' = timers ?s" "scheds s' = scheds ?s"
    then show thesis
      using that(2) [of s'] t d(1) assms(2) tm same(2) by (simp add: wait_for_def)
  qed
qed

text \<open>A \<^verbatim>\<open>connect\<close> that waits: it is registered for writing, and its timer is armed.\<close>

lemma connect_yields:
  assumes "can_wait a fd WRITE cur g h s" and "to \<noteq> - 1"
    and "connect_with_timeout M a ti fd r to gs err h = Inr (Yields timer, h1)"
  shows "\<exists>s1. mgr h1 = Some s1 \<and> timer = Some (c_timer a) \<and>
    registered s1 = (registered s)((fd, WRITE) \<mapsto> (io_self s, ft_of_fiber (Some cur) (- 1))) \<and>
    armed (timers s1) = (armed (timers s))(c_timer a \<mapsto>
      Timer_new (c_now a) to (Some (OnTimerBind ti (Fn (c_fn a)))) False)"
proof -
  obtain c h0 where c: "get_ctx M fd False h = (c, h0)" by fastforce
  then have h0: "mgr h0 = mgr h" "gt h0 = gt h" by (auto simp: get_ctx_def case_prod_beta)
  obtain n h2 where r: "sys_call r h0 = (n, h2)" by fastforce
  then have h2: "mgr h2 = mgr h" "gt h2 = gt h" using h0 by (auto simp: sys_call_def split: if_splits)
  let ?h = "h2\<lparr>cancelled := (cancelled h2)(ti \<mapsto> 0)\<rparr>"
  have cw: "can_wait a fd WRITE cur g ?h s" using assms(1) h2 by (simp add: can_wait_def)
  have w: "bind_res (wait_for a ti to fd WRITE ?h) (\<lambda>(rt, timer, h3).
      if rt = 0 then Inr (Yields timer, h3)
      else bind_res (cancel_timer timer h3) (connect_result gs err ti)) = Inr (Yields timer, h1)"
    using assms(3) c r
    by (auto simp: connect_with_timeout_def call_once_def Let_def case_prod_beta split: if_splits option.splits)
  show ?thesis
  proof (rule wait_for_effect [OF cw assms(2), of ti])
    fix s1
    assume "wait_for a ti to fd WRITE ?h = Inr (- 1, Some (c_timer a), ?h\<lparr>mgr := Some s1\<rparr>)"
    with w show ?thesis
      by (auto simp: connect_result_def leave_def res_iffs Let_def case_prod_beta split: if_splits)
  next
    fix s1
    assume "wait_for a ti to fd WRITE ?h = Inr (0, Some (c_timer a), ?h\<lparr>mgr := Some s1, gt := g\<rparr>)"
      "registered s1 = (registered s)((fd, WRITE) \<mapsto> (io_self s, ft_of_fiber (Some cur) (- 1)))"
      "armed (timers s1) = (armed (timers s))(c_timer a \<mapsto>
         Timer_new (c_now a) to (Some (OnTimerBind ti (Fn (c_fn a)))) False)"
    with w show ?thesis by auto
  qed
qed

text \<open>Without a time limit there is no timer.\<close>

lemma connect_no_timer:
  assumes "connect_with_timeout M a ti fd r (- 1) gs err h = Inr (Yields timer, h1)"
  shows "timer = None"
  using assms
  by (auto simp: connect_with_timeout_def wait_for_def call_once_def connect_result_def leave_def res_iffs Let_def
      case_prod_beta split: if_splits option.splits)

section \<open>A concrete call\<close>

text \<open>A descriptor manager with one context: the user's flag and the time limit.\<close>

definition demo_fdmgr :: "(bool \<times> u64) FdMgr" where
  "demo_fdmgr = \<lparr>fd_get = \<lambda>fd create m. (Some 0, m), fd_del = \<lambda>fd m. m, isClose = \<lambda>c m. False,
     isSocket = \<lambda>c m. True, getUserNonblock = \<lambda>c m. fst m, setUserNonblock = \<lambda>c b m. (b, snd m),
     getSysNonblock = \<lambda>c m. True, getTimeout = \<lambda>c opt m. snd m, setTimeout = \<lambda>c opt t m. (fst m, t)\<rparr>"

definition demo_hook :: "(bool \<times> u64) hook" where
  "demo_hook = \<lparr>mgr = Some demo_io, gt = demo_gt, fds = (False, 50), errno = 0, t_hook_enable = True,
     cancelled = [4 \<mapsto> 0], s_connect_timeout = 5000\<rparr>"

definition demo_call :: hook_call where
  "demo_call = \<lparr>c_os = demo_os, c_new_at = \<lambda>i. i + 100, c_main = 0, c_timer = 1, c_now = 100, c_fn = 9\<rparr>"

lemma demo_call_simps [simp]:
  "c_os demo_call = demo_os" "c_new_at demo_call = (\<lambda>i. i + 100)" "c_main demo_call = 0" "c_timer demo_call = 1"
  "c_now demo_call = 100" "c_fn demo_call = 9"
  by (simp_all add: demo_call_def)

lemma demo_hook_simps [simp]:
  "mgr demo_hook = Some demo_io" "gt demo_hook = demo_gt" "fds demo_hook = (False, 50)" "errno demo_hook = 0"
  "t_hook_enable demo_hook" "cancelled demo_hook = [4 \<mapsto> 0]"
  by (simp_all add: demo_hook_def)

lemma demo_running: "GetThis 0 demo_gt = Inr (1, demo_gt)" "state_of (fst demo_gt) 1 = EXEC"
  by (simp_all add: GetThis_def demo_gt_def demo_tls_def demo_env2_def demo_main_def state_of_def)

lemma demo_can_wait: "can_wait demo_call 5 READ 1 demo_gt demo_hook demo_io"
  using demo_io_inv demo_io_fresh demo_os_ok demo_running
  by (simp add: can_wait_def is_event_def timers_wf_def TimerManager_new_def)

lemma demo_kernel_accepts:
  assumes "is_event e"
  shows "\<exists>s'. addEvent demo_os (\<lambda>i. i + 100) (Some 7) 0 5 e None (demo_io\<lparr>timers := tm, pipe_bytes := b\<rparr>, demo_gt) =
     Inr (0, s', demo_gt)"
proof -
  have "demo_io\<lparr>timers := tm, pipe_bytes := b\<rparr> = demo_io\<lparr>scheds := scheds demo_io, timers := tm, pipe_bytes := b\<rparr>"
    by (cases demo_io) simp
  moreover have "dom (scheds demo_io) = {7}" by simp
  ultimately show ?thesis
    using demo_accepts [OF demo_running, where scs = "scheds demo_io" and tm = tm and b = b] assms by metis
qed

text \<open>Waiting for descriptor 5 in the example, with a time limit of \<open>to\<close> and whatever timers there are.\<close>

lemma demo_wait_for:
  assumes "is_event e" and "to \<noteq> - 1" and "mgr h = Some (demo_io\<lparr>timers := tm\<rparr>)" and "gt h = demo_gt"
  shows "\<exists>h1 s1. wait_for demo_call 4 to 5 e h = Inr (0, Some 1, h1) \<and> mgr h1 = Some s1"
proof -
  let ?r = "addConditionTimer 1 100 to (Fn 9) 4 False tm"
  have inv: "io_inv (demo_io\<lparr>timers := tm\<rparr>)" by (rule io_inv_timers [OF demo_io_inv(1)])
  have "write_T demo_os = 1" by (simp add: demo_os_def)
  from timer_added_eq [OF inv this, of ?r] obtain b
    where "timer_added demo_os ?r (demo_io\<lparr>timers := tm\<rparr>) = Inr (demo_io\<lparr>timers := snd ?r, pipe_bytes := b\<rparr>)" by auto
  moreover obtain s' where "addEvent demo_os (\<lambda>i. i + 100) (Some 7) 0 5 e None
      (demo_io\<lparr>timers := snd ?r, pipe_bytes := b\<rparr>, demo_gt) = Inr (0, s', demo_gt)"
    using demo_kernel_accepts [OF assms(1)] by blast
  ultimately show ?thesis using assms(2-4) by (simp add: wait_for_def iom_addConditionTimer_def)
qed

lemma demo_waits: "\<exists>h1 s1. do_io_retry demo_call 4 50 5 READ [(- 1, EAGAIN)] demo_hook = Inr (Yields (Some 1), h1) \<and>
  mgr h1 = Some s1"
proof -
  have "demo_io = demo_io\<lparr>timers := timers demo_io\<rparr>" by (cases demo_io) simp
  then have "mgr (demo_hook\<lparr>errno := EAGAIN\<rparr>) = Some (demo_io\<lparr>timers := timers demo_io\<rparr>)" by simp
  from demo_wait_for [OF _ _ this, of READ 50] show ?thesis
    by (simp add: do_io_retry_def sys_call_def EAGAIN_def EINTR_def is_event_def) fastforce
qed

section \<open>The end of a waiting call\<close>

lemma on_timeout_gone: "cancelled h ti = None \<Longrightarrow> on_timeout os ti fd e h = Inr h"
  by (simp add: on_timeout_def)

lemma on_timeout_effect:
  assumes "mgr h = Some s" and "io_inv s" and "os_ok os" and "registered s (fd, e) = Some (k, ft)" and "is_event e"
    and "cancelled h ti = Some 0"
  shows "\<exists>s'. on_timeout os ti fd e h = Inr (h\<lparr>cancelled := (cancelled h)(ti \<mapsto> ETIMEDOUT), mgr := Some s'\<rparr>) \<and>
    timers s' = timers s \<and>
    (s' = s \<or> registered s' = (registered s)((fd, e) := None) \<and> scheds s' = enqueue k ft (scheds s))"
proof -
  have i: "int (nat fd) = fd" "nat fd < length (m_fdContexts s)"
    using assms(4) by (auto simp: registered_def split: if_splits)
  have "\<exists>b s'. cancelEvent os fd e s = Inr (b, s') \<and> timers s' = timers s \<and>
      (s' = s \<or> registered s' = (registered s)((fd, e) := None) \<and> scheds s' = enqueue k ft (scheds s))"
    by (rule cancelEvent_effect [OF assms(2,3) i(2) assms(5)]; use assms(4) i(1) in auto)
  with assms(1,6) show ?thesis by (auto simp: on_timeout_def with_mgr_def)
qed

lemma leave_eq: "leave ti n h = Inr (Returned n, h\<lparr>cancelled := (cancelled h)(ti := None)\<rparr>)"
  by (simp add: leave_def)

lemma do_io_resume_timed_out:
  assumes "mgr h = Some s" and "timers_wf (timers s)" and "theap (timers s) p = Some t"
    and "cancelled h ti = Some c" and "c \<noteq> 0"
  shows "\<exists>tm. do_io_resume a ti to fd e (Some p) outs h =
      Inr (Returned (- 1), h\<lparr>mgr := Some (s\<lparr>timers := tm\<rparr>), errno := c, cancelled := (cancelled h)(ti := None)\<rparr>) \<and>
    (timer_cb t \<noteq> None \<longrightarrow> armed tm = (armed (timers s))(p := None))"
proof -
  obtain tm where "cancel_timer (Some p) h = Inr (h\<lparr>mgr := Some (s\<lparr>timers := tm\<rparr>)\<rparr>)"
    "timer_cb t \<noteq> None \<longrightarrow> armed tm = (armed (timers s))(p := None)"
    using cancel_timer_effect [OF assms(1-3)] by blast
  with assms(4,5) show ?thesis by (intro exI [of _ tm]) (simp add: do_io_resume_def leave_eq)
qed

text \<open>The function of a timer and what follows, for a fiber that waits for \<open>(fd, e)\<close> with the timer at \<open>p\<close>.\<close>

lemma waiting_times_out:
  assumes "mgr h = Some s" and "io_inv s" and "os_ok os" and "timers_wf (timers s)" and "theap (timers s) p = Some t"
    and "timer_cb t \<noteq> None" and "registered s (fd, e) = Some (k, ft)" and "is_event e" and "cancelled h ti = Some 0"
  shows "\<exists>h2 s2 h3 s3. on_timeout os ti fd e h = Inr h2 \<and> mgr h2 = Some s2 \<and>
    (s2 = s \<or> registered s2 = (registered s)((fd, e) := None) \<and> scheds s2 = enqueue k ft (scheds s)) \<and>
    do_io_resume a ti to fd e (Some p) outs h2 = Inr (Returned (- 1), h3) \<and> errno h3 = ETIMEDOUT \<and>
    mgr h3 = Some s3 \<and> registered s3 = registered s2 \<and> scheds s3 = scheds s2 \<and>
    armed (timers s3) = (armed (timers s))(p := None) \<and> cancelled h3 ti = None"
proof -
  from on_timeout_effect [OF assms(1-3,7-9)] obtain s2
    where s2: "on_timeout os ti fd e h = Inr (h\<lparr>cancelled := (cancelled h)(ti \<mapsto> ETIMEDOUT), mgr := Some s2\<rparr>)"
        (is "_ = Inr ?h2")
      "timers s2 = timers s"
      "s2 = s \<or> registered s2 = (registered s)((fd, e) := None) \<and> scheds s2 = enqueue k ft (scheds s)" by blast
  have f: "mgr ?h2 = Some s2" "timers_wf (timers s2)" "theap (timers s2) p = Some t"
    "cancelled ?h2 ti = Some ETIMEDOUT" "ETIMEDOUT \<noteq> 0"
    using assms(4,5) s2(2) by (simp_all add: ETIMEDOUT_def)
  from do_io_resume_timed_out [OF f, of a to fd e outs] assms(6) obtain tm
    where tm: "do_io_resume a ti to fd e (Some p) outs ?h2 = Inr (Returned (- 1), ?h2\<lparr>mgr := Some (s2\<lparr>timers := tm\<rparr>),
          errno := ETIMEDOUT, cancelled := (cancelled ?h2)(ti := None)\<rparr>)" (is "_ = Inr (_, ?h3)")
      "armed tm = (armed (timers s2))(p := None)" by blast
  let ?s3 = "s2\<lparr>timers := tm\<rparr>"
  have "errno ?h3 = ETIMEDOUT" "mgr ?h3 = Some ?s3" "scheds ?s3 = scheds s2" "cancelled ?h3 ti = None"
    by simp_all
  moreover have "registered ?s3 = registered s2" by (rule registered_cong) simp_all
  moreover have "armed (timers ?s3) = (armed (timers s))(p := None)" using tm(2) s2(2) by simp
  ultimately show ?thesis using s2(1,3) f(1) tm(1) by blast
qed



lemma do_io_waiting:
  assumes "can_wait a fd e cur g h s" and "to \<noteq> - 1" and "do_io_retry a ti to fd e outs h = Inr (Yields timer, h1)"
  obtains s1 where "timer = Some (c_timer a)" "h1 = h\<lparr>errno := EAGAIN, mgr := Some s1, gt := g\<rparr>"
    "registered s1 = (registered s)((fd, e) \<mapsto> (io_self s, ft_of_fiber (Some cur) (- 1)))"
    "timers_wf (timers s1)" "io_inv s1" "scheds s1 = scheds s"
    "armed (timers s1) = (armed (timers s))(c_timer a \<mapsto>
       Timer_new (c_now a) to (Some (OnTimerBind ti (Fn (c_fn a)))) False)"
proof -
  let ?h = "h\<lparr>errno := EAGAIN\<rparr>"
  have cw: "can_wait a fd e cur g ?h s" using assms(1) by (simp add: can_wait_def)
  obtain r where "call_until outs = Some r" using assms(3) by (cases "call_until outs") (auto simp: do_io_retry_def)
  then have w: "bind_res (wait_for a ti to fd e ?h) (\<lambda>(rt, timer, h2).
      if rt \<noteq> 0 then bind_res (cancel_timer timer h2) (leave ti (- 1)) else Inr (Yields timer, h2)) =
      Inr (Yields timer, h1)"
    using assms(3) by (auto simp: do_io_retry_def sys_call_def leave_eq split: if_splits)
  show thesis
  proof (rule wait_for_effect [OF cw assms(2), of ti])
    fix s1
    assume "wait_for a ti to fd e ?h = Inr (- 1, Some (c_timer a), ?h\<lparr>mgr := Some s1\<rparr>)"
    with w show thesis by (auto simp: leave_eq bind_res_Inr_iff)
  next
    fix s1
    assume "wait_for a ti to fd e ?h = Inr (0, Some (c_timer a), ?h\<lparr>mgr := Some s1, gt := g\<rparr>)"
      "registered s1 = (registered s)((fd, e) \<mapsto> (io_self s, ft_of_fiber (Some cur) (- 1)))"
      "timers_wf (timers s1)" "io_inv s1" "scheds s1 = scheds s"
      "armed (timers s1) = (armed (timers s))(c_timer a \<mapsto>
         Timer_new (c_now a) to (Some (OnTimerBind ti (Fn (c_fn a)))) False)"
    with w that [of s1] show thesis by simp
  qed
qed

lemma armed_heap:
  assumes "armed m = A(p \<mapsto> t)"
  shows "theap m p = Some t"
  using fun_cong [OF assms, of p] by (simp add: armed_def split: if_splits)

lemma do_io_resume_ready:
  assumes "mgr h = Some s" and "timers_wf (timers s)" and "theap (timers s) p = Some t"
    and "cancelled h ti = Some 0" and "call_until outs = Some (n, er)" and "n \<noteq> - 1 \<or> er \<noteq> EAGAIN"
  shows "\<exists>tm h3. do_io_resume a ti to fd e (Some p) outs h = Inr (Returned n, h3) \<and>
    mgr h3 = Some (s\<lparr>timers := tm\<rparr>) \<and> errno h3 = (if n = - 1 then er else errno h) \<and> cancelled h3 ti = None \<and>
    (timer_cb t \<noteq> None \<longrightarrow> armed tm = (armed (timers s))(p := None))"
proof -
  obtain tm where "cancel_timer (Some p) h = Inr (h\<lparr>mgr := Some (s\<lparr>timers := tm\<rparr>)\<rparr>)"
    "timer_cb t \<noteq> None \<longrightarrow> armed tm = (armed (timers s))(p := None)"
    using cancel_timer_effect [OF assms(1-3)] by blast
  with assms(4-6) show ?thesis
    by (intro exI [of _ tm]) (auto simp: do_io_resume_def do_io_retry_def sys_call_def leave_eq)
qed



text \<open>
  C38. The mark that ends a waiting call belongs to the call, not to the attempt. When the function of an
  earlier attempt's timer was already taken from the timers while the event occurred, the call goes on to
  its next attempt, with a new timer and a full time limit; the old function then ends this attempt at once:
  the call returns -1 with \<^verbatim>\<open>ETIMEDOUT\<close> whatever the deadline of its own timer.
\<close>

theorem stale_timeout_ends_retry:
  assumes "can_wait a fd e cur g h s" and "theap (timers s) p = Some t" and "timer_cb t = None"
    and "cancelled h ti = Some 0" and "to \<noteq> - 1"
    and "do_io_resume a ti to fd e (Some p) outs h = Inr (Yields timer, h1)"
  shows "\<exists>s1 t1 h2 h3. mgr h1 = Some s1 \<and> timer = Some (c_timer a) \<and> armed (timers s1) (c_timer a) = Some t1 \<and>
    m_next t1 = c_now a + to \<and> on_timeout (c_os a) ti fd e h1 = Inr h2 \<and>
    do_io_resume a' ti to fd e timer outs' h2 = Inr (Returned (- 1), h3) \<and> errno h3 = ETIMEDOUT"
proof -
  note d = can_waitD [OF assms(1)]
  have "h\<lparr>mgr := Some (s\<lparr>timers := timers s\<rparr>)\<rparr> = h" using d(1) by simp
  then have "cancel_timer (Some p) h = Inr h"
    using d(1) assms(2,3) by (simp add: cancel_timer_def with_mgr_def cancel_def)
  then have "do_io_retry a ti to fd e outs h = Inr (Yields timer, h1)"
    using assms(4,6) by (simp add: do_io_resume_def)
  from do_io_waiting [OF assms(1,5) this] obtain s1 where w: "timer = Some (c_timer a)"
    "h1 = h\<lparr>errno := EAGAIN, mgr := Some s1, gt := g\<rparr>"
    "registered s1 = (registered s)((fd, e) \<mapsto> (io_self s, ft_of_fiber (Some cur) (- 1)))"
    "timers_wf (timers s1)" "io_inv s1"
    "armed (timers s1) = (armed (timers s))(c_timer a \<mapsto>
       Timer_new (c_now a) to (Some (OnTimerBind ti (Fn (c_fn a)))) False)" by metis
  have m: "mgr h1 = Some s1" "cancelled h1 ti = Some 0" "registered s1 (fd, e) \<noteq> None"
    using w(2,3) assms(4) by simp_all
  obtain k ft where r: "registered s1 (fd, e) = Some (k, ft)" using m(3) by auto
  have "timer_cb (Timer_new (c_now a) to (Some (OnTimerBind ti (Fn (c_fn a)))) False) \<noteq> None"
    by (simp add: Timer_new_def)
  from waiting_times_out [OF m(1) w(5) d(3) w(4) armed_heap [OF w(6)] this r d(9) m(2), of a' to outs']
  obtain h2 h3 where "on_timeout (c_os a) ti fd e h1 = Inr h2"
    "do_io_resume a' ti to fd e (Some (c_timer a)) outs' h2 = Inr (Returned (- 1), h3)" "errno h3 = ETIMEDOUT"
    by blast
  with m(1) w(1,6) show ?thesis by (simp add: Timer_new_def)
qed

text \<open>The manager while the function of an earlier timer, at 3, was already taken.\<close>

definition demo_taken :: timer where
  "demo_taken = Timer_new 0 50 None False"

definition demo_io3 :: io where
  "demo_io3 = demo_io\<lparr>timers := (TimerManager_new 0)\<lparr>theap := [3 \<mapsto> demo_taken]\<rparr>\<rparr>"

definition demo_hook3 :: "(bool \<times> u64) hook" where
  "demo_hook3 = demo_hook\<lparr>mgr := Some demo_io3\<rparr>"

lemma demo_waits_again:
  "\<exists>h1. do_io_resume demo_call 4 50 5 READ (Some 3) [(- 1, EAGAIN)] demo_hook3 = Inr (Yields (Some 1), h1)"
proof -
  have "cancel 3 (timers demo_io3) = Inr (False, timers demo_io3)"
    by (simp add: cancel_def demo_io3_def demo_taken_def Timer_new_def)
  moreover have io3: "demo_io3\<lparr>timers := timers demo_io3\<rparr> = demo_io3" by (simp add: demo_io3_def)
  have "mgr (demo_hook3\<lparr>errno := EAGAIN\<rparr>) = Some (demo_io\<lparr>timers := timers demo_io3\<rparr>)"
    by (simp add: demo_hook3_def demo_io3_def)
  from demo_wait_for [OF _ _ this, of READ 50] obtain h1 where
    "wait_for demo_call 4 50 5 READ (demo_hook3\<lparr>errno := EAGAIN\<rparr>) = Inr (0, Some 1, h1)"
    by (auto simp: is_event_def demo_hook3_def)
  ultimately show ?thesis
    by (simp add: do_io_resume_def cancel_timer_def with_mgr_def demo_hook3_def io3 do_io_retry_def sys_call_def
        EAGAIN_def EINTR_def)
qed

theorem stale_timeout_ends_retry_witness:
  "\<exists>h1 h2 h3. do_io_resume demo_call 4 50 5 READ (Some 3) [(- 1, EAGAIN)] demo_hook3 = Inr (Yields (Some 1), h1) \<and>
     on_timeout demo_os 4 5 READ h1 = Inr h2 \<and>
     do_io_resume demo_call 4 50 5 READ (Some 1) [(7, 0)] h2 = Inr (Returned (- 1), h3) \<and> errno h3 = ETIMEDOUT"
proof -
  let ?tm = "(TimerManager_new 0)\<lparr>theap := [3 \<mapsto> demo_taken]\<rparr>"
  have e: "demo_io\<lparr>timers := ?tm, pipe_bytes := pipe_bytes demo_io\<rparr> = demo_io3"
    unfolding demo_io3_def by (cases demo_io) simp
  note same = io_same_table [where s = demo_io and tm = ?tm and b = "pipe_bytes demo_io", unfolded e]
  have "timers_wf (timers demo_io3)" "theap (timers demo_io3) 1 = None"
    by (simp_all add: demo_io3_def timers_wf_def TimerManager_new_def demo_taken_def Timer_new_def)
  then have c: "can_wait demo_call 5 READ 1 demo_gt demo_hook3 demo_io3"
    using same demo_io_inv demo_io_fresh demo_os_ok demo_running
    by (simp add: can_wait_def is_event_def demo_hook3_def)
  have t: "theap (timers demo_io3) 3 = Some demo_taken" "timer_cb demo_taken = None"
    "cancelled demo_hook3 4 = Some 0"
    by (simp_all add: demo_io3_def demo_taken_def Timer_new_def demo_hook3_def)
  obtain h1 where r: "do_io_resume demo_call 4 50 5 READ (Some 3) [(- 1, EAGAIN)] demo_hook3 = Inr (Yields (Some 1), h1)"
    using demo_waits_again by blast
  from stale_timeout_ends_retry [OF c t _ r, of demo_call "[(7, 0)]"] r show ?thesis by auto
qed

section \<open>Sleeping\<close>

lemma unat_sleep_ms: "unat (sleep_ms seconds) = 1000 * unat seconds mod 2 ^ 32"
proof -
  have "unat (ucast x :: u64) = unat x" for x :: u32
    using unsigned_less [of x, where 'a = nat] by (simp add: unsigned_ucast_eq take_bit_nat_eq_self)
  then show ?thesis by (simp add: sleep_ms_def unat_word_ariths mult.commute)
qed

text \<open>Two facts every sleeping call shares: it arms its timer, and the timer's function queues the fiber.\<close>

lemma sleep_arms:
  assumes "mgr h = Some s" and "io_inv s" and "write_T (c_os a) = 1" and "t_hook_enable h"
    and "GetThis (c_main a) (gt h) = Inr (cur, g)"
  shows "\<exists>b. sleep_for a ms r h = Inr (Yields (Some (c_timer a)), cur,
    h\<lparr>gt := g, mgr := Some (s\<lparr>timers := snd (addTimer (c_timer a) (c_now a) ms (Some (Fn (c_fn a))) False (timers s)),
      pipe_bytes := b\<rparr>)\<rparr>)"
proof -
  let ?r = "addTimer (c_timer a) (c_now a) ms (Some (Fn (c_fn a))) False (timers s)"
  obtain b where "iom_addTimer a ms (Fn (c_fn a)) s = Inr (s\<lparr>timers := snd ?r, pipe_bytes := b\<rparr>)"
    using timer_added_eq [OF assms(2,3), of ?r] by (auto simp: iom_addTimer_def)
  then show ?thesis using assms(1,4,5) by (auto simp: sleep_for_def with_mgr_def)
qed

lemma on_wake_enqueues:
  assumes "mgr h = Some s" and "io_inv s" and "write_T os = 1"
  shows "\<exists>s2. on_wake os p h = Inr (h\<lparr>mgr := Some s2\<rparr>) \<and>
    scheds s2 = enqueue (io_self s) (ft_of_fiber (Some p) (- 1)) (scheds s)"
proof -
  obtain sc where sc: "scheds s (io_self s) = Some sc" using assms(2) by (auto simp: io_inv_def Let_def)
  then have "io_self s \<in> dom (scheds s)" by auto
  from io_schedule_eq [OF sc this assms(3), of "ft_of_fiber (Some p) (- 1)"] obtain b
    where "io_schedule os (Some (io_self s)) (ft_of_fiber (Some p) (- 1)) s =
      Inr (s\<lparr>scheds := enqueue (io_self s) (ft_of_fiber (Some p) (- 1)) (scheds s), pipe_bytes := b\<rparr>)"
      (is "_ = Inr ?s2") by auto
  then have "on_wake os p h = Inr (h\<lparr>mgr := Some ?s2\<rparr>)" using assms(1) by (simp add: on_wake_def with_mgr_def)
  moreover have "scheds ?s2 = enqueue (io_self s) (ft_of_fiber (Some p) (- 1)) (scheds s)" by simp
  ultimately show ?thesis by blast
qed

text \<open>
  C37. \<^verbatim>\<open>sleep\<close> gives the thread away with a timer for its fiber, whose function queues exactly this fiber on the
  manager. The deadline is the number of milliseconds \<^emph>\<open>modulo\<close> \<open>2 ^ 32\<close> from now: the product is computed in
  32 bits, so a sleep of 4294968 seconds is one of 704 milliseconds.
\<close>

theorem hook_sleep_wakes:
  assumes "mgr h = Some s" and "io_inv s" and "os_ok (c_os a)" and "timers_wf (timers s)"
    and "theap (timers s) (c_timer a) = None" and "t_hook_enable h" and "GetThis (c_main a) (gt h) = Inr (cur, g)"
    and "unat (c_now a) + 2 ^ 32 \<le> 2 ^ 64"
  shows "\<exists>t h1 s1 h2 s2. hook_sleep a seconds r h = Inr (Yields (Some (c_timer a)), cur, h1) \<and> mgr h1 = Some s1 \<and>
    registered s1 = registered s \<and> armed (timers s1) = (armed (timers s))(c_timer a \<mapsto> t) \<and>
    timer_cb t = Some (Fn (c_fn a)) \<and> unat (m_next t) = unat (c_now a) + 1000 * unat seconds mod 2 ^ 32 \<and>
    on_wake (c_os a) cur h1 = Inr h2 \<and> mgr h2 = Some s2 \<and>
    scheds s2 = enqueue (io_self s) (ft_of_fiber (Some cur) (- 1)) (scheds s)"
proof -
  let ?ms = "sleep_ms seconds" and ?cb = "Some (Fn (c_fn a))"
  let ?t = "Timer_new (c_now a) ?ms ?cb False"
  let ?tm = "snd (addTimer (c_timer a) (c_now a) ?ms ?cb False (timers s))"
  have w: "write_T (c_os a) = 1" using assms(3) by (simp add: os_ok_def)
  from sleep_arms [OF assms(1,2) w assms(6,7), of ?ms r] obtain b where
    1: "hook_sleep a seconds r h = Inr (Yields (Some (c_timer a)), cur,
      h\<lparr>gt := g, mgr := Some (s\<lparr>timers := ?tm, pipe_bytes := b\<rparr>)\<rparr>)" (is "_ = Inr (_, _, ?h1)")
    by (auto simp: hook_sleep_def)
  let ?s1 = "s\<lparr>timers := ?tm, pipe_bytes := b\<rparr>"
  have 2: "registered ?s1 = registered s" by (rule io_same_table)
  have 3: "armed (timers ?s1) = (armed (timers s))(c_timer a \<mapsto> ?t)"
    using armed_addTimer [OF assms(4,5)] by simp
  have "1000 * unat seconds mod 2 ^ 32 < (2 :: nat) ^ 32" by simp
  then have "unat (c_now a) + unat ?ms < 2 ^ 64" using assms(8) unfolding unat_sleep_ms by linarith
  then have 4: "unat (m_next ?t) = unat (c_now a) + 1000 * unat seconds mod 2 ^ 32"
    using unat_add_no_wrap [of "c_now a" ?ms] by (simp add: Timer_new_def unat_sleep_ms)
  have "io_inv ?s1" by (rule io_inv_frame [OF assms(2)]) simp_all
  then obtain s2 where "on_wake (c_os a) cur ?h1 = Inr (?h1\<lparr>mgr := Some s2\<rparr>)"
    "scheds s2 = enqueue (io_self s) (ft_of_fiber (Some cur) (- 1)) (scheds s)"
    using on_wake_enqueues [of ?h1 ?s1 "c_os a" cur] w by auto
  moreover have "mgr (?h1\<lparr>mgr := Some s2\<rparr>) = Some s2" "mgr ?h1 = Some ?s1" "timer_cb ?t = ?cb"
    by (simp_all add: Timer_new_def)
  ultimately show ?thesis using 1 2 3 4 by blast
qed

theorem hook_sleep_wakes_witness:
  "\<exists>t h1 s1. hook_sleep demo_call 4294968 (0, 0) demo_hook = Inr (Yields (Some 1), 1, h1) \<and> mgr h1 = Some s1 \<and>
     armed (timers s1) 1 = Some t \<and> unat (m_next t) = 804"
proof -
  have "timers_wf (timers demo_io)" "theap (timers demo_io) (c_timer demo_call) = None"
    by (simp_all add: timers_wf_def TimerManager_new_def)
  from hook_sleep_wakes [of demo_hook demo_io demo_call 1 demo_gt 4294968 "(0, 0)", OF _ _ _ this] show ?thesis
    using demo_io_inv(1) demo_os_ok demo_running by auto
qed

section \<open>The flag O_NONBLOCK\<close>

text \<open>
  What the calls rely on in the missing descriptor manager: looking a descriptor up without creating it
  changes nothing, and the flag of the user is what was set last, apart from everything else.
\<close>

definition fd_documented :: "'m FdMgr \<Rightarrow> bool" where
  "fd_documented M \<longleftrightarrow>
     (\<forall>fd m. snd (fd_get M fd False m) = m) \<and>
     (\<forall>c b m. getUserNonblock M c (setUserNonblock M c b m) = b \<and>
        isClose M c (setUserNonblock M c b m) = isClose M c m \<and>
        isSocket M c (setUserNonblock M c b m) = isSocket M c m \<and>
        getSysNonblock M c (setUserNonblock M c b m) = getSysNonblock M c m \<and>
        (\<forall>fd. fst (fd_get M fd False (setUserNonblock M c b m)) = fst (fd_get M fd False m)))"

lemma set_bit_to:
  "set_bit_to b x AND O_NONBLOCK \<noteq> 0 \<longleftrightarrow> b" "set_bit_to b x AND NOT O_NONBLOCK = x AND NOT O_NONBLOCK"
proof -
  have *: "(x OR m) AND m = m" "(x AND NOT m) AND m = 0" "(x OR m) AND NOT m = x AND NOT m"
    "(x AND NOT m) AND NOT m = x AND NOT m" for m :: u32
    by (auto simp: bit_eq_iff bit_simps)
  have "O_NONBLOCK \<noteq> 0" by (simp add: O_NONBLOCK_def)
  with * show "set_bit_to b x AND O_NONBLOCK \<noteq> 0 \<longleftrightarrow> b" by (simp add: set_bit_to_def)
  show "set_bit_to b x AND NOT O_NONBLOCK = x AND NOT O_NONBLOCK" using * by (simp add: set_bit_to_def)
qed


text \<open>A kernel that keeps the flags of one descriptor.\<close>

definition demo_fcntl :: "int \<Rightarrow> int \<Rightarrow> fc_arg \<Rightarrow> u32 \<Rightarrow> u32 \<times> u32" where
  "demo_fcntl fd cmd va k = (case va of IntArg a \<Rightarrow> (0, a) | _ \<Rightarrow> (k, k))"


end
