(* ===== verification/Duan_Sleep.thy ===== *)
theory Duan_Sleep
  imports Duan_System Duan_Hook_Properties
begin

text \<open>
  The sleeping calls of \<^verbatim>\<open>hook.cc\<close> on a worker of the I/O manager: from the call in a task fiber over the timer and
  the idle fiber back to the instruction behind the fiber's yield.
\<close>

section \<open>The only due timer\<close>

lemma filter_only:
  assumes "distinct xs" and "x \<in> set xs" and "\<And>y. y \<in> set xs \<Longrightarrow> P y \<longleftrightarrow> y = x"
  shows "filter P xs = [x]"
  using assms by (induction xs) (auto simp: filter_empty_conv)

lemma due_addTimer:
  "due t (snd (addTimer p now ms cb rec m)) x \<longleftrightarrow>
     (if x = p then fst (detectClockRollover t m) \<or> now + ms \<le> t else due t m x)"
  by (simp add: due_def detectClockRollover_def addTimer_fields addTimer_def insertTimer_fields next_of_def Timer_new_def)

lemma due_added_only:
  fixes m :: timer_manager and cb :: "callback option"
  assumes "timers_wf m" and "theap m p = None" and "\<forall>x\<in>set (m_timers m). \<not> due t m x" and "now + ms \<le> t"
  defines "m' \<equiv> snd (addTimer p now ms cb False m)"
  shows "due_callbacks t m' = [cb]" and "expire t (due t m') (armed m') = armed m"
proof -
  have p: "p \<notin> set (m_timers m)" using assms(1,2) by (auto simp: timers_wf_def)
  have wf: "timers_wf m'" unfolding m'_def by (rule addTimer_wf [OF assms(1,2)])
  have ts: "set (m_timers m') = insert p (set (m_timers m))" unfolding m'_def by (rule addTimer_fields(2) [OF p])
  have due: "due t m' x \<longleftrightarrow> x = p" if "x \<in> set (m_timers m')" for x
    using that assms(3,4) unfolding ts unfolding m'_def due_addTimer by auto
  have "filter (due t m') (m_timers m') = [p]"
    by (rule filter_only) (use wf ts due in \<open>auto simp: timers_wf_def dest: timer_set.sorted_distinct\<close>)
  then show "due_callbacks t m' = [cb]" by (simp add: due_callbacks_def m'_def addTimer_fields Timer_new_def)
  have a: "armed m' = (armed m)(p \<mapsto> Timer_new now ms cb False)"
    unfolding m'_def by (rule armed_addTimer [OF assms(1,2)])
  have "\<not> due t m' x" if "armed m x \<noteq> None" for x
    using that due [of x] p unfolding ts armed_def by (auto split: if_splits)
  moreover have "due t m' p" using due [of p] ts by simp
  moreover have "armed m p = None" using p by (simp add: armed_def)
  ultimately show "expire t (due t m') (armed m') = armed m"
    unfolding a expire_def fun_eq_iff by (auto simp: Timer_new_def split: option.splits)
qed

section \<open>The sleeping fiber\<close>

lemma on_hold_run:
  assumes "on_hold i p w" and "local_to pn i w w'" and "p \<noteq> pn" and "cb_fiber (rl w i) \<noteq> Some p"
  shows "on_hold i p w'"
  using assms by (auto simp: on_hold_def local_to_def)


text \<open>The fiber of the example sleeps 50 milliseconds from 100 on; the idle turn ends at 150.\<close>

definition demo_sleeper :: "(bool \<times> u64) hook" where
  "demo_sleeper = demo_hook\<lparr>mgr := Some (manager (demo_in_fiber, demo_io)), gt := (env demo_in_fiber, tl demo_in_fiber 0)\<rparr>"

lemma demo_sleeper_simps [simp]:
  "mgr demo_sleeper = Some (manager (demo_in_fiber, demo_io))" "gt demo_sleeper = (env demo_in_fiber, tl demo_in_fiber 0)"
  "t_hook_enable demo_sleeper"
  by (simp_all add: demo_sleeper_def)


end
