(* ===== verification/Duan_Lifecycle.thy ===== *)
theory Duan_Lifecycle
  imports Duan_System
begin

text \<open>
  An I/O manager from its constructor to its destructor in the thread that owns it. The loop of \<^verbatim>\<open>Scheduler::run\<close> is one
  function here, with \<^verbatim>\<open>IOManager::idle\<close> as its idle fiber; \<^verbatim>\<open>Scheduler::stop\<close> is the version the destructor calls, whose
  virtual \<^verbatim>\<open>tickle()\<close> and \<^verbatim>\<open>stopping()\<close> are those of the I/O manager, and which executes the root fiber in the calling thread.
\<close>

section \<open>The loop\<close>

text \<open>How a task's fiber gives the thread back: its function ends, or it yields.\<close>

datatype task_end = Finishes outcome | YieldsAs State

definition leave :: "task_end \<Rightarrow> nat \<Rightarrow> fstate \<Rightarrow> fstate res" where
  "leave e pm = (case e of Finishes o1 \<Rightarrow> MainFunc pm o1 | YieldsAs st \<Rightarrow> YieldTo st pm)"

text \<open>
  What one turn of the loop meets: addresses for a fiber it may create, what the task does if there is one, and what the
  idle fiber sees if there is none.
\<close>

record turn_input =
  ti_fiber :: nat
  ti_stack :: nat
  ti_spawns :: "FiberAndThread list"
  ti_end :: task_end
  ti_now :: u64
  ti_waits :: "epoll_event list option list"
  ti_timer :: nat
  ti_now2 :: u64

text \<open>The end of \<^verbatim>\<open>run\<close>: \<^verbatim>\<open>cb_fiber\<close> and \<^verbatim>\<open>idle_fiber\<close>, which nobody else holds, are destroyed in this order.\<close>

definition run_end :: "int \<Rightarrow> world \<Rightarrow> world res" where
  "run_end i w =
     bind_res (case cb_fiber (rl w i) of None \<Rightarrow> Inr w | Some c \<Rightarrow> on_thread i (Fiber_delete c) w)
       (\<lambda>w1. on_thread i (Fiber_delete (idle_fiber (rl w i))) w1)"

text \<open>
  The loop, with one input per turn. The results are the functions that were run and whether the loop was left; \<^term>\<open>False\<close>
  says that the inputs were used up, or that \<^verbatim>\<open>epoll_wait\<close> did not return.
\<close>

fun io_run :: "os \<Rightarrow> int \<Rightarrow> turn_input list \<Rightarrow> system \<Rightarrow> (callback option list \<times> bool \<times> system) res" where
  "io_run os i [] ws = Inr ([], False, ws)"
| "io_run os i (e # es) ws =
     bind_res (run_take i (fst ws)) (\<lambda>w1.
       bind_res (run_dispatch (ti_fiber e) (ti_stack e) i w1) (\<lambda>w2.
         case pc (rl w2 i) of
           Exited \<Rightarrow> bind_res (run_end i w2) (\<lambda>w3. Inr ([], True, w3, snd ws))
         | InIdle \<Rightarrow>
             bind_res (io_idle_body os (ti_now e) (ti_waits e) (ti_timer e) (ti_now2 e) (ti_fiber e) i (w2, snd ws))
               (\<lambda>(r, w3, s3).
                 if r = IdleStuck then Inr ([], False, w3, s3)
                 else bind_res (run_return i w3) (\<lambda>w4. io_run os i es (w4, s3)))
         | Top \<Rightarrow> io_run os i es (w2, snd ws)
         | _ \<Rightarrow>
             bind_res (on_thread i (leave (ti_end e) (ti_fiber e)) (fold schedule_w (ti_spawns e) w2)) (\<lambda>w3.
               bind_res (run_return i w3) (\<lambda>w4.
                 bind_res (io_run os i es (w4, snd ws)) (\<lambda>(cbs, r). Inr (ran i w2 # cbs, r))))))"

section \<open>stop\<close>

definition on_sched :: "(scheduler \<Rightarrow> scheduler) \<Rightarrow> io \<Rightarrow> io" where
  "on_sched f s = s\<lparr>scheds := (scheds s)(io_self s := map_option f (scheds s (io_self s)))\<rparr>"

fun io_tickles :: "os \<Rightarrow> nat \<Rightarrow> io \<Rightarrow> io res" where
  "io_tickles os 0 s = Inr s"
| "io_tickles os (Suc n) s = bind_res (io_tickle os s) (io_tickles os n)"

text \<open>\<^verbatim>\<open>stop()\<close> of an I/O manager: waking the threads, with the decision about the root fiber, and the part before it.\<close>

definition io_stop_wake :: "os \<Rightarrow> u64 \<Rightarrow> scheduler \<Rightarrow> io \<Rightarrow> (stop_next \<times> io) res" where
  "io_stop_wake os now sc s =
     bind_res (io_tickles os (unat (m_threadCount sc) + (if m_rootFiber sc \<noteq> None then 1 else 0)) s) (\<lambda>s1.
       case m_rootFiber sc of
         None \<Rightarrow> Inr (StopJoin, s1)
       | Some p \<Rightarrow> bind_res (io_stopping now s1) (\<lambda>(b, s2). Inr (if b then StopJoin else StopCallRoot p, s2)))"

definition io_stop :: "os \<Rightarrow> State \<Rightarrow> bool \<Rightarrow> u64 \<Rightarrow> u64 \<Rightarrow> io \<Rightarrow> (stop_next \<times> io) res" where
  "io_stop os root_state has now1 now2 s =
     (let s1 = on_sched (\<lambda>sc. sc\<lparr>m_autoStop := True\<rparr>) s in
      deref ''this'' (scheds s1 (io_self s1)) (\<lambda>sc.
        let early = (m_rootFiber sc \<noteq> None \<and> m_threadCount sc = 0 \<and> (root_state = TERM_ST \<or> root_state = INIT));
            stop_flag = on_sched (\<lambda>sc. sc\<lparr>m_stopping := True\<rparr>)
        in bind_res (if early then io_stopping now1 (stop_flag s1) else Inr (False, s1)) (\<lambda>(b, s2).
             if b then Inr (StopReturned, s2)
             else
               let k = io_stop_wake os now2 sc (stop_flag s2)
               in if m_rootThread sc \<noteq> - 1 then DUAN_ASSERT ''GetThis() == this'' has k
                  else DUAN_ASSERT ''GetThis() != this'' (\<not> has) k)))"

text \<open>
  \<^verbatim>\<open>m_rootFiber->call()\<close>: the thread executes the root fiber, whose function is \<^verbatim>\<open>run\<close>, and comes back when \<^verbatim>\<open>run\<close> has
  ended. \<open>pm\<close>, \<open>pi\<close> and \<open>stk\<close> are addresses for the prologue of \<^verbatim>\<open>run\<close>.
\<close>

definition call_root ::
  "os \<Rightarrow> nat \<Rightarrow> nat \<Rightarrow> nat \<Rightarrow> int \<Rightarrow> turn_input list \<Rightarrow> nat \<Rightarrow> system \<Rightarrow> (callback option list \<times> bool \<times> system) res" where
  "call_root os pm pi stk i es p ws =
     bind_res (on_thread i (\<lambda>gt. bind_res (call p gt) resumed) (fst ws)) (\<lambda>w1.
       bind_res (run_begin pm pi stk i w1) (\<lambda>w2.
         bind_res (io_run os i es (w2, snd ws)) (\<lambda>(cbs, left, w3, s3).
           if left then bind_res (on_thread i (MainFunc pm Returns) w3) (\<lambda>w4. Inr (cbs, True, w4, s3))
           else Inr (cbs, False, w3, s3))))"

section \<open>The destructor\<close>

text \<open>
  \<^verbatim>\<open>~IOManager\<close> by thread \<open>i\<close>, with the destructor of \<^verbatim>\<open>Scheduler\<close> and of its member \<^verbatim>\<open>m_rootFiber\<close>. The results are the
  functions the root fiber ran, the threads that were joined and whether \<^verbatim>\<open>stop\<close> returned.
\<close>

definition IOManager_destroy ::
  "os \<Rightarrow> nat \<Rightarrow> nat \<Rightarrow> nat \<Rightarrow> int \<Rightarrow> u64 \<Rightarrow> u64 \<Rightarrow> turn_input list \<Rightarrow> system \<Rightarrow>
     (callback option list \<times> int list \<times> bool \<times> system) res" where
  "IOManager_destroy os pm pi stk i now1 now2 es ws =
     (let root_state = (case m_rootFiber (sch (fst ws)) of None \<Rightarrow> INIT | Some p \<Rightarrow> state_of (env (fst ws)) p) in
      bind_res (on_io (io_stop os root_state (t_scheduler (fst ws) i) now1 now2) ws) (\<lambda>(nx, w1, s1).
        bind_res (case nx of StopCallRoot p \<Rightarrow> call_root os pm pi stk i es p (w1, s1) | _ \<Rightarrow> Inr ([], True, w1, s1))
          (\<lambda>(cbs, back, w2, s2).
            if \<not> back then Inr (cbs, [], False, w2, s2)
            else
              let (thrs, sc) = (if nx = StopReturned then ([], sch w2) else stop_join (sch w2));
                  s3 = IOManager_delete s2
              in bind_res (Scheduler_delete sc (t_scheduler w2 i)) (\<lambda>has.
                   let w3 = w2\<lparr>sch := sc\<lparr>m_rootFiber := None\<rparr>, t_scheduler := (t_scheduler w2)(i := has)\<rparr> in
                   case m_rootFiber sc of
                     None \<Rightarrow> Inr (cbs, thrs, True, w3, s3)
                   | Some p \<Rightarrow>
                       bind_res (on_thread i (Fiber_delete p) w3) (\<lambda>w4. Inr (cbs, thrs, True, w4, s3))))))"

text \<open>The whole constructor by thread \<open>i\<close>: that of \<^verbatim>\<open>Scheduler\<close>, then that of \<^verbatim>\<open>IOManager\<close>.\<close>

definition IOManager_create ::
  "os \<Rightarrow> (nat \<Rightarrow> nat) \<Rightarrow> (nat \<Rightarrow> int) \<Rightarrow> int \<Rightarrow> int \<Rightarrow> int \<times> int \<Rightarrow> int \<Rightarrow> nat \<Rightarrow> (nat \<Rightarrow> scheduler option) \<Rightarrow> u64 \<Rightarrow>
     (nat \<Rightarrow> FdContext option) \<Rightarrow> nat \<Rightarrow> nat \<Rightarrow> nat \<Rightarrow> u64 \<Rightarrow> bool \<Rightarrow> string \<Rightarrow> int \<Rightarrow> world \<Rightarrow> system res" where
  "IOManager_create os new_at tids epfd prt fds frt self scs now h pm pr stk threads use_caller name i w =
     bind_res (Scheduler_new pm pr stk threads use_caller name (t_scheduler w i) (env w, tl w i)) (\<lambda>(sc, has, g, t).
       bind_res (IOManager_new os new_at tids epfd prt fds frt self sc scs now h) (\<lambda>s.
         deref ''this'' (scheds s (io_self s)) (\<lambda>sc1.
           Inr (w\<lparr>sch := sc1, env := g, tl := (tl w)(i := t), t_scheduler := (t_scheduler w)(i := has)\<rparr>, s))))"

text \<open>Scheduling a range of functions from outside.\<close>

definition schedule_all :: "os \<Rightarrow> callback option list \<Rightarrow> system \<Rightarrow> system res" where
  "schedule_all os cbs ws =
     bind_res (on_io (\<lambda>s. bind_res (io_schedule_range os cbs s) (\<lambda>s1. Inr ((), s1))) ws) (\<lambda>(_, ws1). Inr ws1)"

section \<open>The loop runs the queue and ends\<close>

text \<open>The inputs of turns whose tasks end and schedule nothing.\<close>

definition plain_turn :: "nat \<Rightarrow> turn_input \<Rightarrow> bool" where
  "plain_turn pn e \<longleftrightarrow> ti_fiber e = pn \<and> ti_stack e \<noteq> 0 \<and> ti_spawns e = [] \<and> (\<exists>o1. ti_end e = Finishes o1)"

lemma io_run_functions:
  assumes "worker pn i w" and "m_fibers (sch w) = fts" and "list_all (function_task i) fts"
    and "length es1 = length fts" and "list_all (plain_turn pn) es1"
  shows "\<exists>w'. io_run os i (es1 @ es) (w, s) =
      bind_res (io_run os i es (w', s)) (\<lambda>(cbs, r). Inr (map ft_cb fts @ cbs, r)) \<and>
    worker pn i w' \<and> sch w' = (sch w)\<lparr>m_fibers := []\<rparr> \<and> local_to pn i w w'"
  using assms
proof (induction fts arbitrary: w es1)
  case Nil
  then have "sch w = (sch w)\<lparr>m_fibers := []\<rparr>" by simp
  moreover have "bind_res r (\<lambda>(cbs, x). Inr (map ft_cb [] @ cbs, x)) = r" for r :: "(callback option list \<times> bool \<times> system) res"
    by (cases r) auto
  ultimately show ?case using Nil by (intro exI [of _ w]) (auto simp: local_refl)
next
  case (Cons ft fts)
  then obtain e es1' where es: "es1 = e # es1'" "length es1' = length fts" "list_all (plain_turn pn) es1'" "plain_turn pn e"
    by (cases es1) auto
  then obtain o1 where e: "ti_fiber e = pn" "ti_stack e \<noteq> 0" "ti_spawns e = []" "ti_end e = Finishes o1"
    by (auto simp: plain_turn_def)
  have top: "at_top pn i w" using Cons.prems(1) by (simp add: worker_def)
  have ft: "function_task i ft" "list_all (function_task i) fts" using Cons.prems(3) by simp_all
  obtain c w1 w2 w3 w4 where t: "run_take i w = Inr w1" "run_dispatch pn (ti_stack e) i w1 = Inr w2" "pc (rl w2 i) = InCb c"
    "ran i w2 = ft_cb ft" "on_thread i (MainFunc pn o1) w2 = Inr w3" "run_return i w3 = Inr w4" "at_top pn i w4"
    "sch w4 = (sch w)\<lparr>m_fibers := fts\<rparr>" "local_to pn i w w4"
    by (rule function_turn [OF top e(2) Cons.prems(2) ft(1), of "\<lparr>spawns = [], ends_by = o1\<rparr>"]) auto
  have "worker pn i w4" by (rule worker_local [OF Cons.prems(1) t(9,7)])
  from Cons.IH [OF this _ ft(2) es(2,3)] t(8) obtain w' where w': "io_run os i (es1' @ es) (w4, s) =
      bind_res (io_run os i es (w', s)) (\<lambda>(cbs, r). Inr (map ft_cb fts @ cbs, r))"
    "worker pn i w'" "sch w' = (sch w)\<lparr>m_fibers := []\<rparr>" "local_to pn i w4 w'" by auto
  have "io_run os i (es1 @ es) (w, s) = bind_res (io_run os i (es1' @ es) (w4, s)) (\<lambda>(cbs, r). Inr (ft_cb ft # cbs, r))"
    using t(1-6) e by (simp add: es(1) leave_def)
  also have "\<dots> = bind_res (io_run os i es (w', s)) (\<lambda>(cbs, r). Inr (map ft_cb (ft # fts) @ cbs, r))"
    unfolding w'(1) by (cases "io_run os i es (w', s)") auto
  finally show ?case using w'(2,3) local_trans [OF t(9) w'(4)] by blast
qed

text \<open>What is left of a thread's fibers after \<^verbatim>\<open>run\<close>: the scheduling fiber, which is the current one.\<close>

lemma run_end_eq:
  assumes "left_loop pn i w" and "cb_fiber (rl w i) = None \<or> cb_fiber (rl w i) = Some pn"
  shows "\<exists>w'. run_end i w = Inr w' \<and> sch w' = sch w \<and> tl w' = tl w \<and> rl w' = rl w \<and> t_scheduler w' = t_scheduler w \<and>
    ctx_rt (env w') = 0 \<and> fheap (env w') = (fheap (env w))(pn := None, idle_fiber (rl w i) := None)"
proof -
  let ?p = "idle_fiber (rl w i)"
  obtain mf f where a: "ctx_rt (env w) = 0" "cb_fiber (rl w i) \<noteq> Some ?p" "fheap (env w) ?p = Some f" "m_state f = TERM_ST"
    "m_stack f \<noteq> 0" "cb_slot pn mf (cb_fiber (rl w i)) (fheap (env w))"
    using assms(1) by (auto simp: left_loop_def Let_def)
  show ?thesis
  proof (cases "cb_fiber (rl w i)")
    case None
    with a(6) have "(fheap (env w))(pn := None, ?p := None) = (fheap (env w))(?p := None)"
      by (auto simp: cb_slot_def fun_eq_iff)
    with a None show ?thesis by (simp add: run_end_def on_thread_def Fiber_delete_def Let_def)
  next
    case (Some c)
    with a(6) assms(2) obtain fc where "c = pn" "fheap (env w) pn = Some fc" "m_stack fc \<noteq> 0" "m_state fc \<in> {TERM_ST, INIT, EXCEPT}"
      by (auto simp: cb_slot_def)
    with a Some show ?thesis by (auto simp: run_end_def on_thread_def Fiber_delete_def Let_def)
  qed
qed

lemma io_run_drains:
  assumes "worker pn i w" and "list_all (function_task i) (m_fibers (sch w))" and "cb_fiber (rl w i) = None"
    and "m_autoStop (sch w)" and "m_stopping (sch w)" and "m_activeThreadCount (sch w) = 0"
    and "m_timers (timers s) = []" and "m_pendingEventCount s = 0"
    and "length es1 = length (m_fibers (sch w))" and "list_all (plain_turn pn) es1"
    and "ti_fiber e1 = pn" and "ti_fiber e2 = pn" and "t_mainFiber (tl w i) = Some mf"
  shows "\<exists>w' s'. io_run os i (es1 @ e1 # e2 # es) (w, s) = Inr (map ft_cb (m_fibers (sch w)), True, w', s') \<and>
    sch w' = (sch w)\<lparr>m_fibers := []\<rparr> \<and> ctx_rt (env w') = 0 \<and> t_fiber (tl w' i) = Some mf \<and>
    t_mainFiber (tl w' i) = Some mf \<and> t_threadFiber (tl w' i) = t_threadFiber (tl w i) \<and>
    (\<forall>p. p \<noteq> mf \<longrightarrow> fheap (env w') p = ((fheap (env w))(pn := None, idle_fiber (rl w i) := None)) p) \<and>
    fiber_core (env w') mf = fiber_core (env w) mf \<and> m_fdContexts s' = m_fdContexts s \<and> fdheap s' = fdheap s \<and>
    io_self s' = io_self s"
proof -
  let ?idle = "idle_fiber (rl w i)"
  obtain w1 where w1: "io_run os i (es1 @ e1 # e2 # es) (w, s) =
      bind_res (io_run os i (e1 # e2 # es) (w1, s)) (\<lambda>(cbs, r). Inr (map ft_cb (m_fibers (sch w)) @ cbs, r))"
    "worker pn i w1" "sch w1 = (sch w)\<lparr>m_fibers := []\<rparr>" "local_to pn i w w1"
    using io_run_functions [OF assms(1) refl assms(2,9,10)] by blast
  have q: "m_fibers (sch w1) = []" "stopping (sch w1)" using assms(4-6) by (simp_all add: w1(3) stopping_def)
  obtain wa wb wc wd we w2 s2 where e: "run_take i w1 = Inr wa" "run_dispatch pn (ti_stack e1) i wa = Inr wb"
    "pc (rl wb i) = InIdle"
    "io_idle_body os (ti_now e1) (ti_waits e1) (ti_timer e1) (ti_now2 e1) pn i (wb, s) = Inr (IdleExit, wc, s2)"
    "run_return i wc = Inr wd" "run_take i wd = Inr we" "run_dispatch pn (ti_stack e2) i we = Inr w2" "left_loop pn i w2"
    "sch w2 = sch w1" "idle_local i w1 w2"
    "s2 = (manager (wb, s))\<lparr>timers := snd (getNextTimer (ti_now e1) (timers s))\<rparr>"
    by (rule idle_round_exits [OF w1(2) q assms(7,8)])
  have cb: "cb_fiber (rl w2 i) = None \<or> cb_fiber (rl w2 i) = Some pn"
    using w1(4) e(10) assms(3) by (auto simp: local_to_def idle_local_def)
  obtain w3 where w3: "run_end i w2 = Inr w3" "sch w3 = sch w2" "tl w3 = tl w2" "ctx_rt (env w3) = 0"
    "fheap (env w3) = (fheap (env w2))(pn := None, idle_fiber (rl w2 i) := None)"
    using run_end_eq [OF e(8) cb] by blast
  have pc: "pc (rl w2 i) = Exited" using e(8) by (simp add: left_loop_def Let_def)
  have "io_run os i (e1 # e2 # es) (w1, s) = Inr ([], True, w3, s2)"
    using e(1-7) assms(11,12) pc w3(1) by simp
  then have r: "io_run os i (es1 @ e1 # e2 # es) (w, s) = Inr (map ft_cb (m_fibers (sch w)), True, w3, s2)"
    by (simp add: w1(1))
  have id: "idle_fiber (rl w2 i) = ?idle" "t_mainFiber (tl w1 i) = Some mf" "t_mainFiber (tl w2 i) = Some mf"
    "t_threadFiber (tl w2 i) = t_threadFiber (tl w i)" "idle_fiber (rl w1 i) = ?idle"
    using w1(4) e(10) assms(13) by (auto simp: local_to_def idle_local_def)
  have t: "t_fiber (tl w2 i) = Some mf" "?idle \<noteq> mf" "pn \<noteq> mf"
    using e(8) id(1,3) cb by (auto simp: left_loop_def Let_def cb_slot_def)
  have "fiber_core (env w2) mf = fiber_core (env w) mf"
    using w1(4) e(10) assms(13) id(2) by (auto simp: local_to_def idle_local_def)
  then have core: "fiber_core (env w3) mf = fiber_core (env w) mf" using t(2,3) by (simp add: fiber_core_def w3(5) id(1))
  have "fheap (env w2) p = fheap (env w) p" if "p \<noteq> mf" "p \<noteq> pn" "p \<noteq> ?idle" for p
    using that w1(4) e(10) assms(3,13) id(2,5) by (auto simp: local_to_def idle_local_def)
  then have h: "\<forall>p. p \<noteq> mf \<longrightarrow> fheap (env w3) p = ((fheap (env w))(pn := None, ?idle := None)) p"
    by (simp add: w3(5) id(1))
  have s2: "m_fdContexts s2 = m_fdContexts s" "fdheap s2 = fdheap s" "io_self s2 = io_self s"
    by (simp_all add: e(11) manager_def)
  have "sch w3 = (sch w)\<lparr>m_fibers := []\<rparr>" "t_threadFiber (tl w3 i) = t_threadFiber (tl w i)" "t_fiber (tl w3 i) = Some mf"
    "t_mainFiber (tl w3 i) = Some mf"
    using w1(3) e(9) w3(2,3) id(3,4) t(1) by simp_all
  with r w3(4) core h s2 show ?thesis by blast
qed

section \<open>The root fiber\<close>

lemma run_begin_current:
  assumes "t_fiber (tl w i) = Some p" and "t_mainFiber (tl w i) = Some p" and "ctx_rt (env w) = 0"
  shows "\<exists>w2 f. run_begin q pi stk i w = Inr w2 \<and> sch w2 = sch w \<and> fheap (env w2) = (fheap (env w))(pi \<mapsto> f) \<and>
    m_state f = INIT \<and> resume (m_ctx f) = AtMainFunc \<and> m_stack f = stk \<and> fiber_cb f = Some SchedulerIdle \<and>
    ctx_rt (env w2) = 0 \<and> tl w2 i = tl w i \<and> rl w2 i = \<lparr>pc = Top, idle_fiber = pi, cb_fiber = None\<rparr>"
proof -
  have same: "(tl w i)\<lparr>t_mainFiber := Some p\<rparr> = tl w i" using assms(2) by (cases "tl w i") simp
  let ?f = "\<lparr>m_id = s_fiber_id (env w) + 1, m_stacksize = g_fiber_stack_size (env w), m_state = INIT,
    m_ctx = makecontext AtMainFunc (getcontext stk (g_fiber_stack_size (env w))), m_stack = stk,
    fiber_cb = Some SchedulerIdle\<rparr>"
  obtain g where g: "Fiber_new pi stk (Some SchedulerIdle) 0 False (env w) = Inr g" "fheap g = (fheap (env w))(pi \<mapsto> ?f)"
    "ctx_rt g = 0" using assms(3) by (simp add: Fiber_new_def Let_def makecontext_def)
  let ?w2 = "w\<lparr>t_scheduler := (t_scheduler w)(i := True), env := g, tl := tl w,
    rl := (rl w)(i := \<lparr>pc = Top, idle_fiber = pi, cb_fiber = None\<rparr>)\<rparr>"
  have "run_begin q pi stk i w = Inr ?w2"
    by (cases "i = m_rootThread (sch w)") (simp_all add: run_begin_def GetThis_cur [OF assms(1)] same g(1))
  with g(2,3) show ?thesis by (intro exI [of _ ?w2] exI [of _ ?f]) (simp add: makecontext_def)
qed

lemma call_root_drains:
  assumes "fheap (env w) pr = Some r" and "m_state r = INIT" and "resume (m_ctx r) = AtMainFunc" and "m_stack r \<noteq> 0"
    and "fiber_cb r \<noteq> None" and "t_threadFiber (tl w i) = Some pm" and "fheap (env w) pm = Some m"
    and "t_mainFiber (tl w i) = Some pr" and "ctx_rt (env w) = 0" and "distinct [pm, pr, pi, pn]"
    and "fheap (env w) pi = None" and "fheap (env w) pn = None" and "stk \<noteq> 0"
    and "list_all (function_task i) (m_fibers (sch w))"
    and "m_autoStop (sch w)" and "m_stopping (sch w)" and "m_activeThreadCount (sch w) = 0"
    and "m_timers (timers s) = []" and "m_pendingEventCount s = 0"
    and "length es1 = length (m_fibers (sch w))" and "list_all (plain_turn pn) es1"
    and "ti_fiber e1 = pn" and "ti_fiber e2 = pn"
  shows "\<exists>w' s'. call_root os q pi stk i (es1 @ e1 # e2 # es) pr (w, s) =
      Inr (map ft_cb (m_fibers (sch w)), True, w', s') \<and> sch w' = (sch w)\<lparr>m_fibers := []\<rparr> \<and>
    t_fiber (tl w' i) = Some pm \<and> cpu (tl w' i) = (pm, InSwapIn) \<and> t_mainFiber (tl w' i) = Some pr \<and>
    (\<exists>r'. fheap (env w') pr = Some r' \<and> m_state r' = TERM_ST \<and> m_stack r' \<noteq> 0) \<and>
    (\<forall>p. p \<noteq> pm \<longrightarrow> p \<noteq> pr \<longrightarrow> fheap (env w') p = fheap (env w) p) \<and>
    fheap (env w') pm = Some (m\<lparr>m_ctx := (m_ctx m)\<lparr>resume := InSwapIn\<rparr>\<rparr>) \<and>
    m_fdContexts s' = m_fdContexts s \<and> fdheap s' = fdheap s \<and> io_self s' = io_self s"
proof -
  let ?m = "m\<lparr>m_ctx := (m_ctx m)\<lparr>resume := InSwapIn\<rparr>\<rparr>" and ?r = "r\<lparr>m_state := EXEC\<rparr>"
  have ne: "pm \<noteq> pr" "pi \<noteq> pr" "pn \<noteq> pr" "pi \<noteq> pm" "pn \<noteq> pm" "pi \<noteq> pn" using assms(10) by auto
  let ?w1 = "w\<lparr>env := set_fiber pm ?m (set_fiber pr ?r (env w)),
    tl := (tl w)(i := (tl w i)\<lparr>t_fiber := Some pr, cpu := (pr, AtMainFunc)\<rparr>)\<rparr>"
  have 1: "on_thread i (\<lambda>gt. bind_res (call pr gt) resumed) w = Inr ?w1"
    using assms(1,3,6,7,9) ne(1)
    by (simp add: on_thread_def call_def resumed_def set_state_def swapcontext_def SetThis_def Let_def)
  have "t_fiber (tl ?w1 i) = Some pr" "t_mainFiber (tl ?w1 i) = Some pr" "ctx_rt (env ?w1) = 0"
    using assms(8,9) by simp_all
  from run_begin_current [OF this, of q pi stk] obtain w2 f where w2: "run_begin q pi stk i ?w1 = Inr w2"
    "sch w2 = sch ?w1" "fheap (env w2) = (fheap (env ?w1))(pi \<mapsto> f)" "m_state f = INIT" "resume (m_ctx f) = AtMainFunc"
    "m_stack f = stk" "fiber_cb f = Some SchedulerIdle" "ctx_rt (env w2) = 0" "tl w2 i = tl ?w1 i"
    "rl w2 i = \<lparr>pc = Top, idle_fiber = pi, cb_fiber = None\<rparr>" by blast
  have scw: "sch w2 = sch w" using w2(2) by simp
  have h2: "fheap (env w2) pr = Some ?r" "fheap (env w2) pm = Some ?m" "fheap (env w2) pi = Some f" "fheap (env w2) pn = None"
    "t_mainFiber (tl w2 i) = Some pr"
    using ne assms(8,12) by (simp_all add: w2(3,9))
  have wk: "worker pn i w2"
    using w2(4-8) h2 ne assms(13) by (auto simp: worker_def at_top_def idle_ready_def cb_slot_def w2(10) Let_def)
  have "cb_fiber (rl w2 i) = None" by (simp add: w2(10))
  from io_run_drains [OF wk _ this _ _ _ assms(18,19) _ assms(21-23) h2(5), of os es] assms(14-17,20)
  obtain w3 s3 where w3: "io_run os i (es1 @ e1 # e2 # es) (w2, s) = Inr (map ft_cb (m_fibers (sch w)), True, w3, s3)"
    "sch w3 = (sch w)\<lparr>m_fibers := []\<rparr>" "ctx_rt (env w3) = 0" "t_fiber (tl w3 i) = Some pr" "t_mainFiber (tl w3 i) = Some pr"
    "t_threadFiber (tl w3 i) = t_threadFiber (tl w2 i)"
    "\<forall>p. p \<noteq> pr \<longrightarrow> fheap (env w3) p = ((fheap (env w2))(pn := None, pi := None)) p"
    "fiber_core (env w3) pr = fiber_core (env w2) pr" "m_fdContexts s3 = m_fdContexts s" "fdheap s3 = fdheap s"
    "io_self s3 = io_self s" by (auto simp: scw w2(10))
  have pm: "t_threadFiber (tl w3 i) = Some pm" "fheap (env w3) pm = Some ?m"
    using w3(6,7) w2(9) assms(6) h2(2) ne by auto
  obtain r3 where r3: "fheap (env w3) pr = Some r3" "m_stack r3 \<noteq> 0" "fiber_cb r3 \<noteq> None"
    using w3(8) h2(1) assms(4,5) by (auto simp: fiber_core_def)
  let ?r4 = "(finished Returns r3)\<lparr>m_ctx := (m_ctx r3)\<lparr>resume := AtNeverReach\<rparr>\<rparr>"
  let ?w4 = "w3\<lparr>env := set_fiber pr ?r4 (env w3), tl := (tl w3)(i := (tl w3 i)\<lparr>t_fiber := Some pm, cpu := (pm, InSwapIn)\<rparr>)\<rparr>"
  have 4: "on_thread i (MainFunc q Returns) w3 = Inr ?w4"
    using w3(3-5) pm r3(1,3) ne(1)
    by (auto simp: on_thread_def MainFunc_def MainFunc_body_def GetThis_cur swapOut_def swapcontext_def SetThis_def Let_def
        set_fiber_def finished_def call_outcome_def)
  have c: "call_root os q pi stk i (es1 @ e1 # e2 # es) pr (w, s) = Inr (map ft_cb (m_fibers (sch w)), True, ?w4, s3)"
    using 1 w2(1) w3(1) 4 by (simp add: call_root_def)
  have r4: "m_state ?r4 = TERM_ST" "m_stack ?r4 \<noteq> 0" using r3(2,3) by (auto simp: finished_def call_outcome_def)
  have "fheap (env w3) p = fheap (env w) p" if "p \<noteq> pm" "p \<noteq> pr" for p
    using w3(7) that assms(11,12) w2(3) by auto
  with c w3(2,5,9-11) pm(2) r4 ne(1) show ?thesis by (intro exI [of _ ?w4] exI [of _ s3]) simp
qed

section \<open>From the constructor to the destructor\<close>

text \<open>A manager that uses its caller as its only thread, with functions in its queue.\<close>

definition caller_manager :: "nat \<Rightarrow> nat \<Rightarrow> nat \<Rightarrow> int \<Rightarrow> system \<Rightarrow> bool" where
  "caller_manager stk pm pr i ws \<longleftrightarrow>
     (let (w, s) = ws in
      m_rootFiber (sch w) = Some pr \<and> m_threadCount (sch w) = 0 \<and> m_rootThread (sch w) \<noteq> - 1 \<and> t_scheduler w i \<and>
      m_activeThreadCount (sch w) = 0 \<and> m_idleThreadCount (sch w) = 0 \<and> m_threads (sch w) = [] \<and>
      m_timers (timers s) = [] \<and> m_pendingEventCount s = 0 \<and> ctx_rt (env w) = 0 \<and>
      t_fiber (tl w i) = Some pm \<and> t_threadFiber (tl w i) = Some pm \<and> t_mainFiber (tl w i) = Some pr \<and>
      (\<exists>m. fheap (env w) pm = Some m) \<and>
      (\<exists>r. fheap (env w) pr = Some r \<and> m_state r = INIT \<and> resume (m_ctx r) = AtMainFunc \<and> m_stack r = stk \<and>
         fiber_cb r = Some SchedulerRun))"

lemma create_caller:
  assumes "t_fiber (tl w i) = None" and "ctx_rt (env w) = 0" and "pm \<noteq> pr"
    and r: "IOManager_create os new_at tids epfd prt fds frt self scs now h pm pr stk 1 True name i w = Inr ws"
  shows "caller_manager stk pm pr i ws" and "m_fibers (sch (fst ws)) = []"
    and "\<forall>p. p \<noteq> pm \<longrightarrow> p \<noteq> pr \<longrightarrow> fheap (env (fst ws)) p = fheap (env w) p"
proof -
  let ?m = "\<lparr>m_id = 0, m_stacksize = 0, m_state = EXEC, m_ctx = getcontext 0 0, m_stack = 0, fiber_cb = None\<rparr>"
  let ?g1 = "(set_fiber pm ?m (env w))\<lparr>s_fiber_count := s_fiber_count (env w) + 1\<rparr>"
  let ?t1 = "(tl w i)\<lparr>t_fiber := Some pm, t_threadFiber := Some pm\<rparr>"
  have 1: "GetThis pm (env w, tl w i) = Inr (pm, ?g1, ?t1)"
    using assms(1,2) by (simp add: GetThis_def Fiber_main_def SetThis_def Let_def)
  let ?f = "\<lparr>m_id = s_fiber_id (env w) + 1, m_stacksize = g_fiber_stack_size (env w), m_state = INIT,
    m_ctx = makecontext AtMainFunc (getcontext stk (g_fiber_stack_size (env w))), m_stack = stk,
    fiber_cb = Some SchedulerRun\<rparr>"
  obtain g2 where 2: "Fiber_new pr stk (Some SchedulerRun) 0 False ?g1 = Inr g2"
    "fheap g2 = (fheap (env w))(pm \<mapsto> ?m, pr \<mapsto> ?f)" "ctx_rt g2 = 0"
    using assms(2) by (simp add: Fiber_new_def Let_def makecontext_def)
  have 3: "GetFiberId (g2, ?t1\<lparr>t_mainFiber := Some pr\<rparr>) = Inr 0"
    using 2(2) assms(3) by (simp add: GetFiberId_def)
  obtain s where s: "\<not> t_scheduler w i" "IOManager_new os new_at tids epfd prt fds frt self
      \<lparr>m_fibers = [], m_threads = [], m_rootFiber = Some pr, m_name = name, m_threadIds = [0], m_threadCount = 0,
       m_activeThreadCount = 0, m_idleThreadCount = 0, m_stopping = True, m_autoStop = False, m_rootThread = 0\<rparr>
      scs now h = Inr s" "ws = (w\<lparr>sch := the (scheds s (io_self s)), env := g2,
        tl := (tl w)(i := ?t1\<lparr>t_mainFiber := Some pr\<rparr>), t_scheduler := (t_scheduler w)(i := True)\<rparr>, s)"
    using r 1 2(1) 3 by (auto simp: IOManager_create_def Scheduler_new_def res_iffs Let_def)
  have sc: "scheds s (io_self s) =
      Some \<lparr>m_fibers = [], m_threads = [], m_rootFiber = Some pr, m_name = name, m_threadIds = [0], m_threadCount = 0,
       m_activeThreadCount = 0, m_idleThreadCount = 0, m_stopping = False, m_autoStop = False, m_rootThread = 0\<rparr>"
    "timers s = TimerManager_new now" "m_pendingEventCount s = 0"
    using s(2) by (auto simp: IOManager_new_def start_def res_iffs Let_def case_prod_beta)
  show "m_fibers (sch (fst ws)) = []" by (simp add: s(3) sc(1))
  show "\<forall>p. p \<noteq> pm \<longrightarrow> p \<noteq> pr \<longrightarrow> fheap (env (fst ws)) p = fheap (env w) p" by (simp add: s(3) 2(2))
  show "caller_manager stk pm pr i ws"
    using assms(3) by (simp add: caller_manager_def s(3) sc 2(2,3) TimerManager_new_def makecontext_def)
qed

lemma on_sched_simps [simp]:
  "io_self (on_sched f s) = io_self s" "timers (on_sched f s) = timers s"
  "m_pendingEventCount (on_sched f s) = m_pendingEventCount s" "fdheap (on_sched f s) = fdheap s"
  "m_fdContexts (on_sched f s) = m_fdContexts s"
  "scheds (on_sched f s) = (scheds s)(io_self s := map_option f (scheds s (io_self s)))"
  by (simp_all add: on_sched_def)

lemma io_stopping_idle:
  assumes "m_timers (timers s) = []" and "m_pendingEventCount s = 0" and "scheds s (io_self s) = Some sc"
  shows "\<exists>tm. io_stopping now s = Inr (stopping sc, s\<lparr>timers := tm\<rparr>) \<and> m_timers tm = []"
  using assms by (auto simp: io_stopping_def stopping_timeout_def getNextTimer_def)

lemma io_stop_caller:
  assumes "scheds s (io_self s) = Some sc" and "m_rootFiber sc = Some pr" and "m_threadCount sc = 0"
    and "m_rootThread sc \<noteq> - 1" and "m_activeThreadCount sc = 0" and "m_idleThreadCount sc = 0"
    and "m_timers (timers s) = []" and "m_pendingEventCount s = 0" and "write_T os = 1"
  shows "\<exists>s'. io_stop os INIT True now1 now2 s = Inr (if m_fibers sc = [] then StopReturned else StopCallRoot pr, s') \<and>
    scheds s' (io_self s') = Some (sc\<lparr>m_autoStop := True, m_stopping := True\<rparr>) \<and> io_self s' = io_self s \<and>
    m_timers (timers s') = [] \<and> m_pendingEventCount s' = 0 \<and> fdheap s' = fdheap s \<and> m_fdContexts s' = m_fdContexts s"
proof -
  let ?stop = "on_sched (\<lambda>sc. sc\<lparr>m_stopping := True\<rparr>)" and ?sc = "sc\<lparr>m_autoStop := True, m_stopping := True\<rparr>"
  let ?s1 = "on_sched (\<lambda>sc. sc\<lparr>m_autoStop := True\<rparr>) s"
  have st: "stopping ?sc \<longleftrightarrow> m_fibers sc = []" using assms(5) by (simp add: stopping_def)
  have s1: "m_timers (timers (?stop ?s1)) = []" "m_pendingEventCount (?stop ?s1) = 0"
    "scheds (?stop ?s1) (io_self (?stop ?s1)) = Some ?sc" "scheds ?s1 (io_self ?s1) = Some (sc\<lparr>m_autoStop := True\<rparr>)"
    using assms(1,7,8) by simp_all
  obtain tm where tm: "io_stopping now1 (?stop ?s1) = Inr (m_fibers sc = [], (?stop ?s1)\<lparr>timers := tm\<rparr>)" "m_timers tm = []"
    using io_stopping_idle [OF s1(1-3), of now1] st by auto
  let ?s2 = "(?stop ?s1)\<lparr>timers := tm\<rparr>"
  show ?thesis
  proof (cases "m_fibers sc = []")
    case True
    then have "io_stop os INIT True now1 now2 s = Inr (StopReturned, ?s2)"
      using assms(1-3) tm(1) by (simp add: io_stop_def Let_def)
    then show ?thesis using True assms(8) tm(2) by (simp add: assms(1))
  next
    case False
    have s2: "scheds (?stop ?s2) (io_self (?stop ?s2)) = Some ?sc" by (simp add: assms(1))
    let ?s3 = "(?stop ?s2)\<lparr>pipe_bytes := Suc (pipe_bytes (?stop ?s2))\<rparr>"
    have t: "io_tickles os 1 (?stop ?s2) = Inr ?s3"
      using assms(1,6,9) by (simp add: io_tickle_def hasIdleThreads_def)
    have "m_timers (timers ?s3) = []" "m_pendingEventCount ?s3 = 0" "scheds ?s3 (io_self ?s3) = Some ?sc"
      using tm(2) assms(8) by (simp_all add: assms(1))
    from io_stopping_idle [OF this, of now2] obtain tm2 where
      tm2: "io_stopping now2 ?s3 = Inr (False, ?s3\<lparr>timers := tm2\<rparr>)" "m_timers tm2 = []" using st False by auto
    have "io_stop os INIT True now1 now2 s = Inr (StopCallRoot pr, ?s3\<lparr>timers := tm2\<rparr>)"
      using assms(1-4) tm(1) False t tm2(1) by (simp add: io_stop_def io_stop_wake_def Let_def)
    then show ?thesis using False tm2(2) assms(8) by (simp add: assms(1))
  qed
qed

lemma destroy_drains:
  assumes "caller_manager stk pm pr i (w, s)" and "distinct [pm, pr, pi, pn]" and "fheap (env w) pi = None"
    and "fheap (env w) pn = None" and "stk \<noteq> 0" and "stk2 \<noteq> 0" and "write_T os = 1"
    and "list_all (function_task i) (m_fibers (sch w))"
    and "length es1 = length (m_fibers (sch w))" and "list_all (plain_turn pn) es1" and "ti_fiber e1 = pn" and "ti_fiber e2 = pn"
  shows "\<exists>w' s'. IOManager_destroy os q pi stk2 i now1 now2 (es1 @ e1 # e2 # es) (w, s) =
      Inr (map ft_cb (m_fibers (sch w)), [], True, w', s') \<and> m_fibers (sch w') = [] \<and> \<not> t_scheduler w' i \<and>
    t_fiber (tl w' i) = Some pm \<and> t_mainFiber (tl w' i) = Some pr \<and> (\<exists>m. fheap (env w') pm = Some m) \<and>
    (\<forall>p. p \<noteq> pm \<longrightarrow> fheap (env w') p = ((fheap (env w))(pr := None)) p) \<and>
    (\<forall>p\<in>set (m_fdContexts s). fdheap s' p = None)"
proof -
  let ?sc = "(sch w)\<lparr>m_autoStop := True, m_stopping := True\<rparr>"
  obtain m r where c: "m_rootFiber (sch w) = Some pr" "m_threadCount (sch w) = 0" "m_rootThread (sch w) \<noteq> - 1"
    "t_scheduler w i" "m_activeThreadCount (sch w) = 0" "m_idleThreadCount (sch w) = 0" "m_threads (sch w) = []"
    "m_timers (timers s) = []" "m_pendingEventCount s = 0" "ctx_rt (env w) = 0" "t_fiber (tl w i) = Some pm"
    "t_threadFiber (tl w i) = Some pm" "t_mainFiber (tl w i) = Some pr" "fheap (env w) pm = Some m"
    "fheap (env w) pr = Some r" "m_state r = INIT" "resume (m_ctx r) = AtMainFunc" "m_stack r = stk"
    "fiber_cb r = Some SchedulerRun"
    using assms(1) by (auto simp: caller_manager_def)
  have ne: "pm \<noteq> pr" using assms(2) by simp
  have mg: "scheds (manager (w, s)) (io_self (manager (w, s))) = Some (sch w)" "m_timers (timers (manager (w, s))) = []"
    "m_pendingEventCount (manager (w, s)) = 0" using c(8,9) by simp_all
  obtain s1 where s1: "io_stop os INIT True now1 now2 (manager (w, s)) =
      Inr (if m_fibers (sch w) = [] then StopReturned else StopCallRoot pr, s1)"
    "scheds s1 (io_self s1) = Some ?sc" "m_timers (timers s1) = []" "m_pendingEventCount s1 = 0"
    "m_fdContexts s1 = m_fdContexts s"
    using io_stop_caller [OF mg(1) c(1-3,5,6) mg(2,3) assms(7), of now1 now2] by auto
  let ?w1 = "w\<lparr>sch := ?sc\<rparr>"
  have st: "state_of (env w) pr = INIT" using c(15,16) by (simp add: state_of_def)
  have io: "on_io (io_stop os INIT True now1 now2) (w, s) =
      Inr (if m_fibers (sch w) = [] then StopReturned else StopCallRoot pr, ?w1, s1)"
    by (simp add: on_io_def s1(1,2))
  have del: "\<forall>p\<in>set (m_fdContexts s). fdheap (IOManager_delete s2) p = None" if "m_fdContexts s2 = m_fdContexts s1" for s2
    using that by (simp add: IOManager_delete_def s1(5))
  show ?thesis
  proof (cases "m_fibers (sch w) = []")
    case True
    let ?w3 = "w\<lparr>sch := ?sc\<lparr>m_rootFiber := None\<rparr>, t_scheduler := (t_scheduler w)(i := False)\<rparr>"
    let ?g = "(env w)\<lparr>s_fiber_count := s_fiber_count (env w) - 1, fheap := (fheap (env w))(pr := None)\<rparr>"
    have "Fiber_delete pr (env w, tl w i) = Inr (?g, tl w i)"
      using c(15,16,18) assms(5) by (simp add: Fiber_delete_def Let_def)
    then have "IOManager_destroy os q pi stk2 i now1 now2 (es1 @ e1 # e2 # es) (w, s) =
        Inr ([], [], True, ?w3\<lparr>env := ?g, tl := (tl w)(i := tl w i)\<rparr>, IOManager_delete s1)"
      using io c(1,4) st True by (simp add: IOManager_destroy_def Scheduler_delete_def on_thread_def Let_def)
    then show ?thesis using True c(11,13,14) ne del [of s1] by auto
  next
    case False
    obtain w2 s2 r' where d: "call_root os q pi stk2 i (es1 @ e1 # e2 # es) pr (?w1, s1) =
        Inr (map ft_cb (m_fibers (sch w)), True, w2, s2)" "sch w2 = ?sc\<lparr>m_fibers := []\<rparr>" "t_fiber (tl w2 i) = Some pm"
      "t_mainFiber (tl w2 i) = Some pr" "fheap (env w2) pr = Some r'" "m_state r' = TERM_ST" "m_stack r' \<noteq> 0"
      "\<forall>p. p \<noteq> pm \<longrightarrow> p \<noteq> pr \<longrightarrow> fheap (env w2) p = fheap (env w) p"
      "fheap (env w2) pm = Some (m\<lparr>m_ctx := (m_ctx m)\<lparr>resume := InSwapIn\<rparr>\<rparr>)" "m_fdContexts s2 = m_fdContexts s1"
      using call_root_drains [of ?w1 pr r i pm m pi pn stk2 s1 es1 e1 e2 os q es] c assms(2-6,8-12) s1(3,4) by auto
    let ?w3 = "w2\<lparr>sch := (sch w2)\<lparr>m_threads := [], m_rootFiber := None\<rparr>, t_scheduler := (t_scheduler w2)(i := False)\<rparr>"
    let ?g = "(env w2)\<lparr>s_fiber_count := s_fiber_count (env w2) - 1, fheap := (fheap (env w2))(pr := None)\<rparr>"
    have "Fiber_delete pr (env w2, tl w2 i) = Inr (?g, tl w2 i)"
      using d(5-7) by (simp add: Fiber_delete_def Let_def)
    then have "IOManager_destroy os q pi stk2 i now1 now2 (es1 @ e1 # e2 # es) (w, s) =
        Inr (map ft_cb (m_fibers (sch w)), [], True, ?w3\<lparr>env := ?g, tl := (tl w2)(i := tl w2 i)\<rparr>, IOManager_delete s2)"
      using io c(1,4,7) st False d(1,2)
      by (simp add: IOManager_destroy_def Scheduler_delete_def stop_join_def on_thread_def Let_def)
    then show ?thesis using d(2-4,8,9) ne del [OF d(10)] by auto
  qed
qed


text \<open>Thread 5, without a fiber; the first function throws.\<close>

definition demo_thread :: world where
  "demo_thread = demo_world\<lparr>env := demo_env, tl := \<lambda>_. idle_tls\<rparr>"

definition demo_turn :: "outcome \<Rightarrow> turn_input" where
  "demo_turn o1 = \<lparr>ti_fiber = 4, ti_stack = 9, ti_spawns = [], ti_end = Finishes o1, ti_now = 105, ti_waits = [], ti_timer = 9,
     ti_now2 = 120\<rparr>"


end
