(* ===== verification/Duan_Interleave.thy ===== *)
theory Duan_Interleave
  imports Duan_Lifecycle
begin

text \<open>
  The I/O manager with all its threads: any number of workers in the scheduling loop and in the idle loop, and any threads
  that register, delete and cancel events, schedule tasks, use timers and stop the manager, interleaved step by step.
\<close>

section \<open>What an operation of the manager does to the rest\<close>

text \<open>The counters of a scheduler stay, and only valid tasks are added.\<close>

definition same_counts :: "scheduler \<Rightarrow> scheduler \<Rightarrow> bool" where
  "same_counts a b \<longleftrightarrow>
     m_activeThreadCount b = m_activeThreadCount a \<and> m_idleThreadCount b = m_idleThreadCount a \<and>
     (\<forall>ft\<in>set (m_fibers b). ft \<in> set (m_fibers a) \<or> ft_valid ft)"

definition quiet :: "io \<Rightarrow> io \<Rightarrow> bool" where
  "quiet s s' \<longleftrightarrow> io_self s' = io_self s \<and> timers s' = timers s \<and>
     (\<forall>k. rel_option same_counts (scheds s k) (scheds s' k))"

lemma same_counts_refl [simp]: "same_counts a a"
  by (simp add: same_counts_def)

lemma same_counts_trans: "same_counts a b \<Longrightarrow> same_counts b c \<Longrightarrow> same_counts a c"
  by (auto simp: same_counts_def)

lemma rel_same_counts_refl [simp]: "rel_option same_counts x x"
  by (cases x) simp_all

lemma quiet_refl [simp]: "quiet s s"
  by (simp add: quiet_def)

lemma quiet_trans: "quiet s s' \<Longrightarrow> quiet s' s'' \<Longrightarrow> quiet s s''"
  unfolding quiet_def by (metis (mono_tags, lifting) option.rel_transp same_counts_trans transpD transpI)

lemma quiet_frame:
  "io_self s' = io_self s \<Longrightarrow> timers s' = timers s \<Longrightarrow> scheds s' = scheds s \<Longrightarrow> quiet s s'"
  by (simp add: quiet_def)

lemma same_counts_schedule: "same_counts sc (snd (schedule ft sc))"
  by (auto simp: schedule_def scheduleNoLock_def Let_def same_counts_def)

lemma quiet_put:
  "scheds s k = Some sc \<Longrightarrow> same_counts sc sc' \<Longrightarrow> quiet s (s\<lparr>scheds := (scheds s)(k \<mapsto> sc')\<rparr>)"
  by (simp add: quiet_def)

lemma quiet_tickle: "io_tickle os s = Inr s' \<Longrightarrow> quiet s s'"
  by (drule io_tickle_frame) (auto intro!: quiet_frame)

lemma quiet_schedule:
  assumes "io_schedule os k ft s = Inr s'"
  shows "quiet s s'"
proof -
  obtain k1 sc where k: "scheds s k1 = Some sc"
    "s' = s\<lparr>scheds := (scheds s)(k1 \<mapsto> snd (schedule ft sc))\<rparr> \<or>
     io_tickle os (s\<lparr>scheds := (scheds s)(k1 \<mapsto> snd (schedule ft sc))\<rparr>) = Inr s'"
    using assms by (auto simp: io_schedule_def res_iffs Let_def case_prod_beta split: if_splits)
  note q = quiet_put [OF k(1) same_counts_schedule, of ft]
  show ?thesis using k(2) q quiet_trans [OF q quiet_tickle] by blast
qed

lemma same_counts_range: "same_counts sc (snd (snd (schedule_range cbs sc)))"
  using schedule_range_effect [of cbs sc] by (cases "schedule_range cbs sc") (auto simp: same_counts_def)

lemma quiet_schedule_range:
  assumes "io_schedule_range os cbs s = Inr s'"
  shows "quiet s s'"
proof -
  obtain sc where sc: "scheds s (io_self s) = Some sc"
    "s' = s\<lparr>scheds := (scheds s)(io_self s \<mapsto> snd (snd (schedule_range cbs sc)))\<rparr> \<or>
     io_tickle os (s\<lparr>scheds := (scheds s)(io_self s \<mapsto> snd (snd (schedule_range cbs sc)))\<rparr>) = Inr s'"
    using assms by (auto simp: io_schedule_range_def res_iffs Let_def case_prod_beta split: if_splits)
  note q = quiet_put [OF sc(1) same_counts_range, of cbs]
  show ?thesis using sc(2) q quiet_trans [OF q quiet_tickle] by blast
qed

lemma quiet_trigger:
  assumes "trigger_dec os e p s = Inr s'"
  shows "quiet s s'"
proof -
  obtain k ft f1 s1 p2 f2 where q: "io_schedule os k ft (put_fd p f1 s) = Inr s1"
    and s': "s' = (put_fd p2 f2 s1)\<lparr>m_pendingEventCount := m_pendingEventCount s1 - 1\<rparr>"
    using assms by (auto simp: trigger_dec_def triggerEvent_def res_iffs Let_def put_fd_def split: if_splits)
  have "quiet s (put_fd p f1 s)" "quiet s1 s'" by (simp_all add: s' put_fd_def quiet_frame)
  with quiet_schedule [OF q] show ?thesis by (blast intro: quiet_trans)
qed

text \<open>The other fields of the manager do not matter.\<close>

lemma quiet_simps [simp]:
  "quiet (s\<lparr>kernel := k\<rparr>) s' = quiet s s'" "quiet s (s'\<lparr>kernel := k\<rparr>) = quiet s s'"
  "quiet s (s'\<lparr>fdheap := h\<rparr>) = quiet s s'" "quiet s (s'\<lparr>m_pendingEventCount := c\<rparr>) = quiet s s'"
  "quiet s (s'\<lparr>pipe_bytes := b\<rparr>) = quiet s s'" "quiet s (contextResize new_at n s') = quiet s s'"
  "quiet s (put_fd p f s') = quiet s s'"
  by (simp_all add: quiet_def contextResize_def put_fd_def Let_def)

lemma quiet_handle_ptr:
  assumes "handle_ptr os evs p s = Inr s'"
  shows "quiet s s'"
  using assms
  by (auto simp: handle_ptr_def res_iffs Let_def split: if_splits prod.splits dest!: quiet_trigger intro: quiet_trans)

lemma quiet_handle_event: "handle_event os ev s = Inr s' \<Longrightarrow> quiet s s'"
  by (auto simp: handle_event_def split: epoll_data.splits if_splits dest: quiet_handle_ptr)

lemma quiet_handle_events: "handle_events os evs s = Inr s' \<Longrightarrow> quiet s s'"
proof (induction evs arbitrary: s)
  case (Cons ev evs)
  then obtain s1 where "handle_event os ev s = Inr s1" "handle_events os evs s1 = Inr s'" by (auto simp: res_iffs)
  then show ?case using quiet_trans [OF quiet_handle_event Cons.IH] by blast
qed simp

lemma quiet_dropEvent:
  assumes "dropEvent os fd e act s = Inr (b, s')"
    and "\<And>p f ev k. act p f ev (s\<lparr>kernel := k\<rparr>) = Inr (b, s') \<Longrightarrow> quiet s s'"
  shows "quiet s s'"
proof -
  have "s' = s \<or> (\<exists>k. s' = s\<lparr>kernel := k\<rparr>) \<or> (\<exists>p f ev k. act p f ev (s\<lparr>kernel := k\<rparr>) = Inr (b, s'))"
    using assms(1) by (simp add: dropEvent_def res_iffs Let_def case_prod_beta split: if_splits) blast+
  then show ?thesis
  proof (elim disjE exE)
    show "quiet s s'" if "act p f ev (s\<lparr>kernel := k\<rparr>) = Inr (b, s')" for p f ev k using that by (rule assms(2))
  qed simp_all
qed

lemma quiet_delEvent: "delEvent os fd e s = Inr (b, s') \<Longrightarrow> quiet s s'"
  unfolding delEvent_def by (erule quiet_dropEvent) (auto simp: res_iffs Let_def)

lemma quiet_cancelEvent: "cancelEvent os fd e s = Inr (b, s') \<Longrightarrow> quiet s s'"
  unfolding cancelEvent_def by (erule quiet_dropEvent) (auto simp: res_iffs dest!: quiet_trigger)

lemma quiet_trigger_if: "trigger_if_set os e p s = Inr s' \<Longrightarrow> quiet s s'"
  by (auto simp: trigger_if_set_def res_iffs split: if_splits dest: quiet_trigger)

lemma quiet_cancelAll: "cancelAll os fd s = Inr (b, s') \<Longrightarrow> quiet s s'"
  by (auto simp: cancelAll_def res_iffs Let_def split: if_splits prod.splits dest!: quiet_trigger_if intro: quiet_trans)

lemma quiet_lookup: "addEvent_lookup new_at fd s = Inr (p, s') \<Longrightarrow> quiet s s'"
  by (auto simp: addEvent_lookup_def addEvent_grow_def res_iffs Let_def split: if_splits)

lemma quiet_locked: "addEvent_locked os k pm fd e cb p (s, gt) = Inr (rt, s', gt') \<Longrightarrow> quiet s s'"
  by (auto simp: addEvent_locked_def res_iffs Let_def split: if_splits prod.splits option.splits)

lemma quiet_addEvent: "addEvent os new_at k pm fd e cb (s, gt) = Inr (rt, s', gt') \<Longrightarrow> quiet s s'"
  unfolding addEvent_def by (auto simp: res_iffs dest!: quiet_lookup quiet_locked intro: quiet_trans)

section \<open>The idle loop and stop\<close>

text \<open>These also change the timers, and keep them well formed.\<close>

definition keeps :: "io \<Rightarrow> io \<Rightarrow> bool" where
  "keeps s s' \<longleftrightarrow>
     io_self s' = io_self s \<and> (\<forall>k. rel_option same_counts (scheds s k) (scheds s' k)) \<and>
     (timers_wf (timers s) \<longrightarrow> timers_wf (timers s'))"

lemma keeps_refl [simp]: "keeps s s"
  by (simp add: keeps_def)

lemma keeps_trans:
  assumes "keeps s s'" and "keeps s' s''"
  shows "keeps s s''"
proof -
  have "rel_option same_counts (scheds s k) (scheds s'' k)" for k
    using assms by (cases "scheds s k"; cases "scheds s' k"; cases "scheds s'' k")
      (auto simp: keeps_def dest!: spec [of _ k] intro: same_counts_trans)
  then show ?thesis using assms by (simp add: keeps_def)
qed

lemma quiet_keeps: "quiet s s' \<Longrightarrow> keeps s s'"
  by (simp add: quiet_def keeps_def)

lemma keeps_timers: "(timers_wf (timers s) \<Longrightarrow> timers_wf tm) \<Longrightarrow> keeps s (s\<lparr>timers := tm\<rparr>)"
  by (simp add: keeps_def)

lemma keeps_stopping:
  assumes "stopping_timeout now s = Inr (b, t, s1)"
  shows "keeps s s1" and "theap (timers s1) = theap (timers s)"
  using stopping_timeoutD(1) [OF assms] by (simp_all add: keeps_def getNextTimer_wf)

lemma keeps_idle_turn:
  assumes "idle_turn os now waits q now2 s = Inr (r, s')" and "theap (timers s) q = None"
  shows "keeps s s'"
proof -
  obtain b t s1 where s1: "stopping_timeout now s = Inr (b, t, s1)" using assms(1) by (auto simp: idle_turn_def res_iffs)
  note k = keeps_stopping [OF s1]
  show ?thesis
  proof (cases "b \<or> wait_events t waits = None")
    case True
    then have "s' = s1" using assms(1) s1 by (cases b) (simp_all add: idle_turn_def)
    with k(1) show ?thesis by simp
  next
    case False
    then obtain tw evs where w: "\<not> b" "wait_events t waits = Some (tw, evs)" by auto
    with assms(1) s1 obtain cbs tm s3 where e: "listExpiredCb q now2 (timers s1) = Inr (cbs, tm)"
      "(if cbs \<noteq> [] then io_schedule_range os cbs (s1\<lparr>timers := tm\<rparr>) else Inr (s1\<lparr>timers := tm\<rparr>)) = Inr s3"
      "handle_events os evs s3 = Inr s'" by (auto simp: idle_turn_def res_iffs Let_def)
    have "timers_wf tm" if "timers_wf (timers s1)"
      using listExpiredCb_total [OF that, of q now2] assms(2) k(2) e(1) by auto
    then have "keeps s1 (s1\<lparr>timers := tm\<rparr>)" by (rule keeps_timers)
    moreover have "keeps (s1\<lparr>timers := tm\<rparr>) s3"
      using e(2) by (auto split: if_splits dest!: quiet_schedule_range intro: quiet_keeps)
    moreover have "keeps s3 s'" using e(3) by (intro quiet_keeps quiet_handle_events)
    ultimately show ?thesis using k(1) by (blast intro: keeps_trans)
  qed
qed

text \<open>What \<^verbatim>\<open>stop\<close> leaves alone of the manager's own state.\<close>

definition same_table :: "io \<Rightarrow> io \<Rightarrow> bool" where
  "same_table s s' \<longleftrightarrow>
     fdheap s' = fdheap s \<and> m_fdContexts s' = m_fdContexts s \<and> m_tickleFds s' = m_tickleFds s \<and> io_self s' = io_self s \<and>
     kernel s' = kernel s \<and> m_pendingEventCount s' = m_pendingEventCount s \<and> dom (scheds s') = dom (scheds s)"

lemma same_table_inv: "same_table s s' \<Longrightarrow> io_inv s \<Longrightarrow> io_inv s'"
  by (rule io_inv_frame [of s]) (simp_all add: same_table_def)

lemma same_table_trans: "same_table s s' \<Longrightarrow> same_table s' s'' \<Longrightarrow> same_table s s''"
  by (simp add: same_table_def)

lemma on_sched_flag:
  assumes "\<And>sc. same_counts sc (f sc)"
  shows "keeps s (on_sched f s)" and "same_table s (on_sched f s)"
proof -
  show "keeps s (on_sched f s)" using assms by (auto simp: keeps_def option.rel_map option.rel_refl)
  show "same_table s (on_sched f s)" by (auto simp: same_table_def on_sched_def dom_def)
qed

lemma io_stopping_same:
  assumes "io_stopping now s = Inr (b, s1)"
  shows "keeps s s1" and "same_table s s1"
proof -
  obtain t where t: "stopping_timeout now s = Inr (b, t, s1)" using assms by (auto simp: io_stopping_def res_iffs)
  show "keeps s s1" by (rule keeps_stopping(1) [OF t])
  show "same_table s s1" using stopping_timeoutD(1) [OF t] by (simp add: same_table_def)
qed

lemma io_tickles_same: "io_tickles os n s = Inr s' \<Longrightarrow> keeps s s' \<and> same_table s s'"
proof (induction n arbitrary: s)
  case 0
  then show ?case by (simp add: same_table_def)
next
  case (Suc n)
  then obtain s1 where s1: "io_tickle os s = Inr s1" "io_tickles os n s1 = Inr s'" by (auto simp: res_iffs)
  from io_tickle_frame [OF s1(1)] have "keeps s s1" "same_table s s1" by (auto simp: keeps_def same_table_def)
  then show ?case using Suc.IH [OF s1(2)] keeps_trans same_table_trans by blast
qed

lemma io_stop_wake_same:
  assumes "io_stop_wake os now sc s = Inr (nx, s')"
  shows "keeps s s' \<and> same_table s s'"
proof -
  obtain s1 where n: "io_tickles os (unat (m_threadCount sc) + (if m_rootFiber sc \<noteq> None then 1 else 0)) s = Inr s1"
    "(case m_rootFiber sc of
        None \<Rightarrow> Inr (StopJoin, s1)
      | Some p \<Rightarrow> bind_res (io_stopping now s1) (\<lambda>(b, s2). Inr (if b then StopJoin else StopCallRoot p, s2))) = Inr (nx, s')"
    using assms unfolding io_stop_wake_def bind_res_Inr_iff by blast
  have "s' = s1 \<or> (\<exists>b. io_stopping now s1 = Inr (b, s'))" using n(2) by (auto simp: res_iffs split: option.splits)
  then show ?thesis
    using io_tickles_same [OF n(1)] keeps_trans same_table_trans io_stopping_same by blast
qed

lemma io_stop_same:
  assumes "io_stop os rs has now1 now2 s = Inr (nx, s')"
  shows "keeps s s' \<and> same_table s s'"
proof -
  let ?s1 = "on_sched (\<lambda>sc. sc\<lparr>m_autoStop := True\<rparr>) s" and ?f = "on_sched (\<lambda>sc. sc\<lparr>m_stopping := True\<rparr>)"
  have f: "keeps x (?f x)" "same_table x (?f x)" for x by (simp_all add: on_sched_flag same_counts_def)
  have s1: "keeps s ?s1" "same_table s ?s1" by (simp_all add: on_sched_flag same_counts_def)
  obtain sc where sc: "scheds ?s1 (io_self ?s1) = Some sc" using assms by (auto simp: io_stop_def Let_def res_iffs)
  obtain c r where b: "(if c then io_stopping now1 (?f ?s1) else Inr (False, ?s1)) = Inr r"
    "(case r of (b, s2) \<Rightarrow> if b then Inr (StopReturned, s2)
        else if m_rootThread sc \<noteq> - 1 then DUAN_ASSERT ''GetThis() == this'' has (io_stop_wake os now2 sc (?f s2))
        else DUAN_ASSERT ''GetThis() != this'' (\<not> has) (io_stop_wake os now2 sc (?f s2))) = Inr (nx, s')"
    using assms unfolding io_stop_def Let_def sc deref_simps bind_res_Inr_iff by blast
  have r: "keeps ?s1 (snd r) \<and> same_table ?s1 (snd r)"
  proof (cases c)
    case True
    then have "io_stopping now1 (?f ?s1) = Inr (fst r, snd r)" using b(1) by simp
    from io_stopping_same [OF this] f [of ?s1] show ?thesis using keeps_trans same_table_trans by blast
  next
    case False
    then have "snd r = ?s1" using b(1) by auto
    then show ?thesis by (simp add: same_table_def)
  qed
  have "s' = snd r \<or> io_stop_wake os now2 sc (?f (snd r)) = Inr (nx, s')"
    using b(2) by (cases r) (auto simp: DUAN_ASSERT_Inr_iff split: if_splits)
  then have "keeps (snd r) s' \<and> same_table (snd r) s'"
  proof
    assume "io_stop_wake os now2 sc (?f (snd r)) = Inr (nx, s')"
    from io_stop_wake_same [OF this] f [of "snd r"] show ?thesis using keeps_trans same_table_trans by blast
  qed (simp add: same_table_def)
  with r s1 show ?thesis using keeps_trans same_table_trans by blast
qed

section \<open>The system\<close>

text \<open>
  The state is that of the loop with its number of fiber tasks that have come back, and the manager. A step is a
  step of a thread in the loop or of a fiber, or an operation of the manager by any thread.
\<close>

inductive sys_step :: "int set \<Rightarrow> os \<Rightarrow> world \<times> nat \<times> io \<Rightarrow> world \<times> nat \<times> io \<Rightarrow> bool" for I :: "int set" and os :: os where
  y_loop: "sched_step I (w, n) (w', n') \<Longrightarrow> sys_step I os (w, n, s) (w', n', s)"
| y_add: "fresh_for new_at s \<Longrightarrow> 0 \<le> fd \<Longrightarrow> fd < 2 ^ 30 \<Longrightarrow> is_event e \<Longrightarrow> k \<in> dom (scheds (manager (w, s))) \<Longrightarrow>
    addEvent os new_at (Some k) pm fd e cb (manager (w, s), (env w, tl w i)) = Inr (rt, s', g, t) \<Longrightarrow>
    scheds s' (io_self s') = Some sc \<Longrightarrow>
    sys_step I os (w, n, s) (w\<lparr>sch := sc, env := g, tl := (tl w)(i := t)\<rparr>, n, s')"
| y_del: "0 \<le> fd \<Longrightarrow> is_event e \<Longrightarrow> on_io (delEvent os fd e) (w, s) = Inr (b, w', s') \<Longrightarrow>
    sys_step I os (w, n, s) (w', n, s')"
| y_cancel: "0 \<le> fd \<Longrightarrow> is_event e \<Longrightarrow> on_io (cancelEvent os fd e) (w, s) = Inr (b, w', s') \<Longrightarrow>
    sys_step I os (w, n, s) (w', n, s')"
| y_cancelAll: "0 \<le> fd \<Longrightarrow> on_io (cancelAll os fd) (w, s) = Inr (b, w', s') \<Longrightarrow> sys_step I os (w, n, s) (w', n, s')"
| y_idle: "i \<in> I \<Longrightarrow> pc (rl w i) = InIdle \<Longrightarrow> theap (timers s) q = None \<Longrightarrow>
    \<forall>evs\<in>set waits. \<forall>ev\<in>set (case evs of None \<Rightarrow> [] | Some l \<Rightarrow> l). reportable s ev \<Longrightarrow>
    on_io (idle_turn os now waits q now2) (w, s) = Inr (r, w', s') \<Longrightarrow> sys_step I os (w, n, s) (w', n, s')"
| y_schedule: "on_io (\<lambda>m. bind_res (io_schedule os (Some (io_self m)) ft m) (\<lambda>m1. Inr ((), m1))) (w, s) = Inr (u, w', s') \<Longrightarrow>
    sys_step I os (w, n, s) (w', n, s')"
| y_timer: "timer_step (timers s) tm \<Longrightarrow> sys_step I os (w, n, s) (w, n, s\<lparr>timers := tm\<rparr>)"
| y_wake: "on_io (\<lambda>m. bind_res (io_tickle os m) (\<lambda>m1. Inr ((), m1))) (w, s) = Inr (u, w', s') \<Longrightarrow>
    sys_step I os (w, n, s) (w', n, s')"
| y_stop: "on_io (io_stop os rs has now1 now2) (w, s) = Inr (nx, w', s') \<Longrightarrow> sys_step I os (w, n, s) (w', n, s')"

definition sys_init :: "int set \<Rightarrow> os \<Rightarrow> world \<times> nat \<times> io \<Rightarrow> bool" where
  "sys_init I os x \<longleftrightarrow>
     (case x of (w, n, s) \<Rightarrow> sched_init I (w, n) \<and> io_init os s \<and> scheds s (io_self s) = Some (sch w))"

definition sys_inv :: "int set \<Rightarrow> os \<Rightarrow> world \<times> nat \<times> io \<Rightarrow> bool" where
  "sys_inv I os x \<longleftrightarrow>
     (case x of (w, n, s) \<Rightarrow>
        sched_inv I (w, n) \<and> os_ok os \<and> io_inv (manager (w, s)) \<and> timers_wf (timers s))"

text \<open>An operation of the manager that satisfies its own invariant keeps that of the system.\<close>

lemma sys_inv_io:
  assumes "sys_inv I os (w, n, s)" and "keeps (manager (w, s)) s'" and "io_inv s'"
    and "scheds s' (io_self s') = Some sc" and "sch w' = sc" and "rl w' = rl w"
  shows "sys_inv I os (w', n, s')"
proof -
  have inv: "sched_inv I (w, n)" "os_ok os" "timers_wf (timers s)" using assms(1) by (simp_all add: sys_inv_def)
  have "\<forall>k. rel_option same_counts (scheds (manager (w, s)) k) (scheds s' k)" and self: "io_self s' = io_self s"
    using assms(2) by (simp_all add: keeps_def)
  from spec [OF this(1), of "io_self s"] have c: "same_counts (sch w) (sch w')" using assms(4,5) self by simp
  have "sched_inv I (w', n)"
    by (rule sched_inv_frame [OF inv(1)])
      (use c inv(1) assms(6) in \<open>auto simp: same_counts_def sched_inv_def pcs_def fun_eq_iff\<close>)
  moreover have "manager (w', s') = s'"
    using assms(4,5) by (cases s') (auto simp: manager_def fun_upd_idem)
  moreover have "timers_wf (timers s')" using assms(2) inv(3) by (simp add: keeps_def)
  ultimately show ?thesis using assms(3) inv(2) by (simp add: sys_inv_def)
qed

lemma sys_inv_on_io:
  assumes "sys_inv I os (w, n, s)" and "on_io f (w, s) = Inr (r, w', s')"
    and "\<And>m'. f (manager (w, s)) = Inr (r, m') \<Longrightarrow> keeps (manager (w, s)) m' \<and> io_inv m'"
  shows "sys_inv I os (w', n, s')"
proof -
  obtain sc where o: "f (manager (w, s)) = Inr (r, s')" "scheds s' (io_self s') = Some sc" "w' = w\<lparr>sch := sc\<rparr>"
    using assms(2) by (auto simp: on_io_def res_iffs)
  from sys_inv_io [OF assms(1) _ _ o(2)] assms(3) [OF o(1)] o(3) show ?thesis by simp
qed

lemma sys_step_inv:
  assumes "sys_step I os x y" and "sys_inv I os x"
  shows "sys_inv I os y"
  using assms
proof (induction rule: sys_step.induct)
  case (y_loop w n w' n' s)
  have "sched_inv I (w', n')" using y_loop by (auto simp: sys_inv_def intro: sched_step_inv)
  moreover have "io_inv (manager (w', s))"
    by (rule io_inv_frame [of "manager (w, s)"]) (use y_loop in \<open>auto simp: sys_inv_def manager_def\<close>)
  ultimately show ?case using y_loop(2) by (simp add: sys_inv_def)
next
  case (y_add new_at s fd e k w pm cb i rt s' g t sc n)
  have m: "io_inv (manager (w, s))" "epoll_documented os" using y_add(8) by (simp_all add: sys_inv_def os_ok_def)
  have "fresh_for new_at (manager (w, s))" using y_add(1) by (simp add: fresh_for_def manager_def)
  from addEvent_inv [OF m this y_add(2-6)] quiet_addEvent [OF y_add(6)]
  show ?case by (intro sys_inv_io [OF y_add(8) quiet_keeps _ y_add(7)]) simp_all
next
  case (y_del fd e w s b w' s' n)
  have "os_ok os" "io_inv (manager (w, s))" using y_del(4) by (simp_all add: sys_inv_def)
  then show ?case
    using io_step_inv [OF io_del [OF y_del(1,2)]] quiet_keeps [OF quiet_delEvent] by (intro sys_inv_on_io [OF y_del(4,3)]) blast
next
  case (y_cancel fd e w s b w' s' n)
  have "os_ok os" "io_inv (manager (w, s))" using y_cancel(4) by (simp_all add: sys_inv_def)
  then show ?case
    using io_step_inv [OF io_cancel [OF y_cancel(1,2)]] quiet_keeps [OF quiet_cancelEvent]
    by (intro sys_inv_on_io [OF y_cancel(4,3)]) blast
next
  case (y_cancelAll fd w s b w' s' n)
  have "os_ok os" "io_inv (manager (w, s))" using y_cancelAll(3) by (simp_all add: sys_inv_def)
  then show ?case
    using io_step_inv [OF io_cancelAll [OF y_cancelAll(1)]] quiet_keeps [OF quiet_cancelAll]
    by (intro sys_inv_on_io [OF y_cancelAll(3,2)]) blast
next
  case (y_idle i w s q waits now now2 r w' s' n)
  have os: "os_ok os" "io_inv (manager (w, s))" using y_idle(6) by (simp_all add: sys_inv_def)
  have rep: "reportable (manager (w, s)) = reportable s" by (rule reportable_cong) (simp_all add: manager_def)
  have q: "theap (timers (manager (w, s))) q = None" using y_idle(3) by simp
  show ?case
    using idle_turn_inv [OF os(2,1), unfolded rep, OF y_idle(4)] keeps_idle_turn [OF _ q]
    by (intro sys_inv_on_io [OF y_idle(6,5)]) blast
next
  case (y_schedule ft w s u w' s' n)
  have os: "os_ok os" "io_inv (manager (w, s))" using y_schedule(2) by (simp_all add: sys_inv_def)
  show ?case
  proof (rule sys_inv_on_io [OF y_schedule(2,1)])
    fix m' assume "bind_res (io_schedule os (Some (io_self (manager (w, s)))) ft (manager (w, s))) (\<lambda>m1. Inr ((), m1)) = Inr (u, m')"
    then have e: "io_schedule os (Some (io_self s)) ft (manager (w, s)) = Inr m'" by (auto simp: res_iffs)
    then have "same_table (manager (w, s)) m'"
      by (auto simp: io_schedule_def res_iffs Let_def case_prod_beta same_table_def manager_def split: if_splits
          dest!: io_tickle_frame)
    then have "io_inv m'" using os(2) by (rule same_table_inv)
    with quiet_keeps [OF quiet_schedule [OF e]] show "keeps (manager (w, s)) m' \<and> io_inv m'" by blast
  qed
next
  case (y_timer s tm w n)
  have "timers_wf tm" using y_timer by (auto simp: sys_inv_def intro: timer_step_wf)
  moreover have "io_inv (manager (w, s\<lparr>timers := tm\<rparr>))"
    by (rule io_inv_frame [of "manager (w, s)"]) (use y_timer in \<open>auto simp: sys_inv_def manager_def\<close>)
  ultimately show ?case using y_timer(2) by (simp add: sys_inv_def)
next
  case (y_wake w s u w' s' n)
  have os: "os_ok os" "io_inv (manager (w, s))" using y_wake(2) by (simp_all add: sys_inv_def)
  show ?case
    by (rule sys_inv_on_io [OF y_wake(2,1)])
      (use io_inv_tickle [OF os(2)] quiet_keeps [OF quiet_tickle] in \<open>auto simp: res_iffs\<close>)
next
  case (y_stop rs has now1 now2 w s nx w' s' n)
  have os: "io_inv (manager (w, s))" using y_stop(2) by (simp add: sys_inv_def)
  show ?case using io_stop_same same_table_inv os by (intro sys_inv_on_io [OF y_stop(2,1)]) blast
qed

interpretation manager_system: inductive_invariant "sys_init I os" "sys_step I os" "sys_inv I os" for I os
proof unfold_locales
  fix x
  assume "sys_init I os x"
  then obtain w n s where x: "x = (w, n, s)" "sched_init I (w, n)" "io_init os s" "scheds s (io_self s) = Some (sch w)"
    by (cases x) (auto simp: sys_init_def)
  have "os_ok os \<and> io_inv s" using x(3) by (rule io_system.inv_init)
  moreover have "sched_inv I (w, n)" using x(2) by (rule sched_system.inv_init)
  moreover have "manager (w, s) = s" using x(4) by (cases s) (auto simp: manager_def fun_upd_idem)
  moreover have "timers s = TimerManager_new t" if "IOManager_new os new_at tids epfd prt fds frt self sc scs t h = Inr s"
    for new_at tids epfd prt fds frt self sc scs t h
    using that by (auto simp: IOManager_new_def res_iffs Let_def case_prod_beta)
  then have "timers_wf (timers s)" using x(3) by (auto simp: io_init_def timers_wf_def TimerManager_new_def)
  ultimately show "sys_inv I os x" by (simp add: sys_inv_def x(1))
qed (rule sys_step_inv)

section \<open>When the manager stops\<close>

lemma armed_empty: "timers_wf m \<Longrightarrow> armed m = Map.empty \<longleftrightarrow> m_timers m = []"
  by (cases "m_timers m") (auto simp: armed_def fun_eq_iff timers_wf_def)

lemma no_next_timer:
  assumes "now \<noteq> 0"
  shows "fst (getNextTimer now m) = - 1 \<longleftrightarrow> m_timers m = []"
proof (cases "m_timers m")
  case (Cons p ps)
  let ?t = "next_of (theap m) p"
  have "?t - now \<noteq> - 1" if "\<not> ?t \<le> now"
  proof
    assume "?t - now = - 1"
    then have "?t = now - 1" by (simp add: algebra_simps eq_diff_eq)
    moreover have "now - 1 \<noteq> - 1" using assms by simp
    ultimately have "?t < now" using word_less_add_one(2) [of "now - 1"] by simp
    with that show False by simp
  qed
  with Cons show ?thesis by (simp add: getNextTimer_def Let_def)
qed (simp add: getNextTimer_def)

lemma registered_count:
  assumes "io_inv s"
  shows "m_pendingEventCount s = 0 \<longleftrightarrow> registered s = Map.empty"
proof -
  let ?n = "length (m_fdContexts s)" and ?b = "\<lambda>i. bits (m_events (fd_at s i))"
  have n: "?n < 2 ^ 31" using assms by (simp add: io_inv_def Let_def)
  have "(\<Sum>i<?n. ?b i) \<le> (\<Sum>i<?n. 2)" by (rule sum_mono) (simp add: bits_def)
  then have lt: "card (dom (registered s)) < 2 ^ 64" using n card_registered(1) [OF assms] by simp
  have "m_pendingEventCount s = of_nat (card (dom (registered s)))"
    using assms card_registered(1) [OF assms] by (simp add: io_inv_def Let_def del: of_nat_sum)
  then have "m_pendingEventCount s = 0 \<longleftrightarrow> card (dom (registered s)) = 0" using u64_of_nat_eq_0_iff [OF lt] by simp
  then show ?thesis using card_registered(2) [OF assms] by simp
qed


text \<open>The example manager with its one thread, stopped from outside before the thread has begun.\<close>

definition demo_manager :: "world \<times> nat \<times> io" where
  "demo_manager = (demo_world\<lparr>sch := demo_sched\<lparr>m_stopping := False, m_threads := [0], m_threadIds := [0]\<rparr>\<rparr>, 0, demo_io)"

lemma demo_manager_reach: "reach (sys_init {0} demo_os) (sys_step {0} demo_os) demo_manager"
proof (rule reach.reach_init)
  have "io_init demo_os demo_io"
    unfolding io_init_def using demo_os_ok demo_io_new by (intro conjI exI [of _ "\<lambda>i. i"] exI) auto
  then show "sys_init {0} demo_os demo_manager"
    by (simp add: sys_init_def demo_manager_def sched_init_def demo_defs)
qed


end
