(* ===== verification/Duan_Log_Format.thy ===== *)
theory Duan_Log_Format
  imports Duan_Prelude
begin

text \<open>
  \<^verbatim>\<open>log.h\<close>, \<^verbatim>\<open>log.cc\<close>, first part: levels, events, and the formatter with its pattern parser. The
  parser works on indices into the pattern, as the code does; both of its loops are functions with
  a termination proof. \<^verbatim>\<open>strftime\<close> over \<^verbatim>\<open>localtime_r\<close> depends on the time zone and is an argument.
\<close>

section \<open>Levels\<close>

text \<open>\<^verbatim>\<open>LogLevel::Level\<close>; the code also casts other integers to it.\<close>

type_synonym Level = int

definition UNKNOW :: Level where "UNKNOW = 0"
definition DEBUG :: Level where "DEBUG = 1"
definition INFO :: Level where "INFO = 2"
definition WARN :: Level where "WARN = 3"
definition ERROR :: Level where "ERROR = 4"
definition FATAL :: Level where "FATAL = 5"

definition LogLevel_toString :: "Level \<Rightarrow> string" where
  "LogLevel_toString level =
     (if level = DEBUG then ''DEBUG''
      else if level = INFO then ''INFO''
      else if level = WARN then ''WARN''
      else if level = ERROR then ''ERROR''
      else if level = FATAL then ''FATAL''
      else ''UNKNOW'')"

definition LogLevel_FromString :: "string \<Rightarrow> Level" where
  "LogLevel_FromString str =
     (if str = ''debug'' then DEBUG
      else if str = ''info'' then INFO
      else if str = ''warn'' then WARN
      else if str = ''error'' then ERROR
      else if str = ''fatal'' then FATAL
      else if str = ''DEBUG'' then DEBUG
      else if str = ''INFO'' then INFO
      else if str = ''WARN'' then WARN
      else if str = ''ERROR'' then ERROR
      else if str = ''FATAL'' then FATAL
      else UNKNOW)"

section \<open>Events\<close>

text \<open>
  \<^verbatim>\<open>LogEvent\<close>; \<open>ev_logger\<close> is the address of the logger and \<open>ev_logger_name\<close> its name. The selectors are the getters
  of the class.
\<close>

record LogEvent =
  ev_file :: string
  ev_line :: int
  ev_elapse :: u32
  ev_threadId :: u32
  ev_fiberId :: u32
  ev_time :: u64
  ev_threadName :: string
  ev_ss :: string
  ev_logger :: nat
  ev_logger_name :: string
  ev_level :: Level

definition LogEvent_new ::
  "nat \<times> string \<Rightarrow> Level \<Rightarrow> string \<Rightarrow> int \<Rightarrow> u32 \<Rightarrow> u32 \<Rightarrow> u32 \<Rightarrow> u64 \<Rightarrow> string \<Rightarrow> LogEvent" where
  "LogEvent_new logger level file line elapse thread_id fiber_id time thread_name =
     \<lparr>ev_file = file, ev_line = line, ev_elapse = elapse, ev_threadId = thread_id, ev_fiberId = fiber_id,
      ev_time = time, ev_threadName = thread_name, ev_ss = [], ev_logger = fst logger, ev_logger_name = snd logger,
      ev_level = level\<rparr>"

text \<open>\<^verbatim>\<open>LogEvent::format\<close>: \<open>out\<close> is what \<^verbatim>\<open>vasprintf\<close> made, \<^term>\<open>None\<close> when it returned -1.\<close>

definition LogEvent_format :: "string option \<Rightarrow> LogEvent \<Rightarrow> LogEvent" where
  "LogEvent_format out e = (case out of None \<Rightarrow> e | Some buf \<Rightarrow> e\<lparr>ev_ss := ev_ss e @ buf\<rparr>)"

section \<open>Format items\<close>

datatype FormatItem =
    MessageFormatItem
  | LevelFormatItem
  | ElapseFormatItem
  | NameFormatItem
  | ThreadIdFormatItem
  | NewLineFormatItem
  | DateTimeFormatItem string
  | FilenameFormatItem
  | LineFormatItem
  | TabFormatItem
  | FiberIdFormatItem
  | ThreadNameFormatItem
  | StringFormatItem string

text \<open>Decimal output of integers by \<^verbatim>\<open>operator<<\<close>.\<close>

fun show_nat :: "nat \<Rightarrow> string" where
  "show_nat n = (if n < 10 then [char_of (48 + n)] else show_nat (n div 10) @ [char_of (48 + n mod 10)])"

definition show_int :: "int \<Rightarrow> string" where
  "show_int i = (if i < 0 then CHR ''-'' # show_nat (nat (- i)) else show_nat (nat i))"

definition NL :: char where "NL = CHR 0x0A"
definition TAB :: char where "TAB = CHR 0x09"

definition DateTimeFormatItem_new :: "string \<Rightarrow> FormatItem" where
  "DateTimeFormatItem_new format =
     DateTimeFormatItem (if format = [] then ''%Y-%m-%d %H:%M:%S'' else format)"

fun FormatItem_format :: "(string \<Rightarrow> u64 \<Rightarrow> string) \<Rightarrow> Level \<Rightarrow> LogEvent \<Rightarrow> FormatItem \<Rightarrow> string" where
  "FormatItem_format strftime level e MessageFormatItem = ev_ss e"
| "FormatItem_format strftime level e LevelFormatItem = LogLevel_toString level"
| "FormatItem_format strftime level e ElapseFormatItem = show_nat (unat (ev_elapse e))"
| "FormatItem_format strftime level e NameFormatItem = ev_logger_name e"
| "FormatItem_format strftime level e ThreadIdFormatItem = show_nat (unat (ev_threadId e))"
| "FormatItem_format strftime level e NewLineFormatItem = [NL]"
| "FormatItem_format strftime level e (DateTimeFormatItem f) = strftime f (ev_time e)"
| "FormatItem_format strftime level e FilenameFormatItem = ev_file e"
| "FormatItem_format strftime level e LineFormatItem = show_int (ev_line e)"
| "FormatItem_format strftime level e TabFormatItem = [TAB]"
| "FormatItem_format strftime level e FiberIdFormatItem = show_nat (unat (ev_fiberId e))"
| "FormatItem_format strftime level e ThreadNameFormatItem = ev_threadName e"
| "FormatItem_format strftime level e (StringFormatItem s) = s"

section \<open>The pattern parser\<close>

definition isalpha :: "char \<Rightarrow> bool" where
  "isalpha c \<longleftrightarrow>
     (65 \<le> (of_char c :: nat) \<and> (of_char c :: nat) \<le> 90) \<or>
     (97 \<le> (of_char c :: nat) \<and> (of_char c :: nat) \<le> 122)"

definition substr :: "string \<Rightarrow> nat \<Rightarrow> nat \<Rightarrow> string" where
  "substr s pos n = take n (drop pos s)"

text \<open>
  The inner loop, for the item that starts at the \<^verbatim>\<open>%\<close> at index \<open>i\<close>; \<open>st\<close> is \<^verbatim>\<open>fmt_status == 1\<close> and
  \<open>beg\<close> is \<^verbatim>\<open>fmt_begin\<close>. The results are \<^verbatim>\<open>n\<close>, \<^verbatim>\<open>fmt_status\<close>, \<^verbatim>\<open>str\<close> and \<^verbatim>\<open>fmt\<close>.
\<close>

function item_loop ::
  "string \<Rightarrow> nat \<Rightarrow> nat \<Rightarrow> bool \<Rightarrow> nat \<Rightarrow> string \<Rightarrow> string \<Rightarrow> nat \<times> bool \<times> string \<times> string" where
  "item_loop pat i n st beg str fmt =
     (if n < length pat then
        if \<not> st \<and> \<not> isalpha (pat ! n) \<and> pat ! n \<noteq> CHR ''{'' \<and> pat ! i \<noteq> CHR ''}''
        then (n, st, substr pat (i + 1) (n - i - 1), fmt)
        else if \<not> st \<and> pat ! n = CHR ''{''
        then item_loop pat i (n + 1) True n (substr pat (i + 1) (n - i - 1)) fmt
        else if st \<and> pat ! n = CHR ''}''
        then (n + 1, False, str, substr pat (beg + 1) (n - beg - 1))
        else item_loop pat i (n + 1) st beg
               (if n + 1 = length pat \<and> str = [] then drop (i + 1) pat else str) fmt
      else (n, st, str, fmt))"
  by pat_completeness auto
termination
  by (relation "measure (\<lambda>(pat, i, n, st, beg, str, fmt). length pat - n)") auto

declare item_loop.simps [simp del]

lemma item_loop_ge: "n \<le> fst (item_loop pat i n st beg str fmt)"
proof (induction pat i n st beg str fmt rule: item_loop.induct)
  case (1 pat i n st beg str fmt)
  then show ?case
    by (subst item_loop.simps)
      (auto simp: Suc_le_eq intro: less_imp_le)
qed

text \<open>
  The outer loop: an entry of \<^verbatim>\<open>vec\<close> is a text, a format and whether it names an item (type 1).
  \<open>err\<close> is what the loop writes to \<^verbatim>\<open>std::cout\<close>: it writes exactly when it sets \<^verbatim>\<open>m_error\<close>.
\<close>

type_synonym vec_item = "string \<times> string \<times> bool"

function parse_loop :: "string \<Rightarrow> nat \<Rightarrow> string \<Rightarrow> vec_item list \<Rightarrow> string \<Rightarrow> string \<times> vec_item list \<times> string" where
  "parse_loop pat i nstr vec err =
     (if i < length pat then
        if pat ! i \<noteq> CHR ''%'' then parse_loop pat (i + 1) (nstr @ [pat ! i]) vec err
        else if i + 1 < length pat \<and> pat ! (i + 1) = CHR ''%''
        then parse_loop pat (i + 1) (nstr @ [CHR ''%'']) vec err
        else
          let r = item_loop pat i (i + 1) False 0 [] [];
              str = fst (snd (snd r)); fmt = snd (snd (snd r))
          in if \<not> fst (snd r)
             then parse_loop pat (fst r) []
                    (vec @ (if nstr \<noteq> [] then [(nstr, [], False)] else []) @ [(str, fmt, True)]) err
             else parse_loop pat (i + 1) nstr (vec @ [(''<<pattern_error>>'', fmt, False)])
                    (err @ ''pattern parse error: '' @ pat @ '' - '' @ drop i pat @ [NL])
      else (nstr, vec, err))"
  by pat_completeness auto
termination
proof (relation "measure (\<lambda>(pat, i, nstr, vec, err). length pat - i)")
  fix pat :: string and i :: nat and nstr :: string and vec :: "vec_item list" and err r str fmt
  assume "i < length pat" and r: "r = item_loop pat i (i + 1) False 0 [] []"
  moreover have "i + 1 \<le> fst r" unfolding r by (rule item_loop_ge)
  ultimately show "((pat, fst r, [], vec @ (if nstr \<noteq> [] then [(nstr, [], False)] else []) @ [(str, fmt, True)], err),
      pat, i, nstr, vec, err) \<in> measure (\<lambda>(pat, i, nstr, vec, err). length pat - i)"
    by simp
qed auto

declare parse_loop.simps [simp del]

text \<open>\<^verbatim>\<open>s_format_items\<close>.\<close>

definition s_format_items :: "string \<Rightarrow> (string \<Rightarrow> FormatItem) option" where
  "s_format_items = map_of
     [(''m'', \<lambda>fmt. MessageFormatItem), (''p'', \<lambda>fmt. LevelFormatItem),
      (''r'', \<lambda>fmt. ElapseFormatItem), (''c'', \<lambda>fmt. NameFormatItem),
      (''t'', \<lambda>fmt. ThreadIdFormatItem), (''n'', \<lambda>fmt. NewLineFormatItem),
      (''d'', DateTimeFormatItem_new), (''f'', \<lambda>fmt. FilenameFormatItem),
      (''l'', \<lambda>fmt. LineFormatItem), (''T'', \<lambda>fmt. TabFormatItem),
      (''F'', \<lambda>fmt. FiberIdFormatItem), (''N'', \<lambda>fmt. ThreadNameFormatItem)]"

text \<open>The item for an entry of \<^verbatim>\<open>vec\<close>, and whether it is in error.\<close>

definition make_item :: "vec_item \<Rightarrow> FormatItem \<times> bool" where
  "make_item v =
     (let (str, fmt, is_item) = v in
      if \<not> is_item then (StringFormatItem str, False)
      else case s_format_items str of
             None \<Rightarrow> (StringFormatItem (''<<error_format %'' @ str @ ''>>''), True)
           | Some mk \<Rightarrow> (mk fmt, False))"

record LogFormatter =
  m_pattern :: string
  m_items :: "FormatItem list"
  m_error :: bool

text \<open>The constructor, which calls \<^verbatim>\<open>init\<close>.\<close>

definition LogFormatter_init :: "string \<Rightarrow> vec_item list \<times> string" where
  "LogFormatter_init pat =
     (let (nstr, vec, err) = parse_loop pat 0 [] [] []
      in (vec @ (if nstr \<noteq> [] then [(nstr, [], False)] else []), err))"

definition LogFormatter_new :: "string \<Rightarrow> LogFormatter" where
  "LogFormatter_new pat =
     (let (vec, err) = LogFormatter_init pat; items = map make_item vec
      in \<lparr>m_pattern = pat, m_items = map fst items, m_error = err \<noteq> [] \<or> (\<exists>x\<in>set items. snd x)\<rparr>)"

definition LogFormatter_format :: "(string \<Rightarrow> u64 \<Rightarrow> string) \<Rightarrow> LogFormatter \<Rightarrow> Level \<Rightarrow> LogEvent \<Rightarrow> string" where
  "LogFormatter_format strftime f level e = concat (map (FormatItem_format strftime level e) (m_items f))"

section \<open>Patterns and their segments\<close>

text \<open>A pattern is written as a sequence of plain texts and items, an item with or without a format.\<close>

datatype segment = Text string | Item string "string option"

fun render :: "segment \<Rightarrow> string" where
  "render (Text s) = s"
| "render (Item nm None) = CHR ''%'' # nm"
| "render (Item nm (Some f)) = CHR ''%'' # nm @ CHR ''{'' # f @ [CHR ''}'']"

fun entry :: "segment \<Rightarrow> vec_item" where
  "entry (Text s) = (s, [], False)"
| "entry (Item nm fo) = (nm, case fo of None \<Rightarrow> [] | Some f \<Rightarrow> f, True)"

definition is_name :: "string \<Rightarrow> bool" where
  "is_name nm \<longleftrightarrow> nm \<noteq> [] \<and> (\<forall>c\<in>set nm. isalpha c)"

fun starts_text :: "segment list \<Rightarrow> bool" where
  "starts_text (Text s # rest) = True"
| "starts_text _ = False"

text \<open>
  A text is nonempty, has no \<^verbatim>\<open>%\<close> and does not follow another text; a name is a nonempty word of
  letters; a text after an item without format does not continue its name or open a format.
\<close>

fun wf_segments :: "segment list \<Rightarrow> bool" where
  "wf_segments [] = True"
| "wf_segments (Text s # rest) = (s \<noteq> [] \<and> CHR ''%'' \<notin> set s \<and> \<not> starts_text rest \<and> wf_segments rest)"
| "wf_segments (Item nm None # rest) =
     (is_name nm \<and> (case rest of Text (c # cs) # _ \<Rightarrow> \<not> isalpha c \<and> c \<noteq> CHR ''{'' | _ \<Rightarrow> True) \<and>
      wf_segments rest)"
| "wf_segments (Item nm (Some f) # rest) = (is_name nm \<and> CHR ''}'' \<notin> set f \<and> wf_segments rest)"

definition flush :: "string \<Rightarrow> vec_item list" where
  "flush nstr = (if nstr \<noteq> [] then [(nstr, [], False)] else [])"

section \<open>Steps of the loops\<close>

lemma not_alpha [simp]: "\<not> isalpha (CHR ''%'')" "\<not> isalpha (CHR ''{'')" "\<not> isalpha (CHR ''}'')"
  by (simp_all add: isalpha_def)

lemma parse_text:
  assumes "CHR ''%'' \<notin> set s"
  shows "parse_loop (pre @ s @ rest) (length pre) nstr vec err =
    parse_loop (pre @ s @ rest) (length pre + length s) (nstr @ s) vec err"
  using assms
proof (induction s arbitrary: pre nstr)
  case (Cons c s)
  have "parse_loop (pre @ (c # s) @ rest) (length pre) nstr vec err =
      parse_loop (pre @ (c # s) @ rest) (length pre + 1) (nstr @ [c]) vec err"
    using Cons.prems by (subst parse_loop.simps) (auto simp: nth_append)
  also have "\<dots> = parse_loop (pre @ (c # s) @ rest) (length pre + length (c # s)) (nstr @ c # s) vec err"
    using Cons.IH [of "pre @ [c]" "nstr @ [c]"] Cons.prems by simp
  finally show ?case .
qed simp

text \<open>Over the letters of a name, as long as something follows.\<close>

lemma item_name:
  assumes "\<forall>c\<in>set nm. isalpha c" and "rest \<noteq> []"
  shows "item_loop (pre @ nm @ rest) i (length pre) False beg str fmt =
    item_loop (pre @ nm @ rest) i (length pre + length nm) False beg str fmt"
  using assms(1)
proof (induction nm arbitrary: pre)
  case (Cons c nm)
  have c: "isalpha c" "c \<noteq> CHR ''{''" using Cons.prems by auto
  have "item_loop (pre @ (c # nm) @ rest) i (length pre) False beg str fmt =
      item_loop (pre @ (c # nm) @ rest) i (length pre + 1) False beg str fmt"
    using c assms(2) by (subst item_loop.simps) (simp add: nth_append)
  also have "\<dots> = item_loop (pre @ (c # nm) @ rest) i (length pre + length (c # nm)) False beg str fmt"
    using Cons.IH [of "pre @ [c]"] Cons.prems by simp
  finally show ?case .
qed simp

lemma item_name_end:
  assumes "\<forall>c\<in>set nm. isalpha c" and "nm \<noteq> []"
  shows "item_loop (pre @ nm) i (length pre) False beg [] fmt =
    (length pre + length nm, False, drop (i + 1) (pre @ nm), fmt)"
proof -
  obtain ini c where nm: "nm = ini @ [c]" using assms(2) by (metis rev_exhaust)
  have c: "isalpha c" "c \<noteq> CHR ''{''" using assms(1) nm by auto
  have "item_loop (pre @ nm) i (length pre) False beg [] fmt =
      item_loop (pre @ nm) i (length pre + length ini) False beg [] fmt"
    using item_name [of ini "[c]" pre] assms(1) nm by simp
  also have "\<dots> = item_loop (pre @ nm) i (length pre + length nm) False beg (drop (i + 1) (pre @ nm)) fmt"
    using c nm by (subst item_loop.simps) (simp add: nth_append)
  also have "\<dots> = (length pre + length nm, False, drop (i + 1) (pre @ nm), fmt)"
    by (subst item_loop.simps) simp
  finally show ?thesis .
qed

text \<open>Over a format.\<close>

lemma item_format:
  assumes "CHR ''}'' \<notin> set f" and "str \<noteq> []"
  shows "item_loop (pre @ f @ CHR ''}'' # rest) i (length pre) True beg str fmt =
    (length pre + length f + 1, False, str,
     substr (pre @ f @ CHR ''}'' # rest) (beg + 1) (length pre + length f - beg - 1))"
  using assms(1)
proof (induction f arbitrary: pre)
  case Nil
  show ?case by (subst item_loop.simps) (simp add: nth_append)
next
  case (Cons c f)
  have "item_loop (pre @ (c # f) @ CHR ''}'' # rest) i (length pre) True beg str fmt =
      item_loop (pre @ (c # f) @ CHR ''}'' # rest) i (length pre + 1) True beg str fmt"
    using Cons.prems assms(2) by (subst item_loop.simps) (auto simp: nth_append)
  with Cons.IH [of "pre @ [c]"] Cons.prems show ?case by simp
qed

text \<open>A whole item: without a format (followed by the end or by something that ends the name), and with one.\<close>

lemma item_plain:
  assumes "is_name nm" and "rest \<noteq> [] \<Longrightarrow> \<not> isalpha (hd rest) \<and> hd rest \<noteq> CHR ''{''"
  shows "item_loop (pre @ CHR ''%'' # nm @ rest) (length pre) (length pre + 1) False 0 [] [] =
    (length pre + 1 + length nm, False, nm, [])"
proof (cases rest)
  case Nil
  then show ?thesis
    using item_name_end [of nm "pre @ [CHR ''%'']" "length pre" 0 "[]"] assms(1) by (simp add: is_name_def)
next
  case (Cons c cs)
  let ?pat = "pre @ CHR ''%'' # nm @ rest"
  have "item_loop ?pat (length pre) (length pre + 1) False 0 [] [] =
      item_loop ?pat (length pre) (length pre + 1 + length nm) False 0 [] []"
    using item_name [of nm rest "pre @ [CHR ''%'']"] assms(1) Cons by (simp add: is_name_def)
  also have "\<dots> = (length pre + 1 + length nm, False, nm, [])"
    using assms(2) Cons by (subst item_loop.simps) (simp add: nth_append substr_def)
  finally show ?thesis .
qed

lemma item_with_format:
  assumes "is_name nm" and "CHR ''}'' \<notin> set f"
  shows "item_loop (pre @ CHR ''%'' # nm @ CHR ''{'' # f @ CHR ''}'' # rest) (length pre) (length pre + 1)
      False 0 [] [] = (length pre + length nm + length f + 3, False, nm, f)"
proof -
  let ?q = "pre @ CHR ''%'' # nm"
  let ?pat = "pre @ CHR ''%'' # nm @ CHR ''{'' # f @ CHR ''}'' # rest"
  have "item_loop ?pat (length pre) (length pre + 1) False 0 [] [] =
      item_loop ?pat (length pre) (length ?q) False 0 [] []"
    using item_name [of nm "CHR ''{'' # f @ CHR ''}'' # rest" "pre @ [CHR ''%'']"] assms(1)
    by (simp add: is_name_def)
  also have "\<dots> = item_loop ?pat (length pre) (length ?q + 1) True (length ?q) nm []"
    by (subst item_loop.simps) (simp add: nth_append substr_def)
  also have "\<dots> = (length pre + length nm + length f + 3, False, nm, f)"
    using item_format [OF assms(2), of nm "?q @ [CHR ''{'']" rest "length pre" "length ?q" "[]"] assms(1)
    by (simp add: is_name_def substr_def)
  finally show ?thesis .
qed

lemma parse_item:
  assumes "pat = pre @ CHR ''%'' # tail" and "tail \<noteq> []" and "hd tail \<noteq> CHR ''%''"
    and "item_loop pat (length pre) (length pre + 1) False 0 [] [] = (n, False, str, fmt)"
  shows "parse_loop pat (length pre) nstr vec err = parse_loop pat n [] (vec @ flush nstr @ [(str, fmt, True)]) err"
  using assms by (subst parse_loop.simps) (cases tail; simp add: nth_append flush_def)

lemma render_starts:
  assumes "wf_segments segs" and "concat (map render segs) \<noteq> []" and "\<not> starts_text segs"
  shows "hd (concat (map render segs)) = CHR ''%''"
  using assms
proof (cases segs)
  case (Cons x xs)
  with assms(3) obtain nm fo where "x = Item nm fo" by (cases x) auto
  with Cons show ?thesis by (cases fo) auto
qed simp

lemma after_plain_item:
  assumes "wf_segments (Item nm None # segs)" and "concat (map render segs) \<noteq> []"
  shows "\<not> isalpha (hd (concat (map render segs))) \<and> hd (concat (map render segs)) \<noteq> CHR ''{''"
proof (cases "starts_text segs")
  case True
  then obtain s rest where s: "segs = Text s # rest" by (cases segs rule: starts_text.cases) auto
  then obtain c cs where "s = c # cs" using assms(1) by (cases s) auto
  then show ?thesis using assms(1) s by simp
next
  case False
  with render_starts [of segs] assms show ?thesis by simp
qed

lemma parse_segments:
  assumes "wf_segments segs" and "nstr \<noteq> [] \<Longrightarrow> \<not> starts_text segs"
  shows "\<exists>nstr' vec'. parse_loop (pre @ concat (map render segs)) (length pre) nstr vec err = (nstr', vec', err) \<and>
    vec' @ flush nstr' = vec @ flush nstr @ map entry segs"
  using assms
proof (induction segs arbitrary: pre nstr vec)
  case Nil
  show ?case by (subst parse_loop.simps) simp
next
  case (Cons x segs)
  let ?R = "concat (map render segs)"
  show ?case
  proof (cases x)
    case (Text s)
    then have w: "s \<noteq> []" "CHR ''%'' \<notin> set s" "\<not> starts_text segs" "wf_segments segs" "nstr = []"
      using Cons.prems by auto
    have "parse_loop (pre @ s @ ?R) (length pre) [] vec err = parse_loop ((pre @ s) @ ?R) (length (pre @ s)) s vec err"
      using parse_text [OF w(2), of pre ?R "[]"] by simp
    with Cons.IH [of s "pre @ s" vec] w Text show ?thesis by (simp add: flush_def)
  next
    case (Item nm fo)
    then have nm: "is_name nm" and wf: "wf_segments segs" using Cons.prems(1) by (cases fo; simp)+
    have hd: "nm @ z \<noteq> []" "hd (nm @ z) \<noteq> CHR ''%''" for z
    proof -
      obtain c cs where "nm = c # cs" "isalpha c" using nm by (cases nm) (auto simp: is_name_def)
      then show "nm @ z \<noteq> []" "hd (nm @ z) \<noteq> CHR ''%''" by auto
    qed
    let ?q = "pre @ render x"
    have "parse_loop (pre @ render x @ ?R) (length pre) nstr vec err =
        parse_loop (?q @ ?R) (length ?q) [] (vec @ flush nstr @ [entry x]) err"
    proof (cases fo)
      case None
      have r: "?R \<noteq> [] \<Longrightarrow> \<not> isalpha (hd ?R) \<and> hd ?R \<noteq> CHR ''{''"
        using after_plain_item [of nm segs] Cons.prems(1) Item None by simp
      show ?thesis
        using parse_item [OF refl hd item_plain [OF nm r, of pre], of nstr vec err] Item None by simp
    next
      case (Some f)
      then have f: "CHR ''}'' \<notin> set f" using Cons.prems(1) Item by simp
      show ?thesis
        using parse_item [OF refl hd item_with_format [OF nm f, of pre ?R], of nstr vec err] Item Some
        by (simp add: algebra_simps eval_nat_numeral)
    qed
    with Cons.IH [of "[]" ?q "vec @ flush nstr @ [entry x]"] wf show ?thesis by (simp add: flush_def)
  qed
qed

lemma init_segments: "wf_segments segs \<Longrightarrow> LogFormatter_init (concat (map render segs)) = (map entry segs, [])"
  using parse_segments [of segs "[]" "[]" "[]" "[]"] by (auto simp: LogFormatter_init_def flush_def Let_def)

section \<open>What a formatter prints\<close>

text \<open>What a segment stands for.\<close>

definition known_item :: "segment \<Rightarrow> bool" where
  "known_item seg = (case seg of Text s \<Rightarrow> True | Item nm fo \<Rightarrow> s_format_items nm \<noteq> None)"

fun segment_output :: "(string \<Rightarrow> u64 \<Rightarrow> string) \<Rightarrow> Level \<Rightarrow> LogEvent \<Rightarrow> segment \<Rightarrow> string" where
  "segment_output strftime level e (Text s) = s"
| "segment_output strftime level e (Item nm fo) =
     (case s_format_items nm of
        None \<Rightarrow> ''<<error_format %'' @ nm @ ''>>''
      | Some mk \<Rightarrow> FormatItem_format strftime level e (mk (case fo of None \<Rightarrow> [] | Some f \<Rightarrow> f)))"

lemma make_item_entry:
  "snd (make_item (entry seg)) \<longleftrightarrow> \<not> known_item seg"
  "FormatItem_format strftime level e (fst (make_item (entry seg))) = segment_output strftime level e seg"
  by (cases seg; simp add: make_item_def known_item_def split: option.split)+

text \<open>
  C25. A pattern written as a sequence of plain texts and items, where texts have no percent sign and
  item names are words of letters, is parsed back into exactly that sequence: the index loops of
  \<^verbatim>\<open>LogFormatter::init\<close> invert the printing of patterns, in order, losing no text and no format, and
  report no parse error.
\<close>

theorem pattern_roundtrip:
  assumes "wf_segments segs"
  shows "LogFormatter_init (concat (map render segs)) = (map entry segs, [])"
  by (rule init_segments [OF assms])

definition demo_segments :: "segment list" where
  "demo_segments =
     [Item ''d'' (Some ''%H:%M''), Item ''T'' None, Text ''['', Item ''p'' None, Text ''] '', Item ''m'' None, Item ''n'' None]"

theorem pattern_roundtrip_witness:
  "concat (map render demo_segments) = ''%d{%H:%M}%T[%p] %m%n'' \<and>
   LogFormatter_init (concat (map render demo_segments)) =
     ([(''d'', ''%H:%M'', True), (''T'', [], True), (''['', [], False), (''p'', [], True),
       (''] '', [], False), (''m'', [], True), (''n'', [], True)], [])"
  using pattern_roundtrip [of demo_segments]
  by (simp add: demo_segments_def is_name_def isalpha_def)

text \<open>
  The formatter made from such a pattern is in error exactly when one of the items is not in the
  item table, and what it prints for an event is the concatenation, in order, of what each segment
  stands for: texts literally, items through the table, an unknown item as an error marker.
\<close>

theorem formatter_output:
  assumes "wf_segments segs" and "pat = concat (map render segs)"
  shows "(m_error (LogFormatter_new pat) \<longleftrightarrow> \<not> list_all known_item segs) \<and>
    LogFormatter_format strftime (LogFormatter_new pat) level e = concat (map (segment_output strftime level e) segs)"
  using init_segments [OF assms(1)] assms(2)
  by (simp add: LogFormatter_new_def LogFormatter_format_def make_item_entry comp_def list_all_iff)

definition demo_event :: LogEvent where
  "demo_event = \<lparr>ev_file = ''a.cc'', ev_line = 12, ev_elapse = 0, ev_threadId = 7, ev_fiberId = 3, ev_time = 60,
     ev_threadName = ''main'', ev_ss = ''hello'', ev_logger = 0, ev_logger_name = ''root'', ev_level = INFO\<rparr>"

theorem formatter_output_witness:
  "\<not> m_error (LogFormatter_new ''%d{%H:%M}%T[%p] %m%n'') \<and>
   LogFormatter_format (\<lambda>f t. f) (LogFormatter_new ''%d{%H:%M}%T[%p] %m%n'') INFO demo_event =
     ''%H:%M'' @ [TAB] @ ''[INFO] hello'' @ [NL]"
  using formatter_output [of demo_segments "''%d{%H:%M}%T[%p] %m%n''"]
  by (simp add: demo_segments_def is_name_def isalpha_def known_item_def s_format_items_def
    DateTimeFormatItem_new_def demo_event_def LogLevel_toString_def INFO_def DEBUG_def)

text \<open>
  The escape \<^verbatim>\<open>%%\<close> that the comment above \<^verbatim>\<open>init\<close> announces does not work: the first percent sign
  appends a percent sign but only one character is skipped, so the second one starts an item. A
  pattern that ends in the escape is in error, whatever text comes before, and prints a marker.
\<close>

theorem percent_escape_is_error:
  assumes "CHR ''%'' \<notin> set s"
  shows "m_error (LogFormatter_new (s @ ''%%'')) \<and>
    LogFormatter_format strftime (LogFormatter_new (s @ ''%%'')) level e = s @ ''%<<error_format %>>''"
proof -
  have "parse_loop (s @ ''%%'') 0 [] [] [] = parse_loop (s @ ''%%'') (length s) s [] []"
    using parse_text [OF assms, of "[]" "''%%''" "[]" "[]" "[]"] by simp
  also have "\<dots> = parse_loop (s @ ''%%'') (length s + 1) (s @ ''%'') [] []"
    by (subst parse_loop.simps) (simp add: nth_append)
  also have "\<dots> = ([], [(s @ ''%'', [], False), ([], [], True)], [])"
    by (simp add: parse_loop.simps [of _ "Suc (length s)"] item_loop.simps nth_append)
      (simp add: parse_loop.simps)
  finally have "LogFormatter_init (s @ ''%%'') = ([(s @ ''%'', [], False), ([], [], True)], [])"
    by (simp add: LogFormatter_init_def)
  then show ?thesis
    by (simp add: LogFormatter_new_def LogFormatter_format_def make_item_def s_format_items_def)
qed

theorem percent_escape_is_error_witness:
  "m_error (LogFormatter_new ''100%%'') \<and>
   LogFormatter_format (\<lambda>f t. f) (LogFormatter_new ''100%%'') INFO demo_event = ''100%<<error_format %>>''"
  using percent_escape_is_error [of "''100''"] by simp

text \<open>
  Level names: reading back the printed name of a level gives the level, for the five named
  levels; every other value prints as UNKNOW and reads back as the unknown level.
\<close>

theorem level_roundtrip:
  "LogLevel_FromString (LogLevel_toString level) = (if DEBUG \<le> level \<and> level \<le> FATAL then level else UNKNOW)"
  by (auto simp: LogLevel_toString_def LogLevel_FromString_def DEBUG_def INFO_def WARN_def ERROR_def FATAL_def
    UNKNOW_def)

end
