(* ===== verification/Duan_Log.thy ===== *)
theory Duan_Log
  imports Duan_Log_Format
begin

text \<open>
  \<^verbatim>\<open>log.h\<close>, \<^verbatim>\<open>log.cc\<close>, second part: appenders, loggers, the manager, and the listener that applies a
  changed log configuration. Loggers and appenders are shared objects, so they live in two heaps and
  are named by their addresses; an object that is no longer referenced stays in its heap. A formatter
  never changes after its construction and is a value. Every operation takes the locks it needs one
  after the other and is modelled as one step.
\<close>

section \<open>File streams\<close>

text \<open>
  \<^verbatim>\<open>std::ofstream\<close>: whether a file is open, the fail state, and the write position. \<^verbatim>\<open>close\<close> of a stream
  without a file fails; \<^verbatim>\<open>open\<close> fails on a stream that is already open, and otherwise truncates the file
  and clears the state. A failed write is taken to write nothing.
\<close>

record ofstream =
  fs_open :: bool
  fs_fail :: bool
  fs_pos :: nat

type_synonym files = "string \<Rightarrow> string option"

definition ofstream_new :: ofstream where
  "ofstream_new = \<lparr>fs_open = False, fs_fail = False, fs_pos = 0\<rparr>"

definition ofstream_close :: "ofstream \<Rightarrow> ofstream" where
  "ofstream_close fs = (if fs_open fs then fs\<lparr>fs_open := False\<rparr> else fs\<lparr>fs_fail := True\<rparr>)"

definition ofstream_open :: "bool \<Rightarrow> string \<Rightarrow> ofstream \<Rightarrow> files \<Rightarrow> ofstream \<times> files" where
  "ofstream_open ok filename fs fl =
     (if fs_open fs \<or> \<not> ok then (fs\<lparr>fs_fail := True\<rparr>, fl)
      else (\<lparr>fs_open = True, fs_fail = False, fs_pos = 0\<rparr>, fl(filename \<mapsto> [])))"

definition write_at :: "string \<Rightarrow> nat \<Rightarrow> string \<Rightarrow> string" where
  "write_at content pos str =
     take pos (content @ replicate (pos - length content) (char_of (0 :: nat))) @ str @ drop (pos + length str) content"

definition ofstream_write :: "bool \<Rightarrow> string \<Rightarrow> string \<Rightarrow> ofstream \<Rightarrow> files \<Rightarrow> ofstream \<times> files" where
  "ofstream_write ok filename str fs fl =
     (if fs_fail fs \<or> \<not> fs_open fs \<or> \<not> ok then (fs\<lparr>fs_fail := True\<rparr>, fl)
      else (fs\<lparr>fs_pos := fs_pos fs + length str\<rparr>,
            fl(filename \<mapsto> write_at (case fl filename of None \<Rightarrow> [] | Some c \<Rightarrow> c) (fs_pos fs) str)))"

section \<open>Appenders\<close>

record file_part =
  m_filename :: string
  m_filestream :: ofstream
  m_lastTime :: u64

datatype sink = StdoutLogAppender | FileLogAppender file_part

record LogAppender =
  ap_sink :: sink
  ap_level :: Level
  ap_hasFormatter :: bool
  ap_formatter :: "LogFormatter option"

record Logger =
  lg_name :: string
  lg_level :: Level
  lg_appenders :: "nat list"
  lg_formatter :: "LogFormatter option"
  lg_root :: "nat option"

text \<open>
  The state: the two heaps with their next free addresses, the manager's table and root, what was
  written to \<^verbatim>\<open>std::cout\<close>, and the files.
\<close>

record log_state =
  loggers :: "nat \<Rightarrow> Logger option"
  appenders :: "nat \<Rightarrow> LogAppender option"
  next_logger :: nat
  next_appender :: nat
  m_loggers :: "string \<Rightarrow> nat option"
  m_root :: nat
  cout :: string
  files :: files

text \<open>
  What the operating system answers during a call, for the appender at an address: the value of
  \<^verbatim>\<open>time(0)\<close>, and whether opening its file and writing to it succeed; and the text \<^verbatim>\<open>strftime\<close> makes.
\<close>

record log_os =
  os_time :: "nat \<Rightarrow> u64"
  os_open :: "nat \<Rightarrow> bool"
  os_write :: "nat \<Rightarrow> bool"
  os_strftime :: "string \<Rightarrow> u64 \<Rightarrow> string"

definition print :: "string \<Rightarrow> log_state \<Rightarrow> log_state" where
  "print str s = s\<lparr>cout := cout s @ str\<rparr>"

definition put_appender :: "nat \<Rightarrow> LogAppender \<Rightarrow> log_state \<Rightarrow> log_state" where
  "put_appender p a s = s\<lparr>appenders := (appenders s)(p \<mapsto> a)\<rparr>"

definition put_logger :: "nat \<Rightarrow> Logger \<Rightarrow> log_state \<Rightarrow> log_state" where
  "put_logger l lg s = s\<lparr>loggers := (loggers s)(l \<mapsto> lg)\<rparr>"

definition appender_setFormatter :: "LogFormatter option \<Rightarrow> LogAppender \<Rightarrow> LogAppender" where
  "appender_setFormatter val a = a\<lparr>ap_formatter := val, ap_hasFormatter := val \<noteq> None\<rparr>"

definition LogAppender_getFormatter :: "nat \<Rightarrow> log_state \<Rightarrow> LogFormatter option res" where
  "LogAppender_getFormatter p s = deref ''appender'' (appenders s p) (\<lambda>a. Inr (ap_formatter a))"

definition Logger_getFormatter :: "nat \<Rightarrow> log_state \<Rightarrow> LogFormatter option res" where
  "Logger_getFormatter l s = deref ''logger'' (loggers s l) (\<lambda>lg. Inr (lg_formatter lg))"

definition LogAppender_setFormatter :: "nat \<Rightarrow> LogFormatter option \<Rightarrow> log_state \<Rightarrow> log_state res" where
  "LogAppender_setFormatter p val s =
     deref ''appender'' (appenders s p) (\<lambda>a. Inr (put_appender p (appender_setFormatter val a) s))"

definition LogAppender_setLevel :: "nat \<Rightarrow> Level \<Rightarrow> log_state \<Rightarrow> log_state res" where
  "LogAppender_setLevel p level s =
     deref ''appender'' (appenders s p) (\<lambda>a. Inr (put_appender p (a\<lparr>ap_level := level\<rparr>) s))"

definition reopen :: "bool \<Rightarrow> file_part \<Rightarrow> files \<Rightarrow> bool \<times> file_part \<times> files" where
  "reopen ok f fl =
     (let fs = (if \<not> fs_fail (m_filestream f) then ofstream_close (m_filestream f) else m_filestream f);
          (fs', fl') = ofstream_open ok (m_filename f) fs fl
      in (\<not> fs_fail fs', f\<lparr>m_filestream := fs'\<rparr>, fl'))"

definition new_appender :: "sink \<Rightarrow> LogAppender" where
  "new_appender k = \<lparr>ap_sink = k, ap_level = DEBUG, ap_hasFormatter = False, ap_formatter = None\<rparr>"

definition alloc_appender :: "LogAppender \<Rightarrow> log_state \<Rightarrow> nat \<times> log_state" where
  "alloc_appender a s =
     (next_appender s, (put_appender (next_appender s) a s)\<lparr>next_appender := next_appender s + 1\<rparr>)"

definition StdoutLogAppender_new :: "log_state \<Rightarrow> nat \<times> log_state" where
  "StdoutLogAppender_new s = alloc_appender (new_appender StdoutLogAppender) s"

definition FileLogAppender_new :: "log_os \<Rightarrow> string \<Rightarrow> log_state \<Rightarrow> nat \<times> log_state" where
  "FileLogAppender_new os filename s =
     (let (ok, f, fl) = reopen (os_open os (next_appender s))
                          \<lparr>m_filename = filename, m_filestream = ofstream_new, m_lastTime = 0\<rparr> (files s)
      in alloc_appender (new_appender (FileLogAppender f)) (s\<lparr>files := fl\<rparr>))"

definition StdoutLogAppender_log ::
  "log_os \<Rightarrow> LogAppender \<Rightarrow> Level \<Rightarrow> LogEvent \<Rightarrow> log_state \<Rightarrow> log_state res" where
  "StdoutLogAppender_log os a level e s =
     (if level \<ge> ap_level a
      then deref ''m_formatter'' (ap_formatter a)
             (\<lambda>fm. Inr (print (LogFormatter_format (os_strftime os) fm level e) s))
      else Inr s)"

definition FileLogAppender_log ::
  "log_os \<Rightarrow> nat \<Rightarrow> LogAppender \<Rightarrow> file_part \<Rightarrow> Level \<Rightarrow> LogEvent \<Rightarrow> log_state \<Rightarrow> log_state res" where
  "FileLogAppender_log os p a f level e s =
     (if level \<ge> ap_level a then
        let now = os_time os p;
            (f1, fl1) = (if now \<noteq> m_lastTime f
                         then let (ok, f', fl') = reopen (os_open os p) f (files s) in (f'\<lparr>m_lastTime := now\<rparr>, fl')
                         else (f, files s))
        in deref ''m_formatter'' (ap_formatter a) (\<lambda>fm.
             let (fs2, fl2) = ofstream_write (os_write os p) (m_filename f1)
                                (LogFormatter_format (os_strftime os) fm level e) (m_filestream f1) fl1;
                 s' = put_appender p (a\<lparr>ap_sink := FileLogAppender (f1\<lparr>m_filestream := fs2\<rparr>)\<rparr>) (s\<lparr>files := fl2\<rparr>)
             in Inr (if fs_fail fs2 then print (''error'' @ [NL]) s' else s'))
      else Inr s)"

definition LogAppender_log :: "log_os \<Rightarrow> nat \<Rightarrow> Level \<Rightarrow> LogEvent \<Rightarrow> log_state \<Rightarrow> log_state res" where
  "LogAppender_log os p level e s =
     deref ''appender'' (appenders s p) (\<lambda>a.
       case ap_sink a of
         StdoutLogAppender \<Rightarrow> StdoutLogAppender_log os a level e s
       | FileLogAppender f \<Rightarrow> FileLogAppender_log os p a f level e s)"

section \<open>Loggers\<close>

definition default_pattern :: string where
  "default_pattern = ''%d{%Y-%m-%d %H:%M:%S}%T%t%T%N%T%F%T[%p]%T[%c]%T%f:%l%T%m%n''"

definition Logger_new :: "string \<Rightarrow> log_state \<Rightarrow> nat \<times> log_state" where
  "Logger_new name s =
     (next_logger s,
      (put_logger (next_logger s)
         \<lparr>lg_name = name, lg_level = DEBUG, lg_appenders = [],
          lg_formatter = Some (LogFormatter_new default_pattern), lg_root = None\<rparr> s)
      \<lparr>next_logger := next_logger s + 1\<rparr>)"

definition SetLevel :: "nat \<Rightarrow> Level \<Rightarrow> log_state \<Rightarrow> log_state res" where
  "SetLevel l level s = deref ''logger'' (loggers s l) (\<lambda>lg. Inr (put_logger l (lg\<lparr>lg_level := level\<rparr>) s))"

text \<open>\<^verbatim>\<open>Logger::setFormatter\<close>: the appenders without a formatter of their own follow.\<close>

definition follow_formatter :: "LogFormatter option \<Rightarrow> LogAppender \<Rightarrow> LogAppender" where
  "follow_formatter val a = (if \<not> ap_hasFormatter a then a\<lparr>ap_formatter := val\<rparr> else a)"

fun follow_all :: "LogFormatter option \<Rightarrow> nat list \<Rightarrow> log_state \<Rightarrow> log_state res" where
  "follow_all val [] s = Inr s"
| "follow_all val (p # ps) s =
     deref ''appender'' (appenders s p) (\<lambda>a. follow_all val ps (put_appender p (follow_formatter val a) s))"

definition Logger_setFormatter :: "nat \<Rightarrow> LogFormatter option \<Rightarrow> log_state \<Rightarrow> log_state res" where
  "Logger_setFormatter l val s =
     deref ''logger'' (loggers s l)
       (\<lambda>lg. follow_all val (lg_appenders lg) (put_logger l (lg\<lparr>lg_formatter := val\<rparr>) s))"

definition print_parse_errors :: "string \<Rightarrow> log_state \<Rightarrow> log_state" where
  "print_parse_errors pat s = print (snd (LogFormatter_init pat)) s"

definition Logger_setFormatter_string :: "nat \<Rightarrow> string \<Rightarrow> log_state \<Rightarrow> log_state res" where
  "Logger_setFormatter_string l val s =
     deref ''logger'' (loggers s l) (\<lambda>lg.
       let new_val = LogFormatter_new val; s1 = print_parse_errors val s
       in if m_error new_val
          then Inr (print (''Logger setFormatter name='' @ lg_name lg @ '' value='' @ val @ '' invalid formatter'' @ [NL]) s1)
          else Logger_setFormatter l (Some new_val) s1)"

definition addAppender :: "nat \<Rightarrow> nat \<Rightarrow> log_state \<Rightarrow> log_state res" where
  "addAppender l p s =
     deref ''logger'' (loggers s l) (\<lambda>lg.
       deref ''appender'' (appenders s p) (\<lambda>a.
         Inr (put_logger l (lg\<lparr>lg_appenders := lg_appenders lg @ [p]\<rparr>)
           (if ap_formatter a = None then put_appender p (a\<lparr>ap_formatter := lg_formatter lg\<rparr>) s else s))))"

fun erase_first :: "nat \<Rightarrow> nat list \<Rightarrow> nat list" where
  "erase_first p [] = []"
| "erase_first p (q # qs) = (if q = p then qs else q # erase_first p qs)"

definition delAppender :: "nat \<Rightarrow> nat \<Rightarrow> log_state \<Rightarrow> log_state res" where
  "delAppender l p s =
     deref ''logger'' (loggers s l) (\<lambda>lg. Inr (put_logger l (lg\<lparr>lg_appenders := erase_first p (lg_appenders lg)\<rparr>) s))"

definition clearAppenders :: "nat \<Rightarrow> log_state \<Rightarrow> log_state res" where
  "clearAppenders l s = deref ''logger'' (loggers s l) (\<lambda>lg. Inr (put_logger l (lg\<lparr>lg_appenders := []\<rparr>) s))"

fun log_all :: "log_os \<Rightarrow> nat list \<Rightarrow> Level \<Rightarrow> LogEvent \<Rightarrow> log_state \<Rightarrow> log_state res" where
  "log_all os [] level e s = Inr s"
| "log_all os (p # ps) level e s = bind_res (LogAppender_log os p level e s) (log_all os ps level e)"

text \<open>
  \<^verbatim>\<open>Logger::log\<close> calls itself on the root logger when there is no appender; the first argument bounds
  the length of that chain of calls.
\<close>

primrec Logger_log :: "nat \<Rightarrow> log_os \<Rightarrow> nat \<Rightarrow> Level \<Rightarrow> LogEvent \<Rightarrow> log_state \<Rightarrow> log_state res" where
  "Logger_log 0 os l level e s = Inl (UB ''chain of m_root too long'')"
| "Logger_log (Suc n) os l level e s =
     deref ''logger'' (loggers s l) (\<lambda>lg.
       if level \<ge> lg_level lg then
         if lg_appenders lg \<noteq> [] then log_all os (lg_appenders lg) level e s
         else (case lg_root lg of None \<Rightarrow> Inr s | Some r \<Rightarrow> Logger_log n os r level e s)
       else Inr s)"

text \<open>The five methods for a fixed level.\<close>

definition debug :: "nat \<Rightarrow> log_os \<Rightarrow> nat \<Rightarrow> LogEvent \<Rightarrow> log_state \<Rightarrow> log_state res" where
  "debug n os l e s = Logger_log n os l DEBUG e s"
definition info :: "nat \<Rightarrow> log_os \<Rightarrow> nat \<Rightarrow> LogEvent \<Rightarrow> log_state \<Rightarrow> log_state res" where
  "info n os l e s = Logger_log n os l INFO e s"
definition warn :: "nat \<Rightarrow> log_os \<Rightarrow> nat \<Rightarrow> LogEvent \<Rightarrow> log_state \<Rightarrow> log_state res" where
  "warn n os l e s = Logger_log n os l WARN e s"
definition log_error :: "nat \<Rightarrow> log_os \<Rightarrow> nat \<Rightarrow> LogEvent \<Rightarrow> log_state \<Rightarrow> log_state res" where
  "log_error n os l e s = Logger_log n os l ERROR e s"
definition fatal :: "nat \<Rightarrow> log_os \<Rightarrow> nat \<Rightarrow> LogEvent \<Rightarrow> log_state \<Rightarrow> log_state res" where
  "fatal n os l e s = Logger_log n os l FATAL e s"

text \<open>\<^verbatim>\<open>~LogEventWrap\<close>, and the macro \<^verbatim>\<open>DUAN_LOG_LEVEL\<close> with its event.\<close>

definition LogEventWrap_delete :: "nat \<Rightarrow> log_os \<Rightarrow> LogEvent \<Rightarrow> log_state \<Rightarrow> log_state res" where
  "LogEventWrap_delete n os e s = Logger_log n os (ev_logger e) (ev_level e) e s"

definition DUAN_LOG_LEVEL :: "nat \<Rightarrow> log_os \<Rightarrow> nat \<Rightarrow> Level \<Rightarrow> LogEvent \<Rightarrow> log_state \<Rightarrow> log_state res" where
  "DUAN_LOG_LEVEL n os l level e s =
     deref ''logger'' (loggers s l) (\<lambda>lg.
       if lg_level lg \<le> level
       then LogEventWrap_delete n os (e\<lparr>ev_logger := l, ev_logger_name := lg_name lg, ev_level := level, ev_elapse := 0\<rparr>) s
       else Inr s)"

text \<open>
  The macro \<^verbatim>\<open>DUAN_LOG_FMT_LEVEL\<close>: \<open>out\<close> is what \<^verbatim>\<open>vasprintf\<close> makes of its arguments, which is asked only when the level
  of the logger lets the message pass. \<open>src\<close> has the file and line, the thread, fiber and time, and the thread's name.
\<close>

definition DUAN_LOG_FMT_LEVEL ::
  "nat \<Rightarrow> log_os \<Rightarrow> nat \<Rightarrow> Level \<Rightarrow> (string \<times> int) \<times> (u32 \<times> u32 \<times> u64) \<times> string \<Rightarrow> string option \<Rightarrow> log_state \<Rightarrow>
     log_state res" where
  "DUAN_LOG_FMT_LEVEL n os l level src out s =
     deref ''logger'' (loggers s l) (\<lambda>lg.
       if lg_level lg \<le> level
       then let ((file, line), (thread_id, fiber_id, time), thread_name) = src;
                e = LogEvent_new (l, lg_name lg) level file line 0 thread_id fiber_id time thread_name
            in LogEventWrap_delete n os (LogEvent_format out e) s
       else Inr s)"

text \<open>It logs like \<^verbatim>\<open>DUAN_LOG_LEVEL\<close> with the formatted message, and an empty message when the formatting fails.\<close>

lemma DUAN_LOG_FMT_LEVEL_eq:
  "DUAN_LOG_FMT_LEVEL n os l level ((file, line), (tid, fid, time), tname) out s =
     DUAN_LOG_LEVEL n os l level
       \<lparr>ev_file = file, ev_line = line, ev_elapse = 0, ev_threadId = tid, ev_fiberId = fid, ev_time = time,
        ev_threadName = tname, ev_ss = (case out of None \<Rightarrow> [] | Some buf \<Rightarrow> buf), ev_logger = l, ev_logger_name = [],
        ev_level = level\<rparr> s"
  by (cases "loggers s l"; cases out)
    (simp_all add: DUAN_LOG_FMT_LEVEL_def DUAN_LOG_LEVEL_def LogEvent_new_def LogEvent_format_def)

section \<open>The manager\<close>

definition log_empty :: log_state where
  "log_empty = \<lparr>loggers = Map.empty, appenders = Map.empty, next_logger = 0, next_appender = 0,
     m_loggers = Map.empty, m_root = 0, cout = [], files = Map.empty\<rparr>"

definition LoggerManager_new :: "log_state \<Rightarrow> log_state res" where
  "LoggerManager_new s =
     (let (l, s1) = Logger_new ''root'' s; (p, s2) = StdoutLogAppender_new s1
      in bind_res (addAppender l p s2)
           (\<lambda>s3. Inr (s3\<lparr>m_root := l, m_loggers := [''root'' \<mapsto> l]\<rparr>)))"

definition getLogger :: "string \<Rightarrow> log_state \<Rightarrow> nat \<times> log_state" where
  "getLogger name s =
     (case m_loggers s name of
        Some l \<Rightarrow> (l, s)
      | None \<Rightarrow>
          let (l, s1) = Logger_new name s;
              s2 = s1\<lparr>loggers := (loggers s1)(l := map_option (\<lambda>lg. lg\<lparr>lg_root := Some (m_root s)\<rparr>) (loggers s1 l))\<rparr>
          in (l, s2\<lparr>m_loggers := (m_loggers s2)(name \<mapsto> l)\<rparr>))"

section \<open>The listener of the log configuration\<close>

record LogAppenderDfine =
  lad_type :: int
  lad_level :: Level
  lad_formatter :: string
  lad_file :: string

record LogDefine =
  ld_name :: string
  ld_level :: Level
  ld_formatter :: string
  ld_appenders :: "LogAppenderDfine list"

text \<open>
  A \<^verbatim>\<open>std::set<LogDefine>\<close> is given as the list of its elements in iteration order; \<^verbatim>\<open>find\<close> compares
  names only.
\<close>

definition define_find :: "LogDefine list \<Rightarrow> LogDefine \<Rightarrow> LogDefine option" where
  "define_find ds i = List.find (\<lambda>d. ld_name d = ld_name i) ds"

definition new_defined_appender :: "log_os \<Rightarrow> LogAppenderDfine \<Rightarrow> log_state \<Rightarrow> nat option \<times> log_state" where
  "new_defined_appender os a s =
     (if lad_type a = 1 then let (p, s') = FileLogAppender_new os (lad_file a) s in (Some p, s')
      else if lad_type a = 2 then let (p, s') = StdoutLogAppender_new s in (Some p, s')
      else (None, s))"

definition set_defined_formatter :: "LogDefine \<Rightarrow> LogAppenderDfine \<Rightarrow> nat \<Rightarrow> log_state \<Rightarrow> log_state res" where
  "set_defined_formatter i a p s =
     (if lad_formatter a \<noteq> [] then
        let fmt = LogFormatter_new (lad_formatter a); s1 = print_parse_errors (lad_formatter a) s
        in if \<not> m_error fmt then LogAppender_setFormatter p (Some fmt) s1
           else Inr (print (''log.name='' @ ld_name i @ ''appender type = '' @ show_int (lad_type a) @
                  ''formatter = '' @ lad_formatter a @ '' is invalid'' @ [NL]) s1)
      else Inr s)"

definition add_defined_appender ::
  "log_os \<Rightarrow> LogDefine \<Rightarrow> nat \<Rightarrow> LogAppenderDfine \<Rightarrow> log_state \<Rightarrow> log_state res" where
  "add_defined_appender os i l a s =
     (let (ap, s1) = new_defined_appender os a s
      in deref ''ap'' ap (\<lambda>p.
           bind_res (LogAppender_setLevel p (lad_level a) s1) (\<lambda>s2.
           bind_res (set_defined_formatter i a p s2) (addAppender l p))))"

fun add_defined_appenders ::
  "log_os \<Rightarrow> LogDefine \<Rightarrow> nat \<Rightarrow> LogAppenderDfine list \<Rightarrow> log_state \<Rightarrow> log_state res" where
  "add_defined_appenders os i l [] s = Inr s"
| "add_defined_appenders os i l (a # as) s =
     bind_res (add_defined_appender os i l a s) (add_defined_appenders os i l as)"

definition defined_logger :: "LogDefine list \<Rightarrow> LogDefine \<Rightarrow> log_state \<Rightarrow> nat option \<times> log_state" where
  "defined_logger old i s =
     (case define_find old i of
        None \<Rightarrow> let (l, s') = Logger_new (ld_name i) s in (Some l, s')
      | Some d \<Rightarrow> if i \<noteq> d then let (l, s') = getLogger (ld_name i) s in (Some l, s') else (None, s))"

definition apply_define :: "log_os \<Rightarrow> LogDefine list \<Rightarrow> LogDefine \<Rightarrow> log_state \<Rightarrow> log_state res" where
  "apply_define os old i s =
     (let (logger, s1) = defined_logger old i s
      in deref ''logger'' logger (\<lambda>l.
           bind_res (SetLevel l (ld_level i) s1) (\<lambda>s2.
           bind_res (if ld_formatter i \<noteq> [] then Logger_setFormatter_string l (ld_formatter i) s2 else Inr s2) (\<lambda>s3.
           bind_res (clearAppenders l s3)
             (add_defined_appenders os i l (ld_appenders i))))))"

fun apply_defines :: "log_os \<Rightarrow> LogDefine list \<Rightarrow> LogDefine list \<Rightarrow> log_state \<Rightarrow> log_state res" where
  "apply_defines os old [] s = Inr s"
| "apply_defines os old (i # is) s = bind_res (apply_define os old i s) (apply_defines os old is)"

definition delete_define :: "LogDefine list \<Rightarrow> LogDefine \<Rightarrow> log_state \<Rightarrow> log_state res" where
  "delete_define new i s =
     (if define_find new i = None then
        let (l, s1) = getLogger (ld_name i) s
        in bind_res (SetLevel l 100 s1) (clearAppenders l)
      else Inr s)"

fun delete_defines :: "LogDefine list \<Rightarrow> LogDefine list \<Rightarrow> log_state \<Rightarrow> log_state res" where
  "delete_defines new [] s = Inr s"
| "delete_defines new (i # is) s = bind_res (delete_define new i s) (delete_defines new is)"

definition on_logger_conf_changed ::
  "nat \<Rightarrow> log_os \<Rightarrow> LogEvent \<Rightarrow> LogDefine list \<Rightarrow> LogDefine list \<Rightarrow> log_state \<Rightarrow> log_state res" where
  "on_logger_conf_changed n os e old new s =
     bind_res (DUAN_LOG_LEVEL n os (m_root s) INFO (e\<lparr>ev_ss := ''on_logger_conf_changed''\<rparr>) s) (\<lambda>s1.
     bind_res (apply_defines os old new s1) (delete_defines new old))"

section \<open>The invariant\<close>

text \<open>
  Every logger has a formatter; its appenders exist and have one; a root logger exists and has itself
  no root; the manager's table names existing loggers, its root among them; and no object lives at an
  address that is still free.
\<close>

definition appender_ok :: "log_state \<Rightarrow> nat \<Rightarrow> bool" where
  "appender_ok s p \<longleftrightarrow> (\<exists>a. appenders s p = Some a \<and> ap_formatter a \<noteq> None)"

definition root_ok :: "log_state \<Rightarrow> nat option \<Rightarrow> bool" where
  "root_ok s ro \<longleftrightarrow> (\<forall>r. ro = Some r \<longrightarrow> (\<exists>lr. loggers s r = Some lr \<and> lg_root lr = None))"

definition logger_ok :: "log_state \<Rightarrow> Logger \<Rightarrow> bool" where
  "logger_ok s lg \<longleftrightarrow> lg_formatter lg \<noteq> None \<and> (\<forall>p\<in>set (lg_appenders lg). appender_ok s p) \<and> root_ok s (lg_root lg)"

definition heaps_wf :: "log_state \<Rightarrow> bool" where
  "heaps_wf s \<longleftrightarrow>
     (\<forall>l lg. loggers s l = Some lg \<longrightarrow> l < next_logger s \<and> logger_ok s lg) \<and>
     (\<forall>p a. appenders s p = Some a \<longrightarrow> p < next_appender s)"

definition named_ok :: "log_state \<Rightarrow> string \<Rightarrow> nat \<Rightarrow> bool" where
  "named_ok s name l \<longleftrightarrow>
     (\<exists>lg. loggers s l = Some lg \<and> lg_name lg = name \<and> lg_root lg = (if l = m_root s then None else Some (m_root s)))"

definition manager_wf :: "log_state \<Rightarrow> bool" where
  "manager_wf s \<longleftrightarrow>
     m_loggers s ''root'' = Some (m_root s) \<and> (\<forall>name l. m_loggers s name = Some l \<longrightarrow> named_ok s name l)"

definition log_wf :: "log_state \<Rightarrow> bool" where
  "log_wf s \<longleftrightarrow> heaps_wf s \<and> manager_wf s"

lemmas put_defs = put_logger_def put_appender_def print_def alloc_appender_def new_appender_def

lemma put_logger_sel [simp]:
  "loggers (put_logger l lg s) = (loggers s)(l \<mapsto> lg)"
  "appenders (put_logger l lg s) = appenders s"
  "next_logger (put_logger l lg s) = next_logger s"
  "next_appender (put_logger l lg s) = next_appender s"
  "m_loggers (put_logger l lg s) = m_loggers s"
  "m_root (put_logger l lg s) = m_root s"
  "cout (put_logger l lg s) = cout s"
  "files (put_logger l lg s) = files s"
  by (simp_all add: put_logger_def)

lemma put_appender_sel [simp]:
  "loggers (put_appender p a s) = loggers s"
  "appenders (put_appender p a s) = (appenders s)(p \<mapsto> a)"
  "next_logger (put_appender p a s) = next_logger s"
  "next_appender (put_appender p a s) = next_appender s"
  "m_loggers (put_appender p a s) = m_loggers s"
  "m_root (put_appender p a s) = m_root s"
  "cout (put_appender p a s) = cout s"
  "files (put_appender p a s) = files s"
  by (simp_all add: put_appender_def)

lemma print_sel [simp]:
  "loggers (print str s) = loggers s"
  "appenders (print str s) = appenders s"
  "next_logger (print str s) = next_logger s"
  "next_appender (print str s) = next_appender s"
  "m_loggers (print str s) = m_loggers s"
  "m_root (print str s) = m_root s"
  "cout (print str s) = cout s @ str"
  "files (print str s) = files s"
  by (simp_all add: print_def)

lemma log_wfD:
  assumes "log_wf s"
  shows "loggers s l = Some lg \<Longrightarrow> l < next_logger s"
    and "loggers s l = Some lg \<Longrightarrow> logger_ok s lg"
    and "appenders s p = Some a \<Longrightarrow> p < next_appender s"
    and "m_loggers s ''root'' = Some (m_root s)"
    and "m_loggers s name = Some l \<Longrightarrow> named_ok s name l"
  using assms by (auto simp: log_wf_def heaps_wf_def manager_wf_def)

text \<open>
  The invariant passes to a state that has at least the old objects: appenders do not lose their
  formatter, loggers keep name and root, new ones are well-formed.
\<close>

lemma log_wf_extend:
  assumes wf: "log_wf s"
    and app: "\<And>p. appender_ok s p \<Longrightarrow> appender_ok t p"
    and keep: "\<And>l lg. loggers s l = Some lg \<Longrightarrow>
      \<exists>lg'. loggers t l = Some lg' \<and> lg_name lg' = lg_name lg \<and> lg_root lg' = lg_root lg"
    and new: "\<And>l lg. loggers t l = Some lg \<Longrightarrow> l < next_logger t \<and> lg_formatter lg \<noteq> None \<and>
      (\<forall>p\<in>set (lg_appenders lg). appender_ok t p) \<and> root_ok s (lg_root lg)"
    and free: "\<And>p a. appenders t p = Some a \<Longrightarrow> p < next_appender t"
    and mgr: "m_root t = m_root s" "m_loggers s ''root'' = m_loggers t ''root''"
      "\<And>name l. m_loggers t name = Some l \<Longrightarrow> m_loggers s name = Some l \<or> named_ok t name l"
  shows "log_wf t"
proof -
  have "root_ok s ro \<Longrightarrow> root_ok t ro" for ro
    unfolding root_ok_def using keep by (metis (no_types, lifting))
  then have "heaps_wf t" using new free by (auto simp: heaps_wf_def logger_ok_def)
  moreover have "named_ok s name l \<Longrightarrow> named_ok t name l" for name l
    unfolding named_ok_def mgr(1) using keep by (metis (no_types, lifting))
  then have "manager_wf t" using mgr log_wfD(4,5) [OF wf] unfolding manager_wf_def by metis
  ultimately show ?thesis by (simp add: log_wf_def)
qed

lemma fresh_logger: "log_wf s \<Longrightarrow> loggers s (next_logger s) = None"
  using log_wfD(1) [of s "next_logger s"] by (cases "loggers s (next_logger s)") auto

lemma fresh_appender: "log_wf s \<Longrightarrow> appenders s (next_appender s) = None"
  using log_wfD(3) [of s "next_appender s"] by (cases "appenders s (next_appender s)") auto

lemma root_logger:
  assumes "log_wf s"
  shows "\<exists>lr. loggers s (m_root s) = Some lr \<and> lg_root lr = None \<and> lg_name lr = ''root''"
  using log_wfD(5) [OF assms log_wfD(4) [OF assms]] by (auto simp: named_ok_def)

lemma wf_loggers:
  assumes "log_wf s" and "loggers s l = Some lg"
  shows "l < next_logger s \<and> lg_formatter lg \<noteq> None \<and> (\<forall>p\<in>set (lg_appenders lg). appender_ok s p) \<and> root_ok s (lg_root lg)"
  using log_wfD(1,2) [OF assms] by (simp add: logger_ok_def)

lemma wf_put_appender:
  assumes "log_wf s" and "appenders s p = Some a" and "ap_formatter a \<noteq> None \<Longrightarrow> ap_formatter b \<noteq> None"
  shows "log_wf (put_appender p b s)"
proof (rule log_wf_extend [OF assms(1)])
  show app: "appender_ok (put_appender p b s) q" if "appender_ok s q" for q
    using that assms(2,3) by (auto simp: appender_ok_def)
  show "l < next_logger (put_appender p b s) \<and> lg_formatter lg \<noteq> None \<and>
      (\<forall>p'\<in>set (lg_appenders lg). appender_ok (put_appender p b s) p') \<and> root_ok s (lg_root lg)"
    if "loggers (put_appender p b s) l = Some lg" for l lg
    using wf_loggers [OF assms(1), of l lg] that app by auto
  show "q < next_appender (put_appender p b s)" if "appenders (put_appender p b s) q = Some c" for q c
    using that log_wfD(3) [OF assms(1)] assms(2) by (auto split: if_splits)
qed auto

lemma wf_put_logger:
  assumes "log_wf s" and "loggers s l = Some lg" and "lg_name lg' = lg_name lg" and "lg_root lg' = lg_root lg"
    and "lg_formatter lg' \<noteq> None" and "\<forall>p\<in>set (lg_appenders lg'). appender_ok s p"
  shows "log_wf (put_logger l lg' s)"
proof (rule log_wf_extend [OF assms(1)])
  have app: "appender_ok (put_logger l lg' s) q = appender_ok s q" for q by (simp add: appender_ok_def)
  show "k < next_logger (put_logger l lg' s) \<and> lg_formatter lg'' \<noteq> None \<and>
      (\<forall>p\<in>set (lg_appenders lg''). appender_ok (put_logger l lg' s) p) \<and> root_ok s (lg_root lg'')"
    if "loggers (put_logger l lg' s) k = Some lg''" for k lg''
    using that wf_loggers [OF assms(1), of k lg''] wf_loggers [OF assms(1,2)] assms(4-6)
    by (auto simp: app split: if_splits)
qed (use assms(1-4) log_wfD(3) [OF assms(1)] in \<open>auto simp: appender_ok_def\<close>)

lemma wf_same:
  assumes "log_wf s" and "loggers t = loggers s" "appenders t = appenders s" "next_logger t = next_logger s"
    "next_appender t = next_appender s" "m_loggers t = m_loggers s" "m_root t = m_root s"
  shows "log_wf t"
  by (rule log_wf_extend [OF assms(1)])
    (use assms(2-) wf_loggers [OF assms(1)] log_wfD(3) [OF assms(1)] in \<open>auto simp: appender_ok_def\<close>)

lemma wf_print [simp]: "log_wf s \<Longrightarrow> log_wf (print str s)"
  by (rule wf_same) simp_all

lemma wf_files [simp]: "log_wf s \<Longrightarrow> log_wf (s\<lparr>files := fl\<rparr>)"
  by (rule wf_same) simp_all

lemma wf_alloc_appender:
  assumes "log_wf s"
  shows "log_wf (snd (alloc_appender a s))"
proof (rule log_wf_extend [OF assms])
  show app: "appender_ok (snd (alloc_appender a s)) q" if "appender_ok s q" for q
    using that log_wfD(3) [OF assms, of q] by (auto simp: appender_ok_def alloc_appender_def)
  show "l < next_logger (snd (alloc_appender a s)) \<and> lg_formatter lg \<noteq> None \<and>
      (\<forall>p\<in>set (lg_appenders lg). appender_ok (snd (alloc_appender a s)) p) \<and> root_ok s (lg_root lg)"
    if "loggers (snd (alloc_appender a s)) l = Some lg" for l lg
    using that wf_loggers [OF assms, of l lg] app by (auto simp: alloc_appender_def)
  show "q < next_appender (snd (alloc_appender a s))" if "appenders (snd (alloc_appender a s)) q = Some c" for q c
    using that log_wfD(3) [OF assms] by (auto simp: alloc_appender_def less_Suc_eq split: if_splits)
qed (auto simp: alloc_appender_def)

text \<open>A new logger without appenders, left alone or entered into the manager's table.\<close>

lemma wf_alloc_logger:
  assumes "log_wf s" and "lg_formatter lg \<noteq> None" and "lg_appenders lg = []" and "root_ok s (lg_root lg)"
    and t: "loggers t = (loggers s)(next_logger s \<mapsto> lg)" "next_logger t = next_logger s + 1"
      "appenders t = appenders s" "next_appender t = next_appender s" "m_root t = m_root s"
    and m: "m_loggers t = m_loggers s \<or> m_loggers s (lg_name lg) = None \<and>
      m_loggers t = (m_loggers s)(lg_name lg \<mapsto> next_logger s) \<and> lg_root lg = Some (m_root s)"
  shows "log_wf t"
proof (rule log_wf_extend [OF assms(1)])
  have free: "loggers s (next_logger s) = None" by (rule fresh_logger [OF assms(1)])
  then show "\<exists>lg''. loggers t l = Some lg'' \<and> lg_name lg'' = lg_name lg' \<and> lg_root lg'' = lg_root lg'"
    if "loggers s l = Some lg'" for l lg'
    using that by (auto simp: t)
  show "l < next_logger t \<and> lg_formatter lg' \<noteq> None \<and> (\<forall>p\<in>set (lg_appenders lg'). appender_ok t p) \<and>
      root_ok s (lg_root lg')" if "loggers t l = Some lg'" for l lg'
    using that wf_loggers [OF assms(1), of l lg'] assms(2-4)
    by (auto simp: t appender_ok_def less_Suc_eq split: if_splits)
  have "m_root s \<noteq> next_logger s" using root_logger [OF assms(1)] free by auto
  then show "m_loggers s name = Some l \<or> named_ok t name l" if "m_loggers t name = Some l" for name l
    using that m by (auto simp: named_ok_def t split: if_splits)
  show "m_loggers s ''root'' = m_loggers t ''root''" using m log_wfD(4) [OF assms(1)] by auto
qed (use log_wfD(3) [OF assms(1)] in \<open>auto simp: t appender_ok_def\<close>)

section \<open>Logging returns\<close>

text \<open>What logging leaves alone: everything but the output, the files and the state of file streams.\<close>

definition shape :: "LogAppender \<Rightarrow> Level \<times> bool \<times> LogFormatter option" where
  "shape a = (ap_level a, ap_hasFormatter a, ap_formatter a)"

definition log_frame :: "log_state \<Rightarrow> log_state \<Rightarrow> bool" where
  "log_frame s t \<longleftrightarrow> loggers t = loggers s \<and> next_logger t = next_logger s \<and> next_appender t = next_appender s \<and>
     m_loggers t = m_loggers s \<and> m_root t = m_root s \<and>
     (\<forall>p. map_option shape (appenders t p) = map_option shape (appenders s p))"

lemma log_frame_refl [simp]: "log_frame s s"
  by (simp add: log_frame_def)

lemma log_frame_trans: "log_frame s t \<Longrightarrow> log_frame t u \<Longrightarrow> log_frame s u"
  by (simp add: log_frame_def)

lemma log_frame_appender_ok:
  assumes "log_frame s t"
  shows "appender_ok t p = appender_ok s p"
proof -
  have "map_option shape (appenders t p) = map_option shape (appenders s p)"
    using assms by (simp add: log_frame_def)
  then show ?thesis
    by (cases "appenders t p"; cases "appenders s p") (auto simp: appender_ok_def shape_def)
qed

lemma log_frame_wf:
  assumes "log_frame s t" and "log_wf s"
  shows "log_wf t"
proof (rule log_wf_extend [OF assms(2)])
  show "appender_ok t p" if "appender_ok s p" for p using that log_frame_appender_ok [OF assms(1)] by simp
  show "l < next_logger t \<and> lg_formatter lg \<noteq> None \<and> (\<forall>p\<in>set (lg_appenders lg). appender_ok t p) \<and>
      root_ok s (lg_root lg)" if "loggers t l = Some lg" for l lg
    using that assms(1) wf_loggers [OF assms(2), of l lg] log_frame_appender_ok [OF assms(1)]
    by (simp add: log_frame_def)
  show "p < next_appender t" if "appenders t p = Some a" for p a
  proof -
    have "map_option shape (appenders s p) = map_option shape (appenders t p)" using assms(1) by (simp add: log_frame_def)
    with that obtain b where "appenders s p = Some b" by auto
    then show ?thesis using log_wfD(3) [OF assms(2)] assms(1) by (auto simp: log_frame_def)
  qed
qed (use assms(1) in \<open>auto simp: log_frame_def\<close>)

lemma log_frame_print [simp]: "log_frame s (print str s)"
  by (simp add: log_frame_def)

lemma log_frame_put_appender:
  "appenders s p = Some a \<Longrightarrow> shape b = shape a \<Longrightarrow> log_frame s (put_appender p b (s\<lparr>files := fl\<rparr>))"
  by (simp add: log_frame_def)

lemma LogAppender_log_returns:
  assumes "appender_ok s p"
  shows "\<exists>t. LogAppender_log os p level e s = Inr t \<and> log_frame s t"
proof -
  obtain a fm where a: "appenders s p = Some a" "ap_formatter a = Some fm"
    using assms by (auto simp: appender_ok_def)
  show ?thesis
  proof (cases "ap_sink a")
    case StdoutLogAppender
    with a show ?thesis by (simp add: LogAppender_log_def StdoutLogAppender_log_def)
  next
    case (FileLogAppender f)
    have *: "log_frame s (put_appender p (a\<lparr>ap_sink := k\<rparr>) (s\<lparr>files := fl\<rparr>))" for k fl
      by (rule log_frame_put_appender [OF a(1)]) (simp add: shape_def)
    with FileLogAppender a show ?thesis
      by (auto simp: LogAppender_log_def FileLogAppender_log_def case_prod_beta Let_def
        intro: log_frame_trans [OF * log_frame_print])
  qed
qed

lemma log_all_returns:
  assumes "\<forall>p\<in>set ps. appender_ok s p"
  shows "\<exists>t. log_all os ps level e s = Inr t \<and> log_frame s t"
  using assms
proof (induction ps arbitrary: s)
  case (Cons p ps)
  obtain t where t: "LogAppender_log os p level e s = Inr t" "log_frame s t"
    using LogAppender_log_returns [of s p os level e] Cons.prems by auto
  then have "\<forall>q\<in>set ps. appender_ok t q" using Cons.prems log_frame_appender_ok [of s t] by simp
  with Cons.IH obtain u where "log_all os ps level e t = Inr u" "log_frame t u" by blast
  with t show ?case using log_frame_trans [of s t u] by simp
qed simp

text \<open>A chain of two calls is enough: the root logger has no root of its own.\<close>

lemma Logger_log_returns:
  assumes wf: "log_wf s" and l: "loggers s l = Some lg"
  shows "\<exists>t. Logger_log (Suc (Suc n)) os l level e s = Inr t \<and> log_frame s t"
proof -
  have one: "\<exists>t. Logger_log (Suc k) os r level e s = Inr t \<and> log_frame s t"
    if "loggers s r = Some lr" "lg_appenders lr = [] \<Longrightarrow> lg_root lr = None" for r lr k
    using that log_all_returns [of "lg_appenders lr" s] wf_loggers [OF wf that(1)] by auto
  show ?thesis
  proof (cases "lg_appenders lg = [] \<and> lg_root lg \<noteq> None \<and> level \<ge> lg_level lg")
    case True
    then obtain r where r: "lg_root lg = Some r" by auto
    then obtain lr where "loggers s r = Some lr" "lg_root lr = None"
      using wf_loggers [OF wf l] by (auto simp: root_ok_def)
    then show ?thesis using one [of r lr n] True r l by simp
  next
    case False
    then show ?thesis using l log_all_returns [of "lg_appenders lg" s] wf_loggers [OF wf l] by auto
  qed
qed

section \<open>The operations keep the invariant\<close>

lemma SetLevel_wf:
  assumes "log_wf s" and "loggers s l = Some lg"
  shows "SetLevel l level s = Inr (put_logger l (lg\<lparr>lg_level := level\<rparr>) s)"
    and "log_wf (put_logger l (lg\<lparr>lg_level := level\<rparr>) s)"
  using assms wf_loggers [OF assms] by (simp_all add: SetLevel_def wf_put_logger)

lemma clearAppenders_wf:
  assumes "log_wf s" and "loggers s l = Some lg"
  shows "clearAppenders l s = Inr (put_logger l (lg\<lparr>lg_appenders := []\<rparr>) s)"
    and "log_wf (put_logger l (lg\<lparr>lg_appenders := []\<rparr>) s)"
  using assms wf_loggers [OF assms] by (simp_all add: clearAppenders_def wf_put_logger)

lemma erase_first_remove1: "erase_first p qs = remove1 p qs"
  by (induction qs) auto

lemma delAppender_wf:
  assumes "log_wf s" and "loggers s l = Some lg"
  shows "delAppender l p s = Inr (put_logger l (lg\<lparr>lg_appenders := remove1 p (lg_appenders lg)\<rparr>) s)"
    and "log_wf (put_logger l (lg\<lparr>lg_appenders := remove1 p (lg_appenders lg)\<rparr>) s)"
proof -
  have "set (remove1 p (lg_appenders lg)) \<subseteq> set (lg_appenders lg)" by (rule set_remove1_subset)
  then show "log_wf (put_logger l (lg\<lparr>lg_appenders := remove1 p (lg_appenders lg)\<rparr>) s)"
    using wf_loggers [OF assms] by (intro wf_put_logger [OF assms]) auto
qed (simp add: assms(2) delAppender_def erase_first_remove1)

lemma LogAppender_setLevel_wf:
  assumes "log_wf s" and "appenders s p = Some a"
  shows "LogAppender_setLevel p level s = Inr (put_appender p (a\<lparr>ap_level := level\<rparr>) s)"
    and "log_wf (put_appender p (a\<lparr>ap_level := level\<rparr>) s)"
  using assms by (simp_all add: LogAppender_setLevel_def wf_put_appender)

lemma LogAppender_setFormatter_wf:
  assumes "log_wf s" and "appenders s p = Some a"
  shows "LogAppender_setFormatter p (Some fm) s = Inr (put_appender p (appender_setFormatter (Some fm) a) s)"
    and "log_wf (put_appender p (appender_setFormatter (Some fm) a) s)"
  using assms by (simp_all add: LogAppender_setFormatter_def wf_put_appender appender_setFormatter_def)

lemma addAppender_wf:
  assumes wf: "log_wf s" and l: "loggers s l = Some lg" and p: "appenders s p = Some a"
  shows "\<exists>t. addAppender l p s = Inr t \<and> log_wf t"
proof -
  let ?s = "if ap_formatter a = None then put_appender p (a\<lparr>ap_formatter := lg_formatter lg\<rparr>) s else s"
  have wf': "log_wf ?s" using wf by (auto intro: wf_put_appender [OF wf p])
  have l': "loggers ?s l = Some lg" using l by simp
  have "appender_ok ?s p" using wf_loggers [OF wf l] p by (simp add: appender_ok_def)
  then have "log_wf (put_logger l (lg\<lparr>lg_appenders := lg_appenders lg @ [p]\<rparr>) ?s)"
    using wf_loggers [OF wf' l'] by (intro wf_put_logger [OF wf' l']) simp_all
  with l p show ?thesis by (simp add: addAppender_def)
qed

text \<open>The effect of \<^verbatim>\<open>setFormatter\<close> on the appenders.\<close>

lemma follow_formatter_idem [simp]: "follow_formatter val (follow_formatter val a) = follow_formatter val a"
  by (simp add: follow_formatter_def)

lemma follow_formatter_ok: "ap_formatter a \<noteq> None \<Longrightarrow> ap_formatter (follow_formatter (Some fm) a) \<noteq> None"
  by (simp add: follow_formatter_def)

lemma follow_all_effect:
  assumes "\<forall>p\<in>set ps. appenders s p \<noteq> None"
  shows "follow_all val ps s =
    Inr (s\<lparr>appenders := \<lambda>p. if p \<in> set ps then map_option (follow_formatter val) (appenders s p) else appenders s p\<rparr>)"
  using assms
proof (induction ps arbitrary: s)
  case (Cons p ps)
  then obtain a where a: "appenders s p = Some a" by auto
  have "\<forall>q\<in>set ps. appenders (put_appender p (follow_formatter val a) s) q \<noteq> None" using Cons.prems by auto
  with Cons.IH a show ?case by (auto simp: put_appender_def fun_eq_iff)
qed simp

definition set_formatter_effect :: "nat \<Rightarrow> LogFormatter option \<Rightarrow> Logger \<Rightarrow> log_state \<Rightarrow> log_state" where
  "set_formatter_effect l val lg s =
     (put_logger l (lg\<lparr>lg_formatter := val\<rparr>) s)\<lparr>appenders := \<lambda>p.
        if p \<in> set (lg_appenders lg) then map_option (follow_formatter val) (appenders s p) else appenders s p\<rparr>"

lemma Logger_setFormatter_effect:
  assumes "log_wf s" and "loggers s l = Some lg"
  shows "Logger_setFormatter l val s = Inr (set_formatter_effect l val lg s)"
proof -
  have "\<forall>p\<in>set (lg_appenders lg). appenders s p \<noteq> None"
    using wf_loggers [OF assms] by (fastforce simp: appender_ok_def)
  then show ?thesis
    by (simp add: Logger_setFormatter_def assms(2) follow_all_effect set_formatter_effect_def cong: if_cong)
qed

lemma set_formatter_effect_wf:
  assumes wf: "log_wf s" and l: "loggers s l = Some lg"
  shows "log_wf (set_formatter_effect l (Some fm) lg s)"
proof (rule log_wf_extend [OF wf])
  let ?t = "set_formatter_effect l (Some fm) lg s"
  show app: "appender_ok ?t p" if "appender_ok s p" for p
    using that follow_formatter_ok [of _ fm] by (fastforce simp: appender_ok_def set_formatter_effect_def)
  show "k < next_logger ?t \<and> lg_formatter lg' \<noteq> None \<and> (\<forall>p\<in>set (lg_appenders lg'). appender_ok ?t p) \<and>
      root_ok s (lg_root lg')" if "loggers ?t k = Some lg'" for k lg'
    using that wf_loggers [OF wf l] wf_loggers [OF wf, of k lg'] app
    by (auto simp: set_formatter_effect_def split: if_splits)
  show "p < next_appender ?t" if "appenders ?t p = Some a" for p a
    using that log_wfD(3) [OF wf] by (auto simp: set_formatter_effect_def split: if_splits)
qed (use l in \<open>auto simp: set_formatter_effect_def\<close>)

end
