(* ===== verification/Name_Table.thy ===== *)
theory Name_Table
  imports Duan_Prelude
begin

text \<open>
  Tables that hand out one object per name, made on the first request: the contract shared by
  \<^verbatim>\<open>LoggerManager::getLogger\<close> and \<^verbatim>\<open>Config::Lookup\<close>. A request may be refused (\<^term>\<open>None\<close>).
\<close>

locale name_table =
  fixes inv :: "'s \<Rightarrow> bool"
    and tab :: "'s \<Rightarrow> string \<Rightarrow> nat option"
    and get :: "string \<Rightarrow> 's \<Rightarrow> (nat \<times> 's) option"
  assumes get_inv: "inv s \<Longrightarrow> get n s = Some (p, t) \<Longrightarrow> inv t"
    and get_tab: "inv s \<Longrightarrow> get n s = Some (p, t) \<Longrightarrow> tab t n = Some p"
    and get_other: "inv s \<Longrightarrow> get n s = Some (p, t) \<Longrightarrow> m \<noteq> n \<Longrightarrow> tab t m = tab s m"
    and get_known: "inv s \<Longrightarrow> get n s = Some (p, t) \<Longrightarrow> tab s n = Some q \<Longrightarrow> p = q \<and> t = s"
    and tab_inj: "inv s \<Longrightarrow> tab s n = Some p \<Longrightarrow> tab s m = Some p \<Longrightarrow> n = m"
begin

text \<open>Entries stay, over any number of requests.\<close>

lemma get_keeps: "inv s \<Longrightarrow> get n s = Some (p, t) \<Longrightarrow> tab s m = Some q \<Longrightarrow> tab t m = Some q"
  using get_known [of s n p t q] get_other [of s n p t m] by (cases "m = n") auto

fun get_all :: "string list \<Rightarrow> 's \<Rightarrow> 's option" where
  "get_all [] s = Some s"
| "get_all (n # ns) s = (case get n s of None \<Rightarrow> None | Some (p, t) \<Rightarrow> get_all ns t)"

lemma get_all_keeps:
  assumes "inv s" and "get_all ns s = Some t"
  shows "inv t \<and> (\<forall>m q. tab s m = Some q \<longrightarrow> tab t m = Some q)"
  using assms
proof (induction ns arbitrary: s)
  case (Cons n ns)
  then obtain p u where u: "get n s = Some (p, u)" "get_all ns u = Some t" by (auto split: option.splits)
  with Cons.IH [of u] get_inv [OF Cons.prems(1) u(1)] get_keeps [OF Cons.prems(1) u(1)] show ?case by simp
qed simp

text \<open>A later request for the name gives the same object and changes nothing.\<close>

lemma get_again:
  assumes "inv s" and "get n s = Some (p, t)" and "get_all ns t = Some u" and "get n u = Some (q, v)"
  shows "q = p \<and> v = u"
proof -
  have "inv u" and "tab u n = Some p"
    using get_all_keeps [OF get_inv [OF assms(1,2)] assms(3)] get_tab [OF assms(1,2)] by auto
  with get_known [OF _ assms(4)] show ?thesis by blast
qed

text \<open>Different names have different objects.\<close>

lemma get_distinct:
  assumes "inv s" and "get n s = Some (p, t)" and "get m t = Some (q, u)" and "m \<noteq> n"
  shows "q \<noteq> p"
proof
  assume "q = p"
  have t: "inv t" "tab t n = Some p" using get_inv get_tab assms(1,2) by auto
  have "inv u" "tab u m = Some q" "tab u n = Some p"
    using get_inv [OF t(1) assms(3)] get_tab [OF t(1) assms(3)] get_keeps [OF t(1) assms(3) t(2)] by auto
  with tab_inj [of u m p n] assms(4) \<open>q = p\<close> show False by auto
qed

end

end
