(* ===== verification/Duan_Log_Properties.thy ===== *)
theory Duan_Log_Properties
  imports Duan_Log Name_Table
begin

text \<open>
  Properties of the logging system: the transition system of its operations with the invariant that
  logging never meets a null pointer, delivery of events to appenders, formatters, the manager's
  table, files, and the configuration listener.
\<close>

section \<open>The invariant along every operation\<close>

lemma LoggerManager_new_wf:
  "\<exists>s. LoggerManager_new log_empty = Inr s \<and> log_wf s"
  by (auto simp: LoggerManager_new_def Logger_new_def StdoutLogAppender_new_def addAppender_def log_empty_def
    put_defs log_wf_def heaps_wf_def manager_wf_def logger_ok_def root_ok_def appender_ok_def named_ok_def
    split: if_splits)

lemma Logger_new_wf:
  assumes "log_wf s"
  shows "log_wf (snd (Logger_new name s))"
  by (rule wf_alloc_logger [OF assms, of "\<lparr>lg_name = name, lg_level = DEBUG, lg_appenders = [],
        lg_formatter = Some (LogFormatter_new default_pattern), lg_root = None\<rparr>"])
    (simp_all add: Logger_new_def root_ok_def)

lemma getLogger_wf:
  assumes "log_wf s"
  shows "log_wf (snd (getLogger name s))"
proof (cases "m_loggers s name")
  case None
  have "root_ok s (Some (m_root s))" using root_logger [OF assms] by (auto simp: root_ok_def)
  with None show ?thesis
    by (intro wf_alloc_logger [OF assms, of "\<lparr>lg_name = name, lg_level = DEBUG, lg_appenders = [],
        lg_formatter = Some (LogFormatter_new default_pattern), lg_root = Some (m_root s)\<rparr>"])
      (simp_all add: getLogger_def Logger_new_def Let_def)
qed (simp add: getLogger_def assms)

lemma StdoutLogAppender_new_wf: "log_wf s \<Longrightarrow> log_wf (snd (StdoutLogAppender_new s))"
  by (simp add: StdoutLogAppender_new_def wf_alloc_appender)

lemma FileLogAppender_new_wf: "log_wf s \<Longrightarrow> log_wf (snd (FileLogAppender_new os filename s))"
  by (simp add: FileLogAppender_new_def case_prod_beta Let_def wf_alloc_appender)

lemma SetLevel_keeps: "log_wf s \<Longrightarrow> SetLevel l level s = Inr t \<Longrightarrow> log_wf t"
  using SetLevel_wf [of s l] by (cases "loggers s l") (auto simp: SetLevel_def)

lemma clearAppenders_keeps: "log_wf s \<Longrightarrow> clearAppenders l s = Inr t \<Longrightarrow> log_wf t"
  using clearAppenders_wf [of s l] by (cases "loggers s l") (auto simp: clearAppenders_def)

lemma delAppender_keeps: "log_wf s \<Longrightarrow> delAppender l p s = Inr t \<Longrightarrow> log_wf t"
  using delAppender_wf [of s l] by (cases "loggers s l") (auto simp: delAppender_def)

lemma addAppender_keeps: "log_wf s \<Longrightarrow> addAppender l p s = Inr t \<Longrightarrow> log_wf t"
  using addAppender_wf [of s l _ p] by (cases "loggers s l"; cases "appenders s p") (auto simp: addAppender_def)

lemma LogAppender_setLevel_keeps: "log_wf s \<Longrightarrow> LogAppender_setLevel p level s = Inr t \<Longrightarrow> log_wf t"
  using LogAppender_setLevel_wf [of s p] by (cases "appenders s p") (auto simp: LogAppender_setLevel_def)

lemma LogAppender_setFormatter_keeps: "log_wf s \<Longrightarrow> LogAppender_setFormatter p (Some fm) s = Inr t \<Longrightarrow> log_wf t"
  using LogAppender_setFormatter_wf [of s p] by (cases "appenders s p") (auto simp: LogAppender_setFormatter_def)

lemma Logger_setFormatter_keeps: "log_wf s \<Longrightarrow> Logger_setFormatter l (Some fm) s = Inr t \<Longrightarrow> log_wf t"
  using Logger_setFormatter_effect [of s l] set_formatter_effect_wf [of s l]
  by (cases "loggers s l") (auto simp: Logger_setFormatter_def)

lemma Logger_setFormatter_string_keeps:
  assumes "log_wf s" and "Logger_setFormatter_string l val s = Inr t"
  shows "log_wf t"
proof -
  have "log_wf (print_parse_errors val s)" using assms(1) by (simp add: print_parse_errors_def)
  then show ?thesis
    using assms(2) Logger_setFormatter_keeps [of "print_parse_errors val s" l "LogFormatter_new val" t]
    by (auto simp: Logger_setFormatter_string_def Let_def deref_Inr_iff split: if_splits)
qed

lemma log_all_keeps: "log_all os ps level e s = Inr t \<Longrightarrow> log_frame s t"
proof (induction ps arbitrary: s)
  case (Cons p ps)
  then obtain u where u: "LogAppender_log os p level e s = Inr u" "log_all os ps level e u = Inr t"
    by (auto simp: bind_res_Inr_iff)
  have "log_frame s u"
  proof -
    obtain a where a: "appenders s p = Some a" using u(1) by (auto simp: LogAppender_log_def deref_Inr_iff)
    have *: "log_frame s (put_appender p (a\<lparr>ap_sink := k\<rparr>) (s\<lparr>files := fl\<rparr>))" for k fl
      by (rule log_frame_put_appender [OF a]) (simp add: shape_def)
    show ?thesis
      using u(1) a log_frame_trans [OF * log_frame_print]
      by (cases "ap_sink a")
        (auto simp: LogAppender_log_def StdoutLogAppender_log_def FileLogAppender_log_def case_prod_beta Let_def
          deref_Inr_iff * split: if_splits)
  qed
  with Cons.IH [OF u(2)] show ?case by (rule log_frame_trans [rotated])
qed simp

lemma Logger_log_frame: "Logger_log n os l level e s = Inr t \<Longrightarrow> log_frame s t"
proof (induction n arbitrary: l)
  case (Suc n)
  then show ?case by (auto simp: deref_Inr_iff log_all_keeps split: if_splits option.splits)
qed simp

lemma Logger_log_keeps: "log_wf s \<Longrightarrow> Logger_log n os l level e s = Inr t \<Longrightarrow> log_wf t"
  using Logger_log_frame log_frame_wf by blast

lemma DUAN_LOG_LEVEL_keeps: "log_wf s \<Longrightarrow> DUAN_LOG_LEVEL n os l level e s = Inr t \<Longrightarrow> log_wf t"
  by (auto simp: DUAN_LOG_LEVEL_def LogEventWrap_delete_def deref_Inr_iff intro: Logger_log_keeps split: if_splits)

lemmas op_keeps = SetLevel_keeps clearAppenders_keeps delAppender_keeps addAppender_keeps
  LogAppender_setLevel_keeps LogAppender_setFormatter_keeps Logger_setFormatter_keeps
  Logger_setFormatter_string_keeps Logger_log_keeps DUAN_LOG_LEVEL_keeps

lemmas alloc_keeps = Logger_new_wf getLogger_wf StdoutLogAppender_new_wf FileLogAppender_new_wf

lemma new_defined_appender_keeps: "log_wf s \<Longrightarrow> log_wf (snd (new_defined_appender os a s))"
  by (simp add: new_defined_appender_def case_prod_beta Let_def alloc_keeps)

lemma set_defined_formatter_keeps:
  assumes "log_wf s" and "set_defined_formatter i a p s = Inr t"
  shows "log_wf t"
proof -
  have "log_wf (print_parse_errors (lad_formatter a) s)" using assms(1) by (simp add: print_parse_errors_def)
  then show ?thesis
    using assms by (auto simp: set_defined_formatter_def Let_def intro: LogAppender_setFormatter_keeps split: if_splits)
qed

lemma add_defined_appender_keeps: "log_wf s \<Longrightarrow> add_defined_appender os i l a s = Inr t \<Longrightarrow> log_wf t"
  using new_defined_appender_keeps [of s os a]
  unfolding add_defined_appender_def case_prod_beta Let_def deref_Inr_iff bind_res_Inr_iff
  by (metis LogAppender_setLevel_keeps set_defined_formatter_keeps addAppender_keeps)

lemma add_defined_appenders_keeps: "log_wf s \<Longrightarrow> add_defined_appenders os i l as s = Inr t \<Longrightarrow> log_wf t"
  by (induction as arbitrary: s) (auto simp: bind_res_Inr_iff dest: add_defined_appender_keeps)

lemma defined_logger_keeps: "log_wf s \<Longrightarrow> log_wf (snd (defined_logger old i s))"
  by (auto simp: defined_logger_def case_prod_beta Let_def alloc_keeps split: option.split)

lemma apply_define_keeps:
  assumes "log_wf s" and "apply_define os old i s = Inr t"
  shows "log_wf t"
proof -
  obtain l s2 s3 s4 where ops: "SetLevel l (ld_level i) (snd (defined_logger old i s)) = Inr s2"
    "(if ld_formatter i \<noteq> [] then Logger_setFormatter_string l (ld_formatter i) s2 else Inr s2) = Inr s3"
    "clearAppenders l s3 = Inr s4" "add_defined_appenders os i l (ld_appenders i) s4 = Inr t"
    using assms(2) unfolding apply_define_def case_prod_beta Let_def deref_Inr_iff bind_res_Inr_iff by blast
  have "log_wf s2" using SetLevel_keeps [OF defined_logger_keeps [OF assms(1)] ops(1)] .
  then have "log_wf s3" using ops(2) by (auto split: if_splits dest: Logger_setFormatter_string_keeps)
  then show ?thesis using clearAppenders_keeps ops(3,4) add_defined_appenders_keeps by blast
qed

lemma apply_defines_keeps: "log_wf s \<Longrightarrow> apply_defines os old new s = Inr t \<Longrightarrow> log_wf t"
  by (induction new arbitrary: s) (auto simp: bind_res_Inr_iff dest: apply_define_keeps)

lemma delete_define_keeps: "log_wf s \<Longrightarrow> delete_define new i s = Inr t \<Longrightarrow> log_wf t"
  using getLogger_wf [of s "ld_name i"]
  by (auto simp: delete_define_def case_prod_beta Let_def bind_res_Inr_iff split: if_splits
    dest: SetLevel_keeps clearAppenders_keeps)

lemma delete_defines_keeps: "log_wf s \<Longrightarrow> delete_defines new old s = Inr t \<Longrightarrow> log_wf t"
  by (induction old arbitrary: s) (auto simp: bind_res_Inr_iff dest: delete_define_keeps)

lemma on_logger_conf_changed_keeps:
  "log_wf s \<Longrightarrow> on_logger_conf_changed n os e old new s = Inr t \<Longrightarrow> log_wf t"
  unfolding on_logger_conf_changed_def bind_res_Inr_iff
  using DUAN_LOG_LEVEL_keeps apply_defines_keeps delete_defines_keeps by metis

section \<open>The transition system\<close>

text \<open>
  The operations a program can call, on any objects and in any order, with non-null formatters; every
  step is a call that returns.
\<close>

inductive log_step :: "log_state \<Rightarrow> log_state \<Rightarrow> bool" where
  "log_step s (snd (Logger_new name s))"
| "log_step s (snd (getLogger name s))"
| "log_step s (snd (StdoutLogAppender_new s))"
| "log_step s (snd (FileLogAppender_new os filename s))"
| "SetLevel l level s = Inr t \<Longrightarrow> log_step s t"
| "addAppender l p s = Inr t \<Longrightarrow> log_step s t"
| "delAppender l p s = Inr t \<Longrightarrow> log_step s t"
| "clearAppenders l s = Inr t \<Longrightarrow> log_step s t"
| "LogAppender_setLevel p level s = Inr t \<Longrightarrow> log_step s t"
| "LogAppender_setFormatter p (Some fm) s = Inr t \<Longrightarrow> log_step s t"
| "Logger_setFormatter l (Some fm) s = Inr t \<Longrightarrow> log_step s t"
| "Logger_setFormatter_string l val s = Inr t \<Longrightarrow> log_step s t"
| "Logger_log n os l level e s = Inr t \<Longrightarrow> log_step s t"
| "DUAN_LOG_LEVEL n os l level e s = Inr t \<Longrightarrow> log_step s t"
| "on_logger_conf_changed n os e old new s = Inr t \<Longrightarrow> log_step s t"

definition log_init :: "log_state \<Rightarrow> bool" where
  "log_init s \<longleftrightarrow> LoggerManager_new log_empty = Inr s"

interpretation log_system: inductive_invariant log_init log_step log_wf
proof
  show "log_wf s" if "log_init s" for s
    using that LoggerManager_new_wf by (auto simp: log_init_def)
  show "log_wf t" if "log_wf s" and "log_step s t" for s t
    using that(2,1) by cases (auto intro: op_keeps alloc_keeps on_logger_conf_changed_keeps)
qed

section \<open>Logging is safe\<close>

lemma DUAN_LOG_LEVEL_returns:
  assumes "log_wf s" and "loggers s l = Some lg"
  shows "\<exists>t. DUAN_LOG_LEVEL 2 os l level e s = Inr t \<and> log_frame s t"
proof -
  let ?e = "e\<lparr>ev_logger := l, ev_logger_name := lg_name lg, ev_level := level, ev_elapse := 0\<rparr>"
  obtain t where t: "Logger_log 2 os l level ?e s = Inr t" "log_frame s t"
    using Logger_log_returns [OF assms, of 0 os level ?e] by (auto simp: numeral_2_eq_2)
  then show ?thesis using assms(2) by (simp add: DUAN_LOG_LEVEL_def LogEventWrap_delete_def)
qed

definition demo_log :: log_state where
  "demo_log = (case LoggerManager_new log_empty of Inl e \<Rightarrow> log_empty | Inr s \<Rightarrow> s)"

definition demo_log_os :: log_os where
  "demo_log_os = \<lparr>os_time = \<lambda>p. 60, os_open = \<lambda>p. True, os_write = \<lambda>p. True, os_strftime = \<lambda>f t. f\<rparr>"

lemma demo_log_init: "log_init demo_log"
  using LoggerManager_new_wf by (auto simp: log_init_def demo_log_def)

lemma demo_log_wf: "log_wf demo_log"
  by (rule log_system.inv_init [OF demo_log_init])

lemma demo_log_eq:
  "demo_log = \<lparr>loggers = [0 \<mapsto> \<lparr>lg_name = ''root'', lg_level = DEBUG, lg_appenders = [0],
       lg_formatter = Some (LogFormatter_new default_pattern), lg_root = None\<rparr>],
     appenders = [0 \<mapsto> \<lparr>ap_sink = StdoutLogAppender, ap_level = DEBUG, ap_hasFormatter = False,
       ap_formatter = Some (LogFormatter_new default_pattern)\<rparr>],
     next_logger = 1, next_appender = 1, m_loggers = [''root'' \<mapsto> 0], m_root = 0, cout = [], files = Map.empty\<rparr>"
  by (simp add: demo_log_def LoggerManager_new_def Logger_new_def StdoutLogAppender_new_def addAppender_def
    log_empty_def put_defs)



section \<open>Delivery\<close>

text \<open>The appenders an event of a level reaches from a logger.\<close>

definition targets :: "log_state \<Rightarrow> Logger \<Rightarrow> Level \<Rightarrow> nat list" where
  "targets s lg level =
     (if level < lg_level lg then []
      else if lg_appenders lg \<noteq> [] then lg_appenders lg
      else case Option.bind (lg_root lg) (loggers s) of
             None \<Rightarrow> []
           | Some lr \<Rightarrow> if level < lg_level lr then [] else lg_appenders lr)"

definition line :: "log_os \<Rightarrow> LogAppender \<Rightarrow> Level \<Rightarrow> LogEvent \<Rightarrow> string" where
  "line os a level e =
     (if level < ap_level a then []
      else case ap_formatter a of None \<Rightarrow> [] | Some fm \<Rightarrow> LogFormatter_format (os_strftime os) fm level e)"

lemma Logger_log_targets:
  assumes "log_wf s" and "loggers s l = Some lg"
  shows "Logger_log 2 os l level e s = log_all os (targets s lg level) level e s"
proof (cases "lg_root lg")
  case None
  with assms(2) show ?thesis by (simp add: numeral_2_eq_2 targets_def)
next
  case (Some r)
  then obtain lr where "loggers s r = Some lr" "lg_root lr = None"
    using wf_loggers [OF assms] by (auto simp: root_ok_def)
  with Some assms(2) show ?thesis by (simp add: numeral_2_eq_2 targets_def)
qed

lemma targets_ok:
  assumes "log_wf s" and "loggers s l = Some lg"
  shows "\<forall>p\<in>set (targets s lg level). appender_ok s p"
proof (cases "Option.bind (lg_root lg) (loggers s)")
  case None
  with wf_loggers [OF assms] show ?thesis by (auto simp: targets_def)
next
  case (Some lr)
  then obtain r where "loggers s r = Some lr" by (cases "lg_root lg") auto
  with Some wf_loggers [OF assms] wf_loggers [OF assms(1), of r lr] show ?thesis by (auto simp: targets_def)
qed

lemma log_all_stdout:
  assumes "\<forall>p\<in>set ps. \<exists>a. appenders s p = Some a \<and> ap_sink a = StdoutLogAppender \<and> ap_formatter a \<noteq> None"
  shows "log_all os ps level e s = Inr (print (concat (map (\<lambda>p. line os (the (appenders s p)) level e) ps)) s)"
  using assms
proof (induction ps arbitrary: s)
  case (Cons p ps)
  then obtain a fm where "appenders s p = Some a" "ap_sink a = StdoutLogAppender" "ap_formatter a = Some fm" by auto
  then have "LogAppender_log os p level e s = Inr (print (line os a level e) s)"
    by (simp add: LogAppender_log_def StdoutLogAppender_log_def line_def print_def)
  with Cons \<open>appenders s p = Some a\<close> show ?case by (simp add: print_def)
qed (simp add: print_def)

text \<open>
  C34. Where an event goes: below the level of the logger nowhere; otherwise to the logger's own appenders,
  or, when it has none, to the appenders of the root logger if its level admits the event. With console
  appenders the output grows by exactly one formatted line per reached appender whose own level admits
  the event, in the order in which the appenders were added, and nothing else changes.
\<close>

theorem log_delivers:
  assumes "log_wf s" and "loggers s l = Some lg"
    and "\<forall>p\<in>set (targets s lg level). \<forall>a. appenders s p = Some a \<longrightarrow> ap_sink a = StdoutLogAppender"
  shows "Logger_log 2 os l level e s =
    Inr (print (concat (map (\<lambda>p. line os (the (appenders s p)) level e) (targets s lg level))) s)"
  using targets_ok [OF assms(1,2)] assms(3) Logger_log_targets [OF assms(1,2)]
    log_all_stdout [of "targets s lg level" s os level e]
  by (fastforce simp: appender_ok_def)

theorem log_delivers_witness:
  "Logger_log 2 demo_log_os 0 INFO demo_event demo_log =
     Inr (print (LogFormatter_format (\<lambda>f t. f) (LogFormatter_new default_pattern) INFO demo_event) demo_log) \<and>
   Logger_log 2 demo_log_os 0 UNKNOW demo_event demo_log = Inr (print [] demo_log)"
  using log_delivers [OF demo_log_wf, of 0 _ INFO demo_log_os demo_event]
    log_delivers [OF demo_log_wf, of 0 _ UNKNOW demo_log_os demo_event]
  by (simp add: demo_log_eq targets_def line_def DEBUG_def INFO_def UNKNOW_def demo_log_os_def)

section \<open>Formatters\<close>

text \<open>
  Setting the pattern of a logger. A pattern that does not parse changes no logger and no appender, it
  only writes messages. A valid pattern becomes the logger's formatter and that of all its appenders
  without a formatter of their own; appenders with their own formatter, appenders of other loggers and
  all other loggers stay as they are.
\<close>

theorem setFormatter_string_effect:
  assumes "log_wf s" and "loggers s l = Some lg"
  shows "\<exists>t. Logger_setFormatter_string l val s = Inr t \<and> log_wf t \<and>
    (m_error (LogFormatter_new val) \<longrightarrow> loggers t = loggers s \<and> appenders t = appenders s) \<and>
    (\<not> m_error (LogFormatter_new val) \<longrightarrow>
       loggers t = (loggers s)(l \<mapsto> lg\<lparr>lg_formatter := Some (LogFormatter_new val)\<rparr>) \<and>
       (\<forall>p a. appenders s p = Some a \<longrightarrow>
          appenders t p = Some (if p \<in> set (lg_appenders lg) \<and> \<not> ap_hasFormatter a
                                then a\<lparr>ap_formatter := Some (LogFormatter_new val)\<rparr> else a)))"
proof -
  let ?s = "print_parse_errors val s"
  have wf: "log_wf ?s" and l: "loggers ?s l = Some lg" using assms by (simp_all add: print_parse_errors_def)
  show ?thesis
  proof (cases "m_error (LogFormatter_new val)")
    case True
    with wf assms(2) show ?thesis by (simp add: Logger_setFormatter_string_def print_parse_errors_def)
  next
    case False
    then have "Logger_setFormatter_string l val s = Inr (set_formatter_effect l (Some (LogFormatter_new val)) lg ?s)"
      using Logger_setFormatter_effect [OF wf l] assms(2) by (simp add: Logger_setFormatter_string_def)
    with False set_formatter_effect_wf [OF wf l] show ?thesis
      by (simp add: set_formatter_effect_def follow_formatter_def print_parse_errors_def)
  qed
qed

theorem setFormatter_string_effect_witness:
  "(\<exists>t. Logger_setFormatter_string 0 ''[%p] %m%n'' demo_log = Inr t \<and>
     map_option ap_formatter (appenders t 0) = Some (Some (LogFormatter_new ''[%p] %m%n'')) \<and>
     map_option lg_formatter (loggers t 0) = Some (Some (LogFormatter_new ''[%p] %m%n''))) \<and>
   (\<exists>t. Logger_setFormatter_string 0 ''%%'' demo_log = Inr t \<and> appenders t = appenders demo_log)"
proof -
  have ok: "\<not> m_error (LogFormatter_new ''[%p] %m%n'')"
    by (simp add: LogFormatter_new_def LogFormatter_init_def parse_loop.simps item_loop.simps isalpha_def
      make_item_def s_format_items_def substr_def)
  have bad: "m_error (LogFormatter_new ''%%'')"
    by (simp add: LogFormatter_new_def LogFormatter_init_def parse_loop.simps item_loop.simps make_item_def
      s_format_items_def)
  have l: "loggers demo_log 0 = Some (the (loggers demo_log 0))" by (simp add: demo_log_eq)
  show ?thesis
    using setFormatter_string_effect [OF demo_log_wf l, of "''[%p] %m%n''"] ok
      setFormatter_string_effect [OF demo_log_wf l, of "''%%''"] bad
    by (auto simp: demo_log_eq)
qed

section \<open>The table of loggers\<close>

lemma getLogger_effect:
  assumes "log_wf s"
  shows "m_loggers (snd (getLogger name s)) name = Some (fst (getLogger name s))"
    and "getLogger name (snd (getLogger name s)) = getLogger name s"
    and "name' \<noteq> name \<Longrightarrow> m_loggers (snd (getLogger name s)) name' = m_loggers s name'"
    and "loggers s l = Some lg \<Longrightarrow> loggers (snd (getLogger name s)) l = Some lg"
  using fresh_logger [OF assms]
  by (cases "m_loggers s name"; auto simp: getLogger_def Logger_new_def Let_def)+

interpretation logger_table: name_table log_wf m_loggers "\<lambda>name s. Some (getLogger name s)"
proof
  fix s t :: log_state and n m :: string and p q
  assume wf: "log_wf s"
  show "n = m" if "m_loggers s n = Some p" "m_loggers s m = Some p"
    using log_wfD(5) [OF wf that(1)] log_wfD(5) [OF wf that(2)] by (auto simp: named_ok_def)
  assume "Some (getLogger n s) = Some (p, t)"
  then have g: "getLogger n s = (p, t)" by simp
  show "log_wf t" using getLogger_wf [OF wf, of n] g by simp
  show "m_loggers t n = Some p" using getLogger_effect(1) [OF wf, of n] g by simp
  show "m_loggers t m = m_loggers s m" if "m \<noteq> n" using getLogger_effect(3) [OF wf that] g by simp
  show "p = q \<and> t = s" if "m_loggers s n = Some q" using that g by (simp add: getLogger_def)
qed

lemma getLogger_laws:
  assumes "log_wf s" and "(l, t) = getLogger name s"
  shows "getLogger name t = (l, t)"
    and "name' \<noteq> name \<Longrightarrow> fst (getLogger name' t) \<noteq> l"
    and "\<exists>lg. loggers t l = Some lg \<and> lg_name lg = name"
    and "loggers s k = Some lk \<Longrightarrow> loggers t k = Some lk"
    and "m_loggers s name = None \<Longrightarrow>
      \<exists>lg lr. loggers t l = Some lg \<and> loggers t (m_root t) = Some lr \<and>
        targets t lg INFO = (if INFO < lg_level lr then [] else lg_appenders lr)"
proof -
  have t: "l = fst (getLogger name s)" "t = snd (getLogger name s)"
    using assms(2) by (simp_all flip: assms(2))
  have wf: "log_wf t" unfolding t by (rule getLogger_wf [OF assms(1)])
  show "getLogger name t = (l, t)" using getLogger_effect(2) [OF assms(1), of name] t assms(2) by simp
  have reg: "m_loggers t name = Some l" using getLogger_effect(1) [OF assms(1)] t by simp
  show "\<exists>lg. loggers t l = Some lg \<and> lg_name lg = name" using log_wfD(5) [OF wf reg] by (auto simp: named_ok_def)
  show "fst (getLogger name' t) \<noteq> l" if "name' \<noteq> name"
    using logger_table.get_distinct [OF assms(1), of name l t name' "fst (getLogger name' t)" "snd (getLogger name' t)"]
      assms(2) that by simp
  show "loggers t k = Some lk" if "loggers s k = Some lk" using getLogger_effect(4) [OF assms(1) that] t by simp
  show "\<exists>lg lr. loggers t l = Some lg \<and> loggers t (m_root t) = Some lr \<and>
        targets t lg INFO = (if INFO < lg_level lr then [] else lg_appenders lr)" if "m_loggers s name = None"
  proof -
    obtain lr where lr: "loggers s (m_root s) = Some lr" using root_logger [OF assms(1)] by auto
    then have "loggers t (m_root s) = Some lr" using getLogger_effect(4) [OF assms(1)] t by simp
    then show ?thesis
      using that by (simp add: t getLogger_def Logger_new_def targets_def DEBUG_def INFO_def)
  qed
qed

text \<open>
  The manager's table is a function of the name: asking twice gives the same logger and no further
  change, different names give different loggers, the logger has the name asked for, existing loggers
  stay as they are, and a logger made by the call has no appender of its own and sends its events
  to the appenders of the root logger.
\<close>

theorem getLogger_stable:
  assumes "log_wf s" and "(l, t) = getLogger name s"
  shows "getLogger name t = (l, t) \<and>
    (\<forall>name'. name' \<noteq> name \<longrightarrow> fst (getLogger name' t) \<noteq> l) \<and>
    (\<exists>lg. loggers t l = Some lg \<and> lg_name lg = name) \<and>
    (\<forall>k lk. loggers s k = Some lk \<longrightarrow> loggers t k = Some lk) \<and>
    (m_loggers s name = None \<longrightarrow>
      (\<exists>lg lr. loggers t l = Some lg \<and> loggers t (m_root t) = Some lr \<and>
        targets t lg INFO = (if INFO < lg_level lr then [] else lg_appenders lr)))"
  using getLogger_laws [OF assms] by blast

theorem getLogger_stable_witness:
  "getLogger ''system'' (snd (getLogger ''system'' demo_log)) = getLogger ''system'' demo_log \<and>
   fst (getLogger ''root'' (snd (getLogger ''system'' demo_log))) \<noteq> fst (getLogger ''system'' demo_log)"
  using getLogger_stable [OF demo_log_wf, of "fst (getLogger ''system'' demo_log)"
      "snd (getLogger ''system'' demo_log)" "''system''"] by simp

section \<open>Files\<close>

text \<open>Events logged one after the other through a file appender, each at its time.\<close>

fun log_sequence :: "log_os \<Rightarrow> nat \<Rightarrow> (u64 \<times> LogEvent) list \<Rightarrow> log_state \<Rightarrow> log_state res" where
  "log_sequence os p [] s = Inr s"
| "log_sequence os p (x # xs) s =
     bind_res (LogAppender_log (os\<lparr>os_time := \<lambda>q. fst x\<rparr>) p (ev_level (snd x)) (snd x) s) (log_sequence os p xs)"

definition last_second :: "(u64 \<times> LogEvent) list \<Rightarrow> (u64 \<times> LogEvent) list" where
  "last_second xs = rev (takeWhile (\<lambda>x. fst x = fst (last xs)) (rev xs))"

text \<open>A file appender whose stream is open with the write position at the end of the contents \<open>c\<close>.\<close>

definition file_ready :: "log_state \<Rightarrow> nat \<Rightarrow> LogAppender \<Rightarrow> string \<Rightarrow> u64 \<Rightarrow> string \<Rightarrow> bool" where
  "file_ready s p a filename lastTime c \<longleftrightarrow>
     appenders s p = Some (a\<lparr>ap_sink := FileLogAppender
       \<lparr>m_filename = filename, m_filestream = \<lparr>fs_open = True, fs_fail = False, fs_pos = length c\<rparr>,
        m_lastTime = lastTime\<rparr>\<rparr>) \<and> files s filename = Some c"

lemma write_at_end [simp]: "write_at c (length c) str = c @ str"
  by (simp add: write_at_def)

lemma write_at_empty [simp]: "write_at [] 0 str = str"
  by (simp add: write_at_def)

lemma file_log_step:
  assumes "file_ready s p a filename lastTime c" and "ap_formatter a = Some fm" and "ap_level a \<le> level"
    and "os_open os p" and "os_write os p"
  shows "\<exists>t. LogAppender_log os p level e s = Inr t \<and> file_ready t p a filename (os_time os p)
    ((if os_time os p = lastTime then c else []) @ LogFormatter_format (os_strftime os) fm level e)"
  using assms
  by (cases "os_time os p = lastTime")
    (auto simp: file_ready_def LogAppender_log_def FileLogAppender_log_def Let_def reopen_def ofstream_close_def
      ofstream_open_def ofstream_write_def)

fun contents :: "(LogEvent \<Rightarrow> string) \<Rightarrow> u64 \<Rightarrow> string \<Rightarrow> (u64 \<times> LogEvent) list \<Rightarrow> string" where
  "contents g lastTime c [] = c"
| "contents g lastTime c (x # xs) = contents g (fst x) ((if fst x = lastTime then c else []) @ g (snd x)) xs"

lemma log_sequence_contents:
  assumes "file_ready s p a filename lastTime c" and "ap_formatter a = Some fm"
    and "\<forall>x\<in>set xs. ap_level a \<le> ev_level (snd x)" and "os_open os p" and "os_write os p"
  shows "\<exists>t. log_sequence os p xs s = Inr t \<and>
    files t filename = Some (contents (\<lambda>e. LogFormatter_format (os_strftime os) fm (ev_level e) e) lastTime c xs)"
  using assms(1,3)
proof (induction xs arbitrary: s lastTime c)
  case Nil
  then show ?case by (simp add: file_ready_def)
next
  case (Cons x xs)
  have "\<exists>t. LogAppender_log (os\<lparr>os_time := \<lambda>q. fst x\<rparr>) p (ev_level (snd x)) (snd x) s = Inr t \<and>
    file_ready t p a filename (fst x) ((if fst x = lastTime then c else []) @
      LogFormatter_format (os_strftime os) fm (ev_level (snd x)) (snd x))"
    using file_log_step [OF Cons.prems(1) assms(2), of "ev_level (snd x)" "os\<lparr>os_time := \<lambda>q. fst x\<rparr>" "snd x"]
      Cons.prems(2) assms(4,5) by simp
  then obtain t where t: "LogAppender_log (os\<lparr>os_time := \<lambda>q. fst x\<rparr>) p (ev_level (snd x)) (snd x) s = Inr t"
    "file_ready t p a filename (fst x) ((if fst x = lastTime then c else []) @
      LogFormatter_format (os_strftime os) fm (ev_level (snd x)) (snd x))" by blast
  with Cons.IH [OF t(2)] Cons.prems(2) show ?case by simp
qed

lemma contents_snoc:
  "contents g lastTime c (xs @ [x]) =
    (if fst x = (if xs = [] then lastTime else fst (last xs)) then contents g lastTime c xs else []) @ g (snd x)"
  by (induction xs arbitrary: lastTime c) auto

lemma last_second_snoc:
  "last_second (xs @ [x]) = (if xs \<noteq> [] \<and> fst x = fst (last xs) then last_second xs else []) @ [x]"
  by (cases xs rule: rev_cases) (auto simp: last_second_def)

lemma last_second_simps [simp]: "last_second [] = []" "last_second [x] = [x]"
  by (simp_all add: last_second_def)

lemma contents_last_second: "contents g lastTime [] xs = concat (map (\<lambda>x. g (snd x)) (last_second xs))"
proof (induction xs rule: rev_induct)
  case Nil
  show ?case by simp
next
  case (snoc x xs)
  then show ?case by (cases "xs = []") (simp_all add: contents_snoc last_second_snoc)
qed

text \<open>
  C33. What a log file holds. A file appender reopens its file whenever the second changes, and opening
  truncates: after any sequence of events the file has exactly the lines of the events that share the
  second of the last one, in order. All earlier lines are lost, although every write succeeded.
\<close>

theorem file_keeps_last_second:
  assumes "(p, s) = FileLogAppender_new os filename s0" and "os_open os p" and "os_write os p"
    and "\<forall>x\<in>set xs. DEBUG \<le> ev_level (snd x)"
  shows "\<exists>t. bind_res (LogAppender_setFormatter p (Some fm) s) (log_sequence os p xs) = Inr t \<and>
    files t filename =
      Some (concat (map (\<lambda>x. LogFormatter_format (os_strftime os) fm (ev_level (snd x)) (snd x)) (last_second xs)))"
proof -
  let ?a = "\<lparr>ap_sink = StdoutLogAppender, ap_level = DEBUG, ap_hasFormatter = True, ap_formatter = Some fm\<rparr>"
  have p: "p = next_appender s0"
    using assms(1) by (simp add: FileLogAppender_new_def alloc_appender_def case_prod_beta Let_def)
  then have "\<exists>s1. LogAppender_setFormatter p (Some fm) s = Inr s1 \<and> file_ready s1 p ?a filename 0 []"
    using assms(1,2) by (auto simp: FileLogAppender_new_def put_defs reopen_def ofstream_new_def ofstream_close_def
      ofstream_open_def LogAppender_setFormatter_def appender_setFormatter_def file_ready_def)
  then obtain s1 where s1: "LogAppender_setFormatter p (Some fm) s = Inr s1" "file_ready s1 p ?a filename 0 []" by blast
  show ?thesis
    using log_sequence_contents [OF s1(2) _ _ assms(2,3), of fm xs] assms(4) s1(1)
    by (simp add: contents_last_second)
qed

theorem file_keeps_last_second_witness:
  "\<exists>t. bind_res (LogAppender_setFormatter 1 (Some (LogFormatter_new ''%m'')) (snd (FileLogAppender_new demo_log_os ''a.log'' demo_log)))
      (log_sequence demo_log_os 1 [(60, demo_event\<lparr>ev_ss := ''one ''\<rparr>), (61, demo_event\<lparr>ev_ss := ''two ''\<rparr>),
         (61, demo_event\<lparr>ev_ss := ''three''\<rparr>)]) = Inr t \<and> files t ''a.log'' = Some ''two three''"
proof -
  have m: "LogFormatter_format st (LogFormatter_new ''%m'') level e = ev_ss e" for st level e
    by (simp add: LogFormatter_format_def LogFormatter_new_def LogFormatter_init_def parse_loop.simps
      item_loop.simps isalpha_def make_item_def s_format_items_def)
  have "(1, snd (FileLogAppender_new demo_log_os ''a.log'' demo_log)) = FileLogAppender_new demo_log_os ''a.log'' demo_log"
    by (simp add: FileLogAppender_new_def alloc_appender_def case_prod_beta Let_def demo_log_eq)
  from file_keeps_last_second [OF this, of "[(60, demo_event\<lparr>ev_ss := ''one ''\<rparr>), (61, demo_event\<lparr>ev_ss := ''two ''\<rparr>),
         (61, demo_event\<lparr>ev_ss := ''three''\<rparr>)]" "LogFormatter_new ''%m''"]
  show ?thesis by (simp add: demo_log_os_def demo_event_def DEBUG_def INFO_def last_second_def m)
qed

section \<open>The configuration listener\<close>

lemma apply_define_unchanged: "define_find old i = Some i \<Longrightarrow> apply_define os old i s = Inl (UB ''logger'')"
  by (simp add: apply_define_def defined_logger_def)

lemma apply_defines_unchanged:
  assumes "i \<in> set new" and "define_find old i = Some i"
  shows "apply_defines os old new s \<noteq> Inr t"
  using assms(1) by (induction new arbitrary: s) (auto simp: bind_res_Inr_iff apply_define_unchanged [OF assms(2)])

text \<open>
  The listener has a null pointer for a definition that the new configuration repeats unchanged: no
  configuration change that keeps one of the old definitions as it is can be applied, whatever the state.
\<close>

theorem conf_unchanged_aborts:
  assumes "i \<in> set new" and "define_find old i = Some i"
  shows "\<exists>err. on_logger_conf_changed n os e old new s = Inl err"
proof (cases "on_logger_conf_changed n os e old new s")
  case (Inr t)
  with apply_defines_unchanged [OF assms] show ?thesis
    by (auto simp: on_logger_conf_changed_def bind_res_Inr_iff)
qed simp

definition demo_define :: "string \<Rightarrow> LogDefine" where
  "demo_define name = \<lparr>ld_name = name, ld_level = INFO, ld_formatter = [], ld_appenders = []\<rparr>"

theorem conf_unchanged_aborts_witness:
  "\<exists>err. on_logger_conf_changed 2 demo_log_os demo_event [demo_define ''root'']
     [demo_define ''root'', demo_define ''system''] demo_log = Inl err"
  by (rule conf_unchanged_aborts [of "demo_define ''root''"]) (simp_all add: define_find_def)

text \<open>Configuring one logger leaves the other loggers and the manager's table alone.\<close>

definition only_logger :: "nat \<Rightarrow> log_state \<Rightarrow> log_state \<Rightarrow> bool" where
  "only_logger l s t \<longleftrightarrow> (\<forall>k. k \<noteq> l \<longrightarrow> loggers t k = loggers s k) \<and> m_loggers t = m_loggers s \<and> m_root t = m_root s"

lemma only_logger_trans: "only_logger l s t \<Longrightarrow> only_logger l t u \<Longrightarrow> only_logger l s u"
  by (simp add: only_logger_def)

lemma only_logger_refl [simp]: "only_logger l s s"
  by (simp add: only_logger_def)

lemma follow_all_only: "follow_all val ps s = Inr t \<Longrightarrow> loggers t = loggers s \<and> m_loggers t = m_loggers s \<and> m_root t = m_root s"
  by (induction ps arbitrary: s) (auto simp: deref_Inr_iff)

lemma logger_ops_only:
  "SetLevel l level s = Inr t \<Longrightarrow> only_logger l s t"
  "clearAppenders l s = Inr t \<Longrightarrow> only_logger l s t"
  "addAppender l p s = Inr t \<Longrightarrow> only_logger l s t"
  "LogAppender_setLevel p level s = Inr t \<Longrightarrow> only_logger l s t"
  "LogAppender_setFormatter p val s = Inr t \<Longrightarrow> only_logger l s t"
  by (auto simp: SetLevel_def clearAppenders_def addAppender_def LogAppender_setLevel_def
    LogAppender_setFormatter_def deref_Inr_iff only_logger_def)

lemma Logger_setFormatter_string_only: "Logger_setFormatter_string l val s = Inr t \<Longrightarrow> only_logger l s t"
  by (auto simp: Logger_setFormatter_string_def Logger_setFormatter_def Let_def deref_Inr_iff only_logger_def
    print_parse_errors_def dest!: follow_all_only split: if_splits)

lemma add_defined_appender_only:
  assumes "add_defined_appender os i l a s = Inr t"
  shows "only_logger l s t"
proof -
  have new: "only_logger l s (snd (new_defined_appender os a s))"
    by (simp add: new_defined_appender_def FileLogAppender_new_def StdoutLogAppender_new_def alloc_appender_def
      case_prod_beta Let_def only_logger_def)
  have fm: "only_logger l s2 s3" if "set_defined_formatter i a p s2 = Inr s3" for p s2 s3
    using that by (auto simp: set_defined_formatter_def Let_def LogAppender_setFormatter_def deref_Inr_iff
      print_parse_errors_def only_logger_def split: if_splits)
  obtain p s2 s3 where ops: "LogAppender_setLevel p (lad_level a) (snd (new_defined_appender os a s)) = Inr s2"
    "set_defined_formatter i a p s2 = Inr s3" "addAppender l p s3 = Inr t"
    using assms unfolding add_defined_appender_def case_prod_beta Let_def deref_Inr_iff bind_res_Inr_iff by blast
  show ?thesis
    by (rule only_logger_trans [OF only_logger_trans [OF new logger_ops_only(4) [OF ops(1)]]
          only_logger_trans [OF fm [OF ops(2)] logger_ops_only(3) [OF ops(3)]]])
qed

lemma add_defined_appenders_only: "add_defined_appenders os i l as s = Inr t \<Longrightarrow> only_logger l s t"
proof (induction as arbitrary: s)
  case (Cons a as)
  then show ?case using add_defined_appender_only only_logger_trans by (fastforce simp: bind_res_Inr_iff)
qed simp

lemma apply_define_only:
  assumes "apply_define os old i s = Inr t"
  shows "\<exists>l. fst (defined_logger old i s) = Some l \<and> only_logger l (snd (defined_logger old i s)) t"
proof -
  obtain l s2 s3 s4 where l: "fst (defined_logger old i s) = Some l"
    and ops: "SetLevel l (ld_level i) (snd (defined_logger old i s)) = Inr s2"
    "(if ld_formatter i \<noteq> [] then Logger_setFormatter_string l (ld_formatter i) s2 else Inr s2) = Inr s3"
    "clearAppenders l s3 = Inr s4" "add_defined_appenders os i l (ld_appenders i) s4 = Inr t"
    using assms unfolding apply_define_def case_prod_beta Let_def deref_Inr_iff bind_res_Inr_iff by blast
  have "only_logger l s2 s3" using ops(2) by (auto split: if_splits dest: Logger_setFormatter_string_only)
  with ops show ?thesis
    using l logger_ops_only add_defined_appenders_only only_logger_trans by meson
qed

text \<open>
  A definition that is new in the configuration has no effect on the loggers a program can ask for:
  the listener configures a fresh logger that never enters the manager's table. Every logger that existed
  is unchanged, and asking for the name afterwards gives a logger with the default level and without
  appenders of its own, exactly as it would have without the configuration.
\<close>

theorem conf_new_logger_unregistered:
  assumes "log_wf s" and "define_find old i = None" and "apply_define os old i s = Inr t"
    and "m_loggers s (ld_name i) = None"
  shows "m_loggers t = m_loggers s \<and> (\<forall>l lg. loggers s l = Some lg \<longrightarrow> loggers t l = Some lg) \<and>
    (\<exists>lg. loggers (snd (getLogger (ld_name i) t)) (fst (getLogger (ld_name i) t)) = Some lg \<and>
       lg_level lg = DEBUG \<and> lg_appenders lg = [])"
proof -
  let ?s = "snd (Logger_new (ld_name i) s)"
  have "only_logger (next_logger s) ?s t"
    using apply_define_only [OF assms(3)] assms(2) by (simp add: defined_logger_def Logger_new_def)
  then have m: "m_loggers t = m_loggers s" and "\<forall>k. k \<noteq> next_logger s \<longrightarrow> loggers t k = loggers s k"
    by (simp_all add: only_logger_def Logger_new_def)
  then have "\<forall>l lg. loggers s l = Some lg \<longrightarrow> loggers t l = Some lg"
    using fresh_logger [OF assms(1)] by (metis option.distinct(1))
  moreover have "\<exists>lg. loggers (snd (getLogger (ld_name i) t)) (fst (getLogger (ld_name i) t)) = Some lg \<and>
       lg_level lg = DEBUG \<and> lg_appenders lg = []"
    using assms(4) m by (simp add: getLogger_def Logger_new_def)
  ultimately show ?thesis using m by blast
qed

theorem conf_new_logger_unregistered_witness:
  "\<exists>t. apply_define demo_log_os [] (demo_define ''system'') demo_log = Inr t \<and> m_loggers t = m_loggers demo_log"
proof -
  have m: "m_loggers demo_log (ld_name (demo_define ''system'')) = None"
    by (simp add: demo_log_eq demo_define_def)
  have "\<exists>t. apply_define demo_log_os [] (demo_define ''system'') demo_log = Inr t"
    by (simp add: apply_define_def defined_logger_def define_find_def Logger_new_def demo_define_def SetLevel_def
      clearAppenders_def)
  with conf_new_logger_unregistered [OF demo_log_wf _ _ m, of "[]" demo_log_os] show ?thesis
    by (auto simp: define_find_def)
qed

end
