(* ===== verification/Duan_Config.thy ===== *)
theory Duan_Config
  imports Duan_Prelude Std_Set
begin

text \<open>
  \<^verbatim>\<open>config.h\<close>, \<^verbatim>\<open>config.cc\<close>: the conversions between values and YAML text, configuration variables with
  their listeners, the registry, and loading of a YAML document. Documents are trees; what yaml-cpp
  does with text (\<^verbatim>\<open>YAML::Load\<close>, printing a node) and \<^verbatim>\<open>boost::lexical_cast\<close> are arguments.
\<close>

section \<open>YAML nodes\<close>

datatype yaml = YNull | YScalar string | YSeq "yaml list" | YMap "(string \<times> yaml) list"

text \<open>
  The functions of yaml-cpp the code calls: \<^verbatim>\<open>Load\<close> (which may throw), \<^verbatim>\<open>operator<<\<close>, \<^verbatim>\<open>operator[]\<close> with a
  number and with a string (\<^term>\<open>None\<close>: not defined), and \<^verbatim>\<open>as<std::string>\<close>.
\<close>

record yaml_cpp =
  Load :: "string \<Rightarrow> yaml res"
  emit :: "yaml \<Rightarrow> string"
  at_index :: "yaml \<Rightarrow> nat \<Rightarrow> yaml"
  at_key :: "yaml \<Rightarrow> string \<Rightarrow> yaml option res"
  as_string :: "yaml \<Rightarrow> string res"

text \<open>Its documented behaviour on sequences, maps and scalars, and that a printed node reads back.\<close>

definition yaml_access_ok :: "yaml_cpp \<Rightarrow> bool" where
  "yaml_access_ok Y \<longleftrightarrow>
     (\<forall>ns i. i < length ns \<longrightarrow> at_index Y (YSeq ns) i = ns ! i) \<and>
     (\<forall>kvs k. at_key Y (YMap kvs) k = Inr (map_of kvs k)) \<and>
     (\<forall>s. as_string Y (YScalar s) = Inr s)"

definition reads_back :: "yaml_cpp \<Rightarrow> yaml \<Rightarrow> bool" where
  "reads_back Y n \<longleftrightarrow> Load Y (emit Y n) = Inr n"

fun ysize :: "yaml \<Rightarrow> nat" where
  "ysize (YSeq ns) = length ns"
| "ysize (YMap kvs) = length kvs"
| "ysize _ = 0"

text \<open>\<^verbatim>\<open>push_back\<close> on a node and assignment to a key; the first turns an empty node into a sequence or map.\<close>

fun push_back :: "yaml \<Rightarrow> yaml \<Rightarrow> yaml" where
  "push_back (YSeq ns) n = YSeq (ns @ [n])"
| "push_back _ n = YSeq [n]"

fun update_key :: "string \<Rightarrow> yaml \<Rightarrow> (string \<times> yaml) list \<Rightarrow> (string \<times> yaml) list" where
  "update_key k n [] = [(k, n)]"
| "update_key k n (kv # kvs) = (if fst kv = k then (k, n) # kvs else kv # update_key k n kvs)"

fun set_key :: "yaml \<Rightarrow> string \<Rightarrow> yaml \<Rightarrow> yaml" where
  "set_key (YMap kvs) k n = YMap (update_key k n kvs)"
| "set_key _ k n = YMap [(k, n)]"

fun pairs :: "yaml \<Rightarrow> (string \<times> yaml) list" where
  "pairs (YMap kvs) = kvs"
| "pairs _ = []"

section \<open>Conversions\<close>

text \<open>Calls one after the other; the first exception ends the loop.\<close>

fun mapM :: "('a \<Rightarrow> 'b res) \<Rightarrow> 'a list \<Rightarrow> 'b list res" where
  "mapM f [] = Inr []"
| "mapM f (x # xs) = bind_res (f x) (\<lambda>y. bind_res (mapM f xs) (\<lambda>ys. Inr (y # ys)))"

text \<open>From text: the elements of the node, each printed and converted.\<close>

definition elements_from :: "yaml_cpp \<Rightarrow> (string \<Rightarrow> 'a res) \<Rightarrow> string \<Rightarrow> 'a list res" where
  "elements_from Y cast v =
     bind_res (Load Y v) (\<lambda>node. mapM (\<lambda>i. cast (emit Y (at_index Y node i))) [0..<ysize node])"

definition vector_from :: "yaml_cpp \<Rightarrow> (string \<Rightarrow> 'a res) \<Rightarrow> string \<Rightarrow> 'a list res" where
  "vector_from Y cast v = elements_from Y cast v"

definition list_from :: "yaml_cpp \<Rightarrow> (string \<Rightarrow> 'a res) \<Rightarrow> string \<Rightarrow> 'a list res" where
  "list_from Y cast v = elements_from Y cast v"

text \<open>A \<^verbatim>\<open>std::set\<close> is the list of its elements in order, \<open>lt\<close> its comparator; an \<^verbatim>\<open>unordered_set\<close> has no order.\<close>

definition set_from :: "('a \<Rightarrow> 'a \<Rightarrow> bool) \<Rightarrow> yaml_cpp \<Rightarrow> (string \<Rightarrow> 'a res) \<Rightarrow> string \<Rightarrow> 'a list res" where
  "set_from lt Y cast v =
     bind_res (elements_from Y cast v) (\<lambda>xs. Inr (fold (\<lambda>x s. snd (set_insert lt x s)) xs []))"

definition unordered_set_from :: "yaml_cpp \<Rightarrow> (string \<Rightarrow> 'a res) \<Rightarrow> string \<Rightarrow> 'a set res" where
  "unordered_set_from Y cast v = bind_res (elements_from Y cast v) (\<lambda>xs. Inr (set xs))"

text \<open>Maps: \<^verbatim>\<open>insert\<close> keeps the first value of a key.\<close>

fun insert_first :: "(string \<times> 'a) list \<Rightarrow> (string \<Rightarrow> 'a option) \<Rightarrow> (string \<Rightarrow> 'a option)" where
  "insert_first [] m = m"
| "insert_first ((k, x) # kxs) m = insert_first kxs (if m k = None then m(k \<mapsto> x) else m)"

definition map_from :: "yaml_cpp \<Rightarrow> (string \<Rightarrow> 'a res) \<Rightarrow> string \<Rightarrow> (string \<Rightarrow> 'a option) res" where
  "map_from Y cast v =
     bind_res (Load Y v) (\<lambda>node.
       bind_res (mapM (\<lambda>kn. bind_res (cast (emit Y (snd kn))) (\<lambda>x. Inr (fst kn, x))) (pairs node))
         (\<lambda>kxs. Inr (insert_first kxs Map.empty)))"

definition unordered_map_from :: "yaml_cpp \<Rightarrow> (string \<Rightarrow> 'a res) \<Rightarrow> string \<Rightarrow> (string \<Rightarrow> 'a option) res" where
  "unordered_map_from Y cast v = map_from Y cast v"

text \<open>
  To text: every element is converted, read as a node and appended. The elements are given in the order
  of iteration.
\<close>

definition sequence_to :: "yaml_cpp \<Rightarrow> ('a \<Rightarrow> string res) \<Rightarrow> 'a list \<Rightarrow> string res" where
  "sequence_to Y cast xs =
     bind_res (mapM (\<lambda>x. bind_res (cast x) (Load Y)) xs) (\<lambda>ns. Inr (emit Y (foldl push_back YNull ns)))"

definition vector_to :: "yaml_cpp \<Rightarrow> ('a \<Rightarrow> string res) \<Rightarrow> 'a list \<Rightarrow> string res" where
  "vector_to Y cast v = sequence_to Y cast v"

definition list_to :: "yaml_cpp \<Rightarrow> ('a \<Rightarrow> string res) \<Rightarrow> 'a list \<Rightarrow> string res" where
  "list_to Y cast v = sequence_to Y cast v"

definition set_to :: "yaml_cpp \<Rightarrow> ('a \<Rightarrow> string res) \<Rightarrow> 'a list \<Rightarrow> string res" where
  "set_to Y cast v = sequence_to Y cast v"

definition unordered_set_to :: "yaml_cpp \<Rightarrow> ('a \<Rightarrow> string res) \<Rightarrow> 'a list \<Rightarrow> string res" where
  "unordered_set_to Y cast v = sequence_to Y cast v"

definition mapping_to :: "yaml_cpp \<Rightarrow> ('a \<Rightarrow> string res) \<Rightarrow> (string \<times> 'a) list \<Rightarrow> string res" where
  "mapping_to Y cast kxs =
     bind_res (mapM (\<lambda>kx. bind_res (bind_res (cast (snd kx)) (Load Y)) (\<lambda>n. Inr (fst kx, n))) kxs)
       (\<lambda>kns. Inr (emit Y (foldl (\<lambda>n kn. set_key n (fst kn) (snd kn)) YNull kns)))"

definition map_to :: "yaml_cpp \<Rightarrow> ('a \<Rightarrow> string res) \<Rightarrow> (string \<times> 'a) list \<Rightarrow> string res" where
  "map_to Y cast v = mapping_to Y cast v"

definition unordered_map_to :: "yaml_cpp \<Rightarrow> ('a \<Rightarrow> string res) \<Rightarrow> (string \<times> 'a) list \<Rightarrow> string res" where
  "unordered_map_to Y cast v = mapping_to Y cast v"

section \<open>Configuration variables\<close>

definition tolower :: "char \<Rightarrow> char" where
  "tolower c =
     (if 65 \<le> (of_char c :: nat) \<and> (of_char c :: nat) \<le> 90 then char_of ((of_char c :: nat) + 32) else c)"

text \<open>
  A listener gets the old and the new value and acts on the state \<open>'s\<close> outside the configuration; it
  may throw. The values of all types are one type \<open>'v\<close>; \<open>cv_type\<close> is \<^verbatim>\<open>typeid(T).name()\<close>.
\<close>

type_synonym ('v, 's) on_change_cb = "'v \<Rightarrow> 'v \<Rightarrow> 's \<Rightarrow> 's \<times> error option"

record ('v, 's) ConfigVar =
  cv_name :: string
  cv_description :: string
  cv_type :: string
  cv_val :: 'v
  cv_cbs :: "(u64 \<times> ('v, 's) on_change_cb) list"

definition ConfigVar_new :: "string \<Rightarrow> 'v \<Rightarrow> string \<Rightarrow> string \<Rightarrow> ('v, 's) ConfigVar" where
  "ConfigVar_new name default_value description T =
     \<lparr>cv_name = map tolower name, cv_description = description, cv_type = T, cv_val = default_value, cv_cbs = []\<rparr>"

text \<open>The loop over the listeners in the order of their keys; an exception or a crash ends it.\<close>

fun notify :: "(u64 \<times> ('v, 's) on_change_cb) list \<Rightarrow> 'v \<Rightarrow> 'v \<Rightarrow> 's \<Rightarrow> 's \<times> error option" where
  "notify [] old new s = (s, None)"
| "notify (kc # kcs) old new s =
     (case snd kc old new s of (s', None) \<Rightarrow> notify kcs old new s' | (s', Some e) \<Rightarrow> (s', Some e))"

definition setValue ::
  "'v \<Rightarrow> ('v, 's) ConfigVar \<Rightarrow> 's \<Rightarrow> (('v, 's) ConfigVar \<times> 's) \<times> error option" where
  "setValue v x s =
     (if v = cv_val x then ((x, s), None)
      else case notify (cv_cbs x) (cv_val x) v s of
             (s', None) \<Rightarrow> ((x\<lparr>cv_val := v\<rparr>, s'), None)
           | (s', Some e) \<Rightarrow> ((x, s'), Some e))"

text \<open>
  \<^verbatim>\<open>fromString\<close>: exceptions of the conversion and of listeners are caught (and logged); the result is
  always false.
\<close>

definition fromString ::
  "(string \<Rightarrow> 'v res) \<Rightarrow> string \<Rightarrow> ('v, 's) ConfigVar \<Rightarrow> 's \<Rightarrow> (bool \<times> ('v, 's) ConfigVar \<times> 's) res" where
  "fromString FromStr val x s =
     (case FromStr val of
        Inl (Throw m) \<Rightarrow> Inr (False, x, s)
      | Inl e \<Rightarrow> Inl e
      | Inr v \<Rightarrow>
          (case setValue v x s of
             (xs, None) \<Rightarrow> Inr (False, xs)
           | (xs, Some (Throw m)) \<Rightarrow> Inr (False, xs)
           | (xs, Some e) \<Rightarrow> Inl e))"

definition toString :: "('v \<Rightarrow> string res) \<Rightarrow> ('v, 's) ConfigVar \<Rightarrow> string res" where
  "toString ToStr x =
     (case ToStr (cv_val x) of Inl (Throw m) \<Rightarrow> Inr [] | Inl e \<Rightarrow> Inl e | Inr str \<Rightarrow> Inr str)"

definition getValue :: "('v, 's) ConfigVar \<Rightarrow> 'v" where
  "getValue x = cv_val x"

text \<open>\<^verbatim>\<open>m_cbs\<close> is a \<^verbatim>\<open>std::map\<close>: sorted by key.\<close>

fun put_cb :: "u64 \<Rightarrow> 'c \<Rightarrow> (u64 \<times> 'c) list \<Rightarrow> (u64 \<times> 'c) list" where
  "put_cb k c [] = [(k, c)]"
| "put_cb k c (kc # kcs) =
     (if k < fst kc then (k, c) # kc # kcs else if k = fst kc then (k, c) # kcs else kc # put_cb k c kcs)"

definition delListener :: "u64 \<Rightarrow> ('v, 's) ConfigVar \<Rightarrow> ('v, 's) ConfigVar" where
  "delListener key x = x\<lparr>cv_cbs := filter (\<lambda>kc. fst kc \<noteq> key) (cv_cbs x)\<rparr>"

definition getListener :: "u64 \<Rightarrow> ('v, 's) ConfigVar \<Rightarrow> ('v, 's) on_change_cb option" where
  "getListener key x = map_of (cv_cbs x) key"

definition clearListener :: "('v, 's) ConfigVar \<Rightarrow> ('v, 's) ConfigVar" where
  "clearListener x = x\<lparr>cv_cbs := []\<rparr>"

section \<open>The registry\<close>

text \<open>
  \<open>s_datas\<close> maps names to variables in the heap \<open>vars\<close>; \<open>s_fun_id\<close> has one counter per type, as the
  static local of \<^verbatim>\<open>addListener\<close> does.
\<close>

record ('v, 's) config =
  s_datas :: "string \<Rightarrow> nat option"
  vars :: "nat \<Rightarrow> ('v, 's) ConfigVar option"
  next_var :: nat
  s_fun_id :: "string \<Rightarrow> u64"

definition addListener ::
  "nat \<Rightarrow> ('v, 's) on_change_cb \<Rightarrow> ('v, 's) config \<Rightarrow> (u64 \<times> ('v, 's) config) res" where
  "addListener p cb c =
     deref ''ConfigVar'' (vars c p) (\<lambda>x.
       let k = s_fun_id c (cv_type x) + 1
       in Inr (k, c\<lparr>s_fun_id := (s_fun_id c)(cv_type x := k),
                    vars := (vars c)(p \<mapsto> x\<lparr>cv_cbs := put_cb k cb (cv_cbs x)\<rparr>)\<rparr>))"

definition lookup_chars :: string where
  "lookup_chars = ''abcdefghigklmnopqrstuvwxyz._012345678''"

definition member_chars :: string where
  "member_chars = ''abcdefghijklmnopqrstuvwxyz._012345678''"

text \<open>\<^verbatim>\<open>Config::Lookup<T>(name, default_value, description)\<close>; a null pointer is \<^term>\<open>None\<close>.\<close>

definition Lookup ::
  "string \<Rightarrow> string \<Rightarrow> 'v \<Rightarrow> string \<Rightarrow> ('v, 's) config \<Rightarrow> (nat option \<times> ('v, 's) config) res" where
  "Lookup T name default_value description c =
     (case s_datas c name of
        Some p \<Rightarrow>
          deref ''ConfigVarBase'' (vars c p) (\<lambda>x. if cv_type x = T then Inr (Some p, c) else Inr (None, c))
      | None \<Rightarrow>
          if \<not> list_all (\<lambda>ch. ch \<in> set lookup_chars) name then Inl (Throw name)
          else let p = next_var c
               in Inr (Some p, c\<lparr>s_datas := (s_datas c)(name \<mapsto> p), next_var := p + 1,
                    vars := (vars c)(p \<mapsto> ConfigVar_new name default_value description T)\<rparr>))"

definition Lookup_name :: "string \<Rightarrow> string \<Rightarrow> ('v, 's) config \<Rightarrow> nat option res" where
  "Lookup_name T name c =
     (case s_datas c name of
        None \<Rightarrow> Inr None
      | Some p \<Rightarrow> deref ''ConfigVarBase'' (vars c p) (\<lambda>x. Inr (if cv_type x = T then Some p else None)))"

definition LookupBase :: "string \<Rightarrow> ('v, 's) config \<Rightarrow> nat option" where
  "LookupBase name c = s_datas c name"

section \<open>Loading a document\<close>

definition key_prefix :: "string \<Rightarrow> string \<Rightarrow> string" where
  "key_prefix prefix k = (if prefix = [] then k else prefix @ ''.'' @ k)"

fun ListAllMember :: "string \<Rightarrow> yaml \<Rightarrow> (string \<times> yaml) list"
  and ListAllMembers :: "string \<Rightarrow> (string \<times> yaml) list \<Rightarrow> (string \<times> yaml) list" where
  "ListAllMember prefix node =
     (if \<not> list_all (\<lambda>ch. ch \<in> set member_chars) prefix then []
      else (prefix, node) # (case node of YMap kvs \<Rightarrow> ListAllMembers prefix kvs | _ \<Rightarrow> []))"
| "ListAllMembers prefix [] = []"
| "ListAllMembers prefix ((k, n) # kvs) = ListAllMember (key_prefix prefix k) n @ ListAllMembers prefix kvs"

definition node_text :: "yaml_cpp \<Rightarrow> yaml \<Rightarrow> string" where
  "node_text Y n = (case n of YScalar str \<Rightarrow> str | _ \<Rightarrow> emit Y n)"

text \<open>One member: the variable of that name, if there is one, gets the text of the node.\<close>

definition load_member ::
  "yaml_cpp \<Rightarrow> (string \<Rightarrow> string \<Rightarrow> 'v res) \<Rightarrow> string \<times> yaml \<Rightarrow> ('v, 's) config \<times> 's \<Rightarrow> (('v, 's) config \<times> 's) res" where
  "load_member Y FromStr kn cs =
     (let (c, s) = cs; key = map tolower (fst kn) in
      if fst kn = [] then Inr cs
      else case LookupBase key c of
             None \<Rightarrow> Inr cs
           | Some p \<Rightarrow>
               deref ''ConfigVarBase'' (vars c p) (\<lambda>x.
                 bind_res (fromString (FromStr (cv_type x)) (node_text Y (snd kn)) x s)
                   (\<lambda>(b, x', s'). Inr (c\<lparr>vars := (vars c)(p \<mapsto> x')\<rparr>, s'))))"

fun load_members ::
  "yaml_cpp \<Rightarrow> (string \<Rightarrow> string \<Rightarrow> 'v res) \<Rightarrow> (string \<times> yaml) list \<Rightarrow> ('v, 's) config \<times> 's \<Rightarrow>
     (('v, 's) config \<times> 's) res" where
  "load_members Y FromStr [] cs = Inr cs"
| "load_members Y FromStr (kn # kns) cs = bind_res (load_member Y FromStr kn cs) (load_members Y FromStr kns)"

definition LoadFromYaml ::
  "yaml_cpp \<Rightarrow> (string \<Rightarrow> string \<Rightarrow> 'v res) \<Rightarrow> yaml \<Rightarrow> ('v, 's) config \<times> 's \<Rightarrow> (('v, 's) config \<times> 's) res" where
  "LoadFromYaml Y FromStr root cs = load_members Y FromStr (ListAllMember [] root) cs"

text \<open>\<^verbatim>\<open>Visit\<close> passes every variable to the function, in the order \<open>names\<close> of the hash table.\<close>

definition Visit :: "string list \<Rightarrow> (('v, 's) ConfigVar \<Rightarrow> 's \<Rightarrow> 's) \<Rightarrow> ('v, 's) config \<Rightarrow> 's \<Rightarrow> 's" where
  "Visit names cb c s =
     fold (\<lambda>name s'. case Option.bind (s_datas c name) (vars c) of None \<Rightarrow> s' | Some x \<Rightarrow> cb x s') names s"

end
