(* ===== verification/Duan_Config_Properties.thy ===== *)
theory Duan_Config_Properties
  imports Duan_Config Name_Table
begin

text \<open>
  Properties of the configuration module: round trips of the conversions, listeners, the registry, and
  what loading a document does.
\<close>

section \<open>Conversions\<close>

lemma mapM_Inr:
  assumes "\<And>x. x \<in> set xs \<Longrightarrow> f x = Inr (g x)"
  shows "mapM f xs = Inr (map g xs)"
  using assms by (induction xs) auto

definition seq_node :: "yaml list \<Rightarrow> yaml" where
  "seq_node ns = (if ns = [] then YNull else YSeq ns)"

definition map_node :: "(string \<times> yaml) list \<Rightarrow> yaml" where
  "map_node kns = (if kns = [] then YNull else YMap kns)"

lemma foldl_push_back: "foldl push_back (YSeq ns) ms = YSeq (ns @ ms)"
  by (induction ms arbitrary: ns) auto

lemma foldl_push_back_YNull: "foldl push_back YNull ns = seq_node ns"
  by (cases ns) (auto simp: seq_node_def foldl_push_back)

lemma update_key_new: "k \<notin> fst ` set kvs \<Longrightarrow> update_key k n kvs = kvs @ [(k, n)]"
  by (induction kvs) auto

lemma foldl_set_key:
  "distinct (map fst (kvs @ kns)) \<Longrightarrow> foldl (\<lambda>n kn. set_key n (fst kn) (snd kn)) (YMap kvs) kns = YMap (kvs @ kns)"
proof (induction kns arbitrary: kvs)
  case (Cons kn kns)
  then have "fst kn \<notin> fst ` set kvs" by auto
  with Cons.IH [of "kvs @ [kn]"] Cons.prems show ?case by (simp add: update_key_new)
qed simp

lemma foldl_set_key_YNull:
  "distinct (map fst kns) \<Longrightarrow> foldl (\<lambda>n kn. set_key n (fst kn) (snd kn)) YNull kns = map_node kns"
  using foldl_set_key [of "[hd kns]" "tl kns"] by (cases kns) (auto simp: map_node_def)

lemma elements_from_seq_node:
  assumes "yaml_access_ok Y" and "reads_back Y (seq_node (map nd xs))"
    and "\<forall>x\<in>set xs. cast (emit Y (nd x)) = Inr x"
  shows "elements_from Y cast (emit Y (seq_node (map nd xs))) = Inr xs"
proof -
  let ?n = "seq_node (map nd xs)"
  have "mapM (\<lambda>i. cast (emit Y (at_index Y ?n i))) [0..<ysize ?n] = Inr (map (\<lambda>i. xs ! i) [0..<ysize ?n])"
  proof (rule mapM_Inr)
    fix i
    assume "i \<in> set [0..<ysize ?n]"
    then have "i < length xs" and "?n = YSeq (map nd xs)" by (auto simp: seq_node_def split: if_splits)
    with assms show "cast (emit Y (at_index Y ?n i)) = Inr (xs ! i)" by (simp add: yaml_access_ok_def)
  qed
  moreover have "ysize ?n = length xs" by (simp add: seq_node_def)
  ultimately show ?thesis using assms(2) by (simp add: elements_from_def reads_back_def map_nth)
qed

lemma insert_ascending:
  assumes "sorted_wrt lt (s @ [x])" and "\<And>y. \<not> lt y y"
  shows "snd (set_insert lt x s) = s @ [x]"
proof -
  have "takeWhile (\<lambda>y. lt y x) s = s" using assms(1) by (auto simp: sorted_wrt_append)
  then have "lower_bound lt x s = length s" by (metis lower_bound_def)
  then show ?thesis by (simp add: set_insert_def)
qed

lemma fold_insert_ascending:
  assumes "\<And>y. \<not> lt y y" and "sorted_wrt lt (s @ xs)"
  shows "fold (\<lambda>x s. snd (set_insert lt x s)) xs s = s @ xs"
  using assms(2)
proof (induction xs arbitrary: s)
  case (Cons x xs)
  then have "sorted_wrt lt (s @ [x])" by (auto simp: sorted_wrt_append)
  with Cons.IH [of "s @ [x]"] Cons.prems show ?case by (simp add: insert_ascending assms(1))
qed simp

text \<open>
  Containers survive being written and read. Let every element be converted to text that yaml-cpp
  reads as some node, and back from that node; and let the whole node read back. Then a vector, a list,
  a set (with its strict order) and an unordered set are read back as they were written, the empty one
  included.
\<close>

theorem sequence_roundtrip:
  assumes "yaml_access_ok Y" and "reads_back Y (seq_node (map nd xs))"
    and "\<forall>x\<in>set xs. bind_res (to_str x) (Load Y) = Inr (nd x) \<and> from_str (emit Y (nd x)) = Inr x"
    and "\<forall>y. \<not> lt y y"
  shows "\<exists>str. vector_to Y to_str xs = Inr str \<and> vector_from Y from_str str = Inr xs \<and>
    list_to Y to_str xs = Inr str \<and> list_from Y from_str str = Inr xs \<and>
    unordered_set_to Y to_str xs = Inr str \<and> unordered_set_from Y from_str str = Inr (set xs) \<and>
    set_to Y to_str xs = Inr str \<and> (sorted_wrt lt xs \<longrightarrow> set_from lt Y from_str str = Inr xs)"
proof -
  have "mapM (\<lambda>x. bind_res (to_str x) (Load Y)) xs = Inr (map nd xs)" by (rule mapM_Inr) (use assms(3) in blast)
  then have "sequence_to Y to_str xs = Inr (emit Y (seq_node (map nd xs)))"
    by (simp add: sequence_to_def foldl_push_back_YNull)
  moreover have "elements_from Y from_str (emit Y (seq_node (map nd xs))) = Inr xs"
    using elements_from_seq_node [OF assms(1,2)] assms(3) by blast
  ultimately show ?thesis
    using fold_insert_ascending [of lt "[]" xs] assms(4)
    by (simp add: vector_from_def list_from_def unordered_set_from_def set_from_def vector_to_def list_to_def
      set_to_def unordered_set_to_def)
qed

text \<open>A yaml-cpp that knows the texts of one document, for the witnesses.\<close>

definition demo_yaml :: "(string \<times> yaml) list \<Rightarrow> yaml_cpp" where
  "demo_yaml texts =
     \<lparr>Load = \<lambda>str. case map_of texts str of None \<Rightarrow> Inl (Throw ''bad yaml'') | Some n \<Rightarrow> Inr n,
      emit = \<lambda>n. case find (\<lambda>t. snd t = n) texts of None \<Rightarrow> [] | Some t \<Rightarrow> fst t,
      at_index = \<lambda>n i. case n of YSeq ns \<Rightarrow> ns ! i | _ \<Rightarrow> YNull,
      at_key = \<lambda>n k. case n of YMap kvs \<Rightarrow> Inr (map_of kvs k) | _ \<Rightarrow> Inl (Throw ''bad subscript''),
      as_string = \<lambda>n. case n of YScalar s \<Rightarrow> Inr s | _ \<Rightarrow> Inl (Throw ''bad conversion'')\<rparr>"

lemma demo_yaml_ok: "yaml_access_ok (demo_yaml texts)"
  by (simp add: yaml_access_ok_def demo_yaml_def)

definition demo_seq :: yaml_cpp where
  "demo_seq = demo_yaml [(''a'', YScalar ''a''), (''b'', YScalar ''b''), (''[a, b]'', YSeq [YScalar ''a'', YScalar ''b''])]"

theorem sequence_roundtrip_witness:
  "\<exists>str. vector_to demo_seq Inr [''a'', ''b''] = Inr str \<and> vector_from demo_seq Inr str = Inr [''a'', ''b''] \<and>
    unordered_set_from demo_seq Inr str = Inr {''a'', ''b''} \<and>
    set_from (\<lambda>x y. x = ''a'' \<and> y = ''b'') demo_seq Inr str = Inr [''a'', ''b'']"
  using sequence_roundtrip [of demo_seq YScalar "[''a'', ''b'']" Inr Inr "\<lambda>x y. x = ''a'' \<and> y = ''b''"]
  by (simp add: demo_seq_def demo_yaml_ok) (auto simp: demo_yaml_def reads_back_def seq_node_def)

lemma insert_first_map_of: "insert_first kxs m = map_of kxs ++ m"
proof (induction kxs m rule: insert_first.induct)
  case (2 k x kxs m)
  then have "insert_first ((k, x) # kxs) m = map_of kxs ++ (if m k = None then m(k \<mapsto> x) else m)" by simp
  also have "\<dots> = map_of ((k, x) # kxs) ++ m"
    by (rule ext) (auto simp: map_add_def split: option.split)
  finally show ?case .
qed simp

text \<open>Maps with distinct keys are read back as they were written, too.\<close>

theorem mapping_roundtrip:
  assumes "distinct (map fst kxs)" and "reads_back Y (map_node (map (\<lambda>kx. (fst kx, nd (snd kx))) kxs))"
    and "\<forall>kx\<in>set kxs. bind_res (to_str (snd kx)) (Load Y) = Inr (nd (snd kx)) \<and> from_str (emit Y (nd (snd kx))) = Inr (snd kx)"
  shows "\<exists>str. map_to Y to_str kxs = Inr str \<and> map_from Y from_str str = Inr (map_of kxs) \<and>
    unordered_map_to Y to_str kxs = Inr str \<and> unordered_map_from Y from_str str = Inr (map_of kxs)"
proof -
  let ?kns = "map (\<lambda>kx. (fst kx, nd (snd kx))) kxs"
  have "mapM (\<lambda>kx. bind_res (bind_res (to_str (snd kx)) (Load Y)) (\<lambda>n. Inr (fst kx, n))) kxs = Inr ?kns"
    by (rule mapM_Inr) (use assms(3) in simp)
  moreover have "distinct (map fst ?kns)" using assms(1) by (simp add: comp_def)
  ultimately have "mapping_to Y to_str kxs = Inr (emit Y (map_node ?kns))"
    by (simp add: mapping_to_def foldl_set_key_YNull)
  moreover have "pairs (map_node ?kns) = ?kns" by (simp add: map_node_def)
  moreover have "mapM (\<lambda>kn. bind_res (from_str (emit Y (snd kn))) (\<lambda>x. Inr (fst kn, x))) ?kns = Inr kxs"
    using assms(3) by (induction kxs) auto
  ultimately show ?thesis
    using assms(2) by (simp add: map_from_def unordered_map_from_def map_to_def unordered_map_to_def reads_back_def
      insert_first_map_of)
qed

section \<open>Listeners\<close>

text \<open>
  Setting a variable. The same value again notifies nobody and changes nothing. A new value is
  passed, with the old one, to every listener once, in the order of their keys; only when all of them have
  returned is the value stored. A listener that throws ends the notification and leaves the old value.
\<close>

theorem setValue_notifies:
  "(v = cv_val x \<longrightarrow> setValue v x s = ((x, s), None)) \<and>
   (v \<noteq> cv_val x \<longrightarrow> (\<forall>k cb. (k, cb) \<in> set (cv_cbs x) \<longrightarrow> (\<forall>s. snd (cb (cv_val x) v s) = None)) \<longrightarrow>
      setValue v x s = ((x\<lparr>cv_val := v\<rparr>, fold (\<lambda>kc s. fst (snd kc (cv_val x) v s)) (cv_cbs x) s), None)) \<and>
   (v \<noteq> cv_val x \<longrightarrow> snd (setValue v x s) \<noteq> None \<longrightarrow> fst (fst (setValue v x s)) = x)"
proof -
  have "notify kcs (cv_val x) v s = (fold (\<lambda>kc s. fst (snd kc (cv_val x) v s)) kcs s, None)"
    if "\<forall>k cb. (k, cb) \<in> set kcs \<longrightarrow> (\<forall>s. snd (cb (cv_val x) v s) = None)"
    for kcs :: "(u64 \<times> ('a, 'b) on_change_cb) list" and s :: 'b
    using that
  proof (induction kcs arbitrary: s)
    case (Cons kc kcs)
    then have "snd (snd kc (cv_val x) v s) = None" by (cases kc) auto
    with Cons show ?case by (auto simp: case_prod_beta split: prod.splits)
  qed simp
  then show ?thesis by (auto simp: setValue_def split: prod.splits option.splits)
qed

theorem setValue_notifies_witness:
  "setValue (2 :: int) \<lparr>cv_name = ''a'', cv_description = [], cv_type = ''i'', cv_val = 1,
      cv_cbs = [(1, \<lambda>old new s. (s @ [old, new], None)), (2, \<lambda>old new s. (s @ [new], None))]\<rparr> [] =
    ((\<lparr>cv_name = ''a'', cv_description = [], cv_type = ''i'', cv_val = 2,
       cv_cbs = [(1, \<lambda>old new s. (s @ [old, new], None)), (2, \<lambda>old new s. (s @ [new], None))]\<rparr>, [1, 2, 2]), None)"
  using setValue_notifies [of 2 "\<lparr>cv_name = ''a'', cv_description = [], cv_type = ''i'', cv_val = 1 :: int,
      cv_cbs = [(1, \<lambda>old new s. (s @ [old, new], None)), (2, \<lambda>old new s. (s @ [new], None))]\<rparr>" "[]"]
  by auto

section \<open>The registry\<close>

text \<open>
  Names and variables correspond one to one, every registered name passed the test of its characters, and
  the free addresses are free.
\<close>

definition config_wf :: "('v, 's) config \<Rightarrow> bool" where
  "config_wf c \<longleftrightarrow>
     (\<forall>name p. s_datas c name = Some p \<longrightarrow>
        (\<exists>x. vars c p = Some x \<and> cv_name x = name) \<and> list_all (\<lambda>ch. ch \<in> set lookup_chars) name) \<and>
     (\<forall>p x. vars c p = Some x \<longrightarrow> s_datas c (cv_name x) = Some p \<and> p < next_var c)"

definition config_empty :: "('v, 's) config" where
  "config_empty = \<lparr>s_datas = Map.empty, vars = Map.empty, next_var = 0, s_fun_id = \<lambda>T. 0\<rparr>"

lemma config_empty_wf: "config_wf config_empty"
  by (simp add: config_wf_def config_empty_def)

lemma tolower_chars: "ch \<in> set lookup_chars \<union> set member_chars \<Longrightarrow> tolower ch = ch"
  unfolding lookup_chars_def member_chars_def by (auto simp: tolower_def)

lemma tolower_name:
  "list_all (\<lambda>ch. ch \<in> set lookup_chars) name \<Longrightarrow> map tolower name = name"
  "list_all (\<lambda>ch. ch \<in> set member_chars) name \<Longrightarrow> map tolower name = name"
  by (auto simp: list_all_iff tolower_chars intro: map_idI)

lemma config_wfD:
  assumes "config_wf c"
  shows "s_datas c name = Some p \<Longrightarrow> \<exists>x. vars c p = Some x \<and> cv_name x = name"
    and "s_datas c name = Some p \<Longrightarrow> list_all (\<lambda>ch. ch \<in> set lookup_chars) name"
    and "vars c p = Some x \<Longrightarrow> s_datas c (cv_name x) = Some p"
    and "vars c p = Some x \<Longrightarrow> p < next_var c"
  using assms by (auto simp: config_wf_def)

text \<open>The registry with a new variable, and the cases of \<^verbatim>\<open>Lookup\<close>.\<close>

definition with_var :: "string \<Rightarrow> string \<Rightarrow> 'v \<Rightarrow> string \<Rightarrow> ('v, 's) config \<Rightarrow> ('v, 's) config" where
  "with_var T name d desc c =
     c\<lparr>s_datas := (s_datas c)(name \<mapsto> next_var c), next_var := next_var c + 1,
       vars := (vars c)(next_var c \<mapsto> ConfigVar_new name d desc T)\<rparr>"

lemma with_var_sel [simp]:
  "s_datas (with_var T name d desc c) = (s_datas c)(name \<mapsto> next_var c)"
  "vars (with_var T name d desc c) = (vars c)(next_var c \<mapsto> ConfigVar_new name d desc T)"
  "next_var (with_var T name d desc c) = next_var c + 1"
  by (simp_all add: with_var_def)

lemma Lookup_cases:
  assumes "config_wf c"
  obtains (same) p x where "s_datas c name = Some p" "vars c p = Some x" "cv_name x = name" "cv_type x = T"
      "Lookup T name d desc c = Inr (Some p, c)"
  | (other) p x where "s_datas c name = Some p" "vars c p = Some x" "cv_type x \<noteq> T"
      "Lookup T name d desc c = Inr (None, c)"
  | (invalid) "s_datas c name = None" "\<not> list_all (\<lambda>ch. ch \<in> set lookup_chars) name"
      "Lookup T name d desc c = Inl (Throw name)"
  | (fresh) "s_datas c name = None" "list_all (\<lambda>ch. ch \<in> set lookup_chars) name"
      "Lookup T name d desc c = Inr (Some (next_var c), with_var T name d desc c)"
proof (cases "s_datas c name")
  case None
  then show ?thesis
    using that(3,4) by (cases "list_all (\<lambda>ch. ch \<in> set lookup_chars) name") (simp_all add: Lookup_def Let_def with_var_def)
next
  case (Some p)
  with config_wfD(1) [OF assms] obtain x where "vars c p = Some x" "cv_name x = name" by blast
  with Some show ?thesis using that(1,2) by (cases "cv_type x = T") (simp_all add: Lookup_def)
qed

lemma fresh_wf:
  assumes "config_wf c" and "s_datas c name = None" and "list_all (\<lambda>ch. ch \<in> set lookup_chars) name"
  shows "config_wf (with_var T name d desc c)"
proof -
  have "cv_name (ConfigVar_new name d desc T) = name" by (simp add: ConfigVar_new_def tolower_name assms(3))
  moreover have "vars c (next_var c) = None"
    using config_wfD(4) [OF assms(1), of "next_var c"] by (cases "vars c (next_var c)") auto
  moreover have "p \<noteq> next_var c" if "s_datas c n = Some p" for n p
    using config_wfD(1) [OF assms(1) that] config_wfD(4) [OF assms(1)] by blast
  ultimately show ?thesis using assms by (auto simp: config_wf_def less_Suc_eq split: if_splits)
qed

lemma Lookup_wf:
  assumes "config_wf c" and "Lookup T name d desc c = Inr (r, c')"
  shows "config_wf c'"
  by (cases rule: Lookup_cases [OF assms(1), of name T d desc]) (use assms in \<open>auto simp: fresh_wf\<close>)

definition lookup_get :: "string \<Rightarrow> 'v \<Rightarrow> string \<Rightarrow> string \<Rightarrow> ('v, 's) config \<Rightarrow> (nat \<times> ('v, 's) config) option" where
  "lookup_get T d desc name c = (case Lookup T name d desc c of Inr (Some p, c') \<Rightarrow> Some (p, c') | _ \<Rightarrow> None)"

lemma lookup_get_iff: "lookup_get T d desc name c = Some (p, c') \<longleftrightarrow> Lookup T name d desc c = Inr (Some p, c')"
  by (auto simp: lookup_get_def split: sum.splits prod.splits option.splits)

interpretation config_table: name_table config_wf s_datas "lookup_get T d desc"
proof
  fix c c' :: "('a, 'b) config" and n m :: string and p q
  assume wf: "config_wf c"
  show "n = m" if "s_datas c n = Some p" "s_datas c m = Some p"
    using config_wfD(1) [OF wf that(1)] config_wfD(1) [OF wf that(2)] by auto
  assume "lookup_get T d desc n c = Some (p, c')"
  then have L: "Lookup T n d desc c = Inr (Some p, c')" by (simp add: lookup_get_iff)
  show "config_wf c'" by (rule Lookup_wf [OF wf L])
  show "s_datas c' n = Some p" using L by (cases rule: Lookup_cases [OF wf, of n T d desc]) auto
  show "s_datas c' m = s_datas c m" if "m \<noteq> n" using L that by (cases rule: Lookup_cases [OF wf, of n T d desc]) auto
  show "p = q \<and> c' = c" if "s_datas c n = Some q" using L that by (cases rule: Lookup_cases [OF wf, of n T d desc]) auto
qed

text \<open>
  The registry of variables. A lookup with a default either throws, exactly when the name is unknown
  and has a character outside the accepted ones, or returns null, exactly when the name is taken by
  another type, or returns the variable of that name. A variable that exists is returned with its value, the
  default is ignored, and after any further lookups of other variables the same name gives
  the same variable; different names give different variables.
\<close>

theorem Lookup_registry:
  fixes c :: "('v, 's) config"
  assumes "config_wf c"
  shows "((\<exists>e. Lookup T name d desc c = Inl e) \<longleftrightarrow>
      s_datas c name = None \<and> \<not> list_all (\<lambda>ch. ch \<in> set lookup_chars) name) \<and>
    (\<forall>p c'. Lookup T name d desc c = Inr (Some p, c') \<longrightarrow>
      config_wf c' \<and> Lookup_name T name c' = Inr (Some p) \<and>
      (s_datas c name = Some p \<longrightarrow> c' = c) \<and>
      (s_datas c name = None \<longrightarrow> map_option cv_val (vars c' p) = Some d) \<and>
      (\<forall>name' d' desc' q u. name' \<noteq> name \<longrightarrow> Lookup T name' d' desc' c' = Inr (Some q, u) \<longrightarrow>
         q \<noteq> p \<and> Lookup T name d desc u = Inr (Some p, u)))"
proof (intro conjI allI impI)
  show "(\<exists>e. Lookup T name d desc c = Inl e) \<longleftrightarrow>
      s_datas c name = None \<and> \<not> list_all (\<lambda>ch. ch \<in> set lookup_chars) name"
    by (rule Lookup_cases [OF assms, of name T d desc]) auto
  fix p and c' :: "('v, 's) config"
  assume L: "Lookup T name d desc c = Inr (Some p, c')"
  show wf: "config_wf c'" by (rule Lookup_wf [OF assms L])
  have reg: "s_datas c' name = Some p \<and> map_option cv_type (vars c' p) = Some T"
    using L by (cases rule: Lookup_cases [OF assms, of name T d desc]) (auto simp: ConfigVar_new_def)
  then show "Lookup_name T name c' = Inr (Some p)" by (auto simp: Lookup_name_def)
  show "c' = c" if "s_datas c name = Some p"
    using L that by (cases rule: Lookup_cases [OF assms, of name T d desc]) auto
  show "map_option cv_val (vars c' p) = Some d" if "s_datas c name = None"
    using L that by (cases rule: Lookup_cases [OF assms, of name T d desc]) (auto simp: ConfigVar_new_def)
  fix name' d' desc' q and u :: "('v, 's) config"
  assume "name' \<noteq> name" and L': "Lookup T name' d' desc' c' = Inr (Some q, u)"
  have tab: "s_datas u name = Some p" "s_datas u name' = Some q"
    using config_table.get_tab [OF wf, of T d' desc' name' q u] config_table.get_keeps [OF wf, of T d' desc' name' q u name p]
      reg L' by (auto simp: lookup_get_iff)
  then show "q \<noteq> p" using config_table.tab_inj [OF Lookup_wf [OF wf L']] \<open>name' \<noteq> name\<close> by blast
  have "map_option cv_type (vars u p) = Some T"
    using L' reg tab \<open>q \<noteq> p\<close> by (cases rule: Lookup_cases [OF wf, of name' T d' desc']) auto
  then show "Lookup T name d desc u = Inr (Some p, u)" using tab(1) by (auto simp: Lookup_def)
qed

theorem Lookup_registry_witness:
  "(\<exists>e. Lookup ''i'' ''jobs'' (1 :: int) [] (config_empty :: (int, unit) config) = Inl e) \<and>
   (\<exists>p c'. Lookup ''i'' ''tcp.connect.timeout'' (5000 :: int) [] (config_empty :: (int, unit) config) = Inr (Some p, c') \<and>
      Lookup_name ''i'' ''tcp.connect.timeout'' c' = Inr (Some p))"
proof -
  have "\<not> list_all (\<lambda>ch. ch \<in> set lookup_chars) ''jobs''" "s_datas (config_empty :: (int, unit) config) ''jobs'' = None"
    by (simp_all add: lookup_chars_def config_empty_def)
  then have "\<exists>e. Lookup ''i'' ''jobs'' (1 :: int) [] (config_empty :: (int, unit) config) = Inl e"
    using Lookup_registry [OF config_empty_wf, of "''i''" "''jobs''" 1 "[]"] by blast
  moreover have "list_all (\<lambda>ch. ch \<in> set lookup_chars) ''tcp.connect.timeout''" by (simp add: lookup_chars_def)
  then have "\<exists>p c'. Lookup ''i'' ''tcp.connect.timeout'' (5000 :: int) [] (config_empty :: (int, unit) config) = Inr (Some p, c')"
    by (simp add: Lookup_def config_empty_def)
  ultimately show ?thesis
    using Lookup_registry [OF config_empty_wf, of "''i''" "''tcp.connect.timeout''" 5000 "[]"] by blast
qed

section \<open>Loading a document\<close>

text \<open>The reference definition of the members of a document: the nodes at the paths through its maps.\<close>

fun has_path :: "yaml \<Rightarrow> string list \<Rightarrow> yaml \<Rightarrow> bool" where
  "has_path node [] n \<longleftrightarrow> n = node"
| "has_path node (k # ks) n \<longleftrightarrow> (\<exists>m. (k, m) \<in> set (pairs node) \<and> has_path m ks n)"

definition member_name :: "string \<Rightarrow> bool" where
  "member_name name \<longleftrightarrow> list_all (\<lambda>ch. ch \<in> set member_chars) name"

lemma set_path_prefix: "set prefix \<subseteq> set (foldl key_prefix prefix path)"
proof (induction path arbitrary: prefix)
  case (Cons k path)
  have "set prefix \<subseteq> set (key_prefix prefix k)" by (auto simp: key_prefix_def)
  with Cons.IH [of "key_prefix prefix k"] show ?case by simp
qed simp

lemma member_name_prefix: "member_name (foldl key_prefix prefix path) \<Longrightarrow> member_name prefix"
  using set_path_prefix [of prefix path] by (auto simp: member_name_def list_all_iff)

lemma ListAllMember_pairs:
  "ListAllMember prefix node = (if member_name prefix then (prefix, node) # ListAllMembers prefix (pairs node) else [])"
  by (cases node) (simp_all add: member_name_def)

declare ListAllMember.simps [simp del]

lemma members_iff:
  "(name, n) \<in> set (ListAllMember prefix node) \<longleftrightarrow>
     (\<exists>path. has_path node path n \<and> name = foldl key_prefix prefix path \<and> member_name name)"
  "(name, n) \<in> set (ListAllMembers prefix kvs) \<longleftrightarrow>
     (\<exists>k m path. (k, m) \<in> set kvs \<and> has_path m path n \<and>
        name = foldl key_prefix prefix (k # path) \<and> member_name name)"
proof (induction prefix node and prefix kvs rule: ListAllMember_ListAllMembers.induct)
  case (1 prefix node)
  have sub: "(name, n) \<in> set (ListAllMembers prefix (pairs node)) \<longleftrightarrow>
      (\<exists>k m path. (k, m) \<in> set (pairs node) \<and> has_path m path n \<and>
         name = foldl key_prefix prefix (k # path) \<and> member_name name)" if "member_name prefix"
    using 1 that by (cases node) (auto simp: member_name_def)
  show ?case
  proof (cases "member_name prefix")
    case True
    have "(\<exists>path. has_path node path n \<and> name = foldl key_prefix prefix path \<and> member_name name) \<longleftrightarrow>
      name = prefix \<and> n = node \<or> (\<exists>k m path. (k, m) \<in> set (pairs node) \<and> has_path m path n \<and>
         name = foldl key_prefix prefix (k # path) \<and> member_name name)" (is "?L \<longleftrightarrow> ?R")
    proof
      assume ?L
      then obtain path where "has_path node path n" "name = foldl key_prefix prefix path" "member_name name" by blast
      then show ?R by (cases path) auto
    next
      assume ?R
      then show ?L
      proof
        assume "name = prefix \<and> n = node"
        with True show ?L by (intro exI [of _ "[]"]) simp
      next
        assume "\<exists>k m path. (k, m) \<in> set (pairs node) \<and> has_path m path n \<and>
         name = foldl key_prefix prefix (k # path) \<and> member_name name"
        then show ?L by (metis has_path.simps(2))
      qed
    qed
    with True sub [OF True] show ?thesis by (simp add: ListAllMember_pairs)
  next
    case False
    then show ?thesis using member_name_prefix by (auto simp: ListAllMember_pairs)
  qed
next
  case (3 prefix k n' kvs)
  then show ?case by simp blast
qed simp

text \<open>
  C35. The flattened list of members that loading a document works on is right: a name with a node is in it
  exactly when the node is found by following keys through nested maps, the name is those keys joined by
  dots, and all its characters are accepted. In particular members with an upper-case letter or the digit
  9 anywhere in their path are skipped, although the names are converted to lower case afterwards.
\<close>

theorem ListAllMember_paths:
  "(name, n) \<in> set (ListAllMember [] root) \<longleftrightarrow>
     (\<exists>path. has_path root path n \<and> name = foldl key_prefix [] path \<and> member_name name)"
  by (rule members_iff(1))

text \<open>The value a variable has after the members, in order: the texts that convert replace it.\<close>

definition loaded :: "yaml_cpp \<Rightarrow> (string \<Rightarrow> string \<Rightarrow> 'v res) \<Rightarrow> (string \<times> yaml) list \<Rightarrow> ('v, 's) ConfigVar \<Rightarrow> 'v" where
  "loaded Y F kns x =
     fold (\<lambda>kn v. if fst kn = cv_name x \<and> fst kn \<noteq> []
                  then case F (cv_type x) (node_text Y (snd kn)) of Inl e \<Rightarrow> v | Inr w \<Rightarrow> w
                  else v) kns (cv_val x)"

text \<open>The variables of these names have only listeners that return.\<close>

definition quiet_on :: "string set \<Rightarrow> ('v, 's) config \<Rightarrow> bool" where
  "quiet_on names c \<longleftrightarrow>
     (\<forall>p x. vars c p = Some x \<longrightarrow> cv_name x \<in> names \<longrightarrow>
        (\<forall>kc\<in>set (cv_cbs x). \<forall>old new s. snd (snd kc old new s) = None))"

definition with_values :: "(('v, 's) ConfigVar \<Rightarrow> 'v) \<Rightarrow> ('v, 's) config \<Rightarrow> ('v, 's) config" where
  "with_values f c = c\<lparr>vars := \<lambda>p. map_option (\<lambda>x. x\<lparr>cv_val := f x\<rparr>) (vars c p)\<rparr>"

lemma with_values_wf: "config_wf c \<Longrightarrow> config_wf (with_values f c)"
  by (fastforce simp: config_wf_def with_values_def)

lemma with_values_quiet: "quiet_on N c \<Longrightarrow> quiet_on N (with_values f c)"
  by (fastforce simp: quiet_on_def with_values_def)

lemma notify_quiet:
  "\<forall>kc\<in>set kcs. \<forall>old new s. snd (snd kc old new s) = None \<Longrightarrow> snd (notify kcs old new s) = None"
  by (induction kcs arbitrary: s) (auto simp: case_prod_beta split: prod.splits option.splits)

lemma fromString_quiet:
  assumes "\<forall>kc\<in>set (cv_cbs x). \<forall>old new s. snd (snd kc old new s) = None"
    and "\<forall>e. F str = Inl e \<longrightarrow> (\<exists>m. e = Throw m)"
  shows "\<exists>s'. fromString F str x s =
    Inr (False, x\<lparr>cv_val := case F str of Inl e \<Rightarrow> cv_val x | Inr w \<Rightarrow> w\<rparr>, s')"
proof (cases "F str")
  case (Inl e)
  with assms(2) show ?thesis by (auto simp: fromString_def)
next
  case (Inr w)
  obtain s' e where n: "notify (cv_cbs x) (cv_val x) w s = (s', e)" by fastforce
  then have "e = None" using notify_quiet [OF assms(1), of "cv_val x" w s] by simp
  with Inr n show ?thesis by (auto simp: fromString_def setValue_def)
qed

lemma load_member_effect:
  assumes wf: "config_wf c" and q: "quiet_on N c" "fst kn \<in> N" and F: "\<forall>T str e. F T str = Inl e \<longrightarrow> (\<exists>m. e = Throw m)"
    and lower: "map tolower (fst kn) = fst kn"
  shows "\<exists>s'. load_member Y F kn (c, s) = Inr (with_values (loaded Y F [kn]) c, s')"
proof (cases "fst kn = [] \<or> s_datas c (fst kn) = None")
  case True
  have "with_values (loaded Y F [kn]) c = c"
  proof -
    have "map_option (\<lambda>x. x\<lparr>cv_val := loaded Y F [kn] x\<rparr>) (vars c p) = vars c p" for p
      using True config_wfD(3) [OF wf, of p] by (cases "vars c p") (auto simp: loaded_def)
    then show ?thesis by (simp add: with_values_def)
  qed
  with True lower show ?thesis by (auto simp: load_member_def LookupBase_def)
next
  case False
  then obtain p where p: "s_datas c (fst kn) = Some p" by auto
  then obtain x where x: "vars c p = Some x" "cv_name x = fst kn" using config_wfD(1) [OF wf] by blast
  let ?x = "x\<lparr>cv_val := loaded Y F [kn] x\<rparr>"
  obtain s' where "fromString (F (cv_type x)) (node_text Y (snd kn)) x s = Inr (False, ?x, s')"
    using fromString_quiet [of x "F (cv_type x)" "node_text Y (snd kn)" s] q F x False
    by (auto simp: quiet_on_def loaded_def)
  then have "load_member Y F kn (c, s) = Inr (c\<lparr>vars := (vars c)(p \<mapsto> ?x)\<rparr>, s')"
    using False p x lower by (simp add: load_member_def LookupBase_def)
  moreover have "(vars c)(p \<mapsto> ?x) = (\<lambda>q. map_option (\<lambda>x. x\<lparr>cv_val := loaded Y F [kn] x\<rparr>) (vars c q))"
  proof
    fix q
    show "((vars c)(p \<mapsto> ?x)) q = map_option (\<lambda>x. x\<lparr>cv_val := loaded Y F [kn] x\<rparr>) (vars c q)"
    proof (cases "q = p")
      case False
      have "cv_name y \<noteq> fst kn" if "vars c q = Some y" for y
        using config_wfD(3) [OF wf that] p False by auto
      with False show ?thesis by (cases "vars c q") (auto simp: loaded_def)
    qed (simp add: x)
  qed
  ultimately show ?thesis by (simp add: with_values_def)
qed

lemma with_values_loaded: "with_values (loaded Y F kns) (with_values (loaded Y F [kn]) c) = with_values (loaded Y F (kn # kns)) c"
  by (simp add: with_values_def loaded_def option.map_comp comp_def cong: if_cong)

lemma load_members_effect:
  assumes "config_wf c" and "quiet_on N c" and F: "\<forall>T str e. F T str = Inl e \<longrightarrow> (\<exists>m. e = Throw m)"
    and "\<forall>kn\<in>set kns. fst kn \<in> N \<and> map tolower (fst kn) = fst kn"
  shows "\<exists>s'. load_members Y F kns (c, s) = Inr (with_values (loaded Y F kns) c, s')"
  using assms(1,2,4)
proof (induction kns arbitrary: c s)
  case Nil
  have "map_option (\<lambda>x. x\<lparr>cv_val := cv_val x\<rparr>) y = y" for y :: "('a, 'b) ConfigVar option" by (cases y) auto
  then show ?case by (simp add: with_values_def loaded_def)
next
  case (Cons kn kns)
  obtain s1 where "load_member Y F kn (c, s) = Inr (with_values (loaded Y F [kn]) c, s1)"
    using load_member_effect [OF Cons.prems(1,2) _ F, of kn Y s] Cons.prems(3) by auto
  moreover obtain s' where "load_members Y F kns (with_values (loaded Y F [kn]) c, s1) =
      Inr (with_values (loaded Y F (kn # kns)) c, s')"
    using Cons.IH [OF with_values_wf [OF Cons.prems(1)] with_values_quiet [OF Cons.prems(2)], of "loaded Y F [kn]" s1]
      Cons.prems(3) with_values_loaded [of Y F kns kn c] by auto
  ultimately show ?case by auto
qed

lemma LoadFromYaml_effect:
  assumes "config_wf c" and "quiet_on (fst ` set (ListAllMember [] root)) c"
    and "\<forall>T str e. F T str = Inl e \<longrightarrow> (\<exists>m. e = Throw m)"
  shows "\<exists>s'. LoadFromYaml Y F root (c, s) = Inr (with_values (loaded Y F (ListAllMember [] root)) c, s')"
proof -
  have "\<forall>kn\<in>set (ListAllMember [] root). fst kn \<in> fst ` set (ListAllMember [] root) \<and> map tolower (fst kn) = fst kn"
    using tolower_name(2) by (auto simp: members_iff member_name_def)
  from load_members_effect [OF assms this, of Y s] show ?thesis by (auto simp: LoadFromYaml_def)
qed


definition demo_config :: "(int, unit) config" where
  "demo_config = with_var ''i'' ''tcp.connect.timeout'' 5000 [] (with_var ''i'' ''fiber.size'' 1 [] config_empty)"

definition demo_document :: yaml where
  "demo_document = YMap [(''tcp'', YMap [(''connect'', YMap [(''timeout'', YScalar ''7'')])]),
     (''fiber'', YMap [(''size'', YScalar ''big'')])]"

definition demo_cast :: "string \<Rightarrow> string \<Rightarrow> int res" where
  "demo_cast T str = (if str = ''7'' then Inr 7 else Inl (Throw ''bad lexical cast''))"

lemma demo_members:
  "ListAllMember [] demo_document =
    [([], demo_document), (''tcp'', YMap [(''connect'', YMap [(''timeout'', YScalar ''7'')])]),
     (''tcp.connect'', YMap [(''timeout'', YScalar ''7'')]), (''tcp.connect.timeout'', YScalar ''7''),
     (''fiber'', YMap [(''size'', YScalar ''big'')]), (''fiber.size'', YScalar ''big'')]"
  by (simp add: demo_document_def ListAllMember.simps key_prefix_def member_chars_def)


end
