(* ===== verification/Duan_Log_Config.thy ===== *)
theory Duan_Log_Config
  imports Duan_Log_Properties Duan_Config_Properties
begin

text \<open>
  \<^verbatim>\<open>log.cc\<close> over \<^verbatim>\<open>config.h\<close>: log definitions as YAML text, the \<^verbatim>\<open>toYamlString\<close> functions, and the
  variable \<^verbatim>\<open>logs\<close> with its listener. Messages about bad definitions on \<^verbatim>\<open>std::cout\<close> are not modelled.
\<close>

section \<open>Reading and writing definitions\<close>

text \<open>\<^verbatim>\<open>n[key].IsDefined() ? n[key].as<std::string>()\<close>.\<close>

definition key_string :: "yaml_cpp \<Rightarrow> yaml \<Rightarrow> string \<Rightarrow> string option res" where
  "key_string Y n k =
     bind_res (at_key Y n k) (\<lambda>m.
       case m of None \<Rightarrow> Inr None | Some x \<Rightarrow> bind_res (as_string Y x) (\<lambda>str. Inr (Some str)))"

text \<open>The same without the test: an undefined node throws.\<close>

definition need_string :: "yaml_cpp \<Rightarrow> yaml \<Rightarrow> string \<Rightarrow> string res" where
  "need_string Y n k =
     bind_res (key_string Y n k) (\<lambda>so. case so of None \<Rightarrow> Inl (Throw ''invalid node'') | Some str \<Rightarrow> Inr str)"

text \<open>One appender; \<^term>\<open>None\<close> when it is skipped.\<close>

definition LogAppenderDfine_from :: "yaml_cpp \<Rightarrow> yaml \<Rightarrow> LogAppenderDfine option res" where
  "LogAppenderDfine_from Y a =
     bind_res (key_string Y a ''type'') (\<lambda>t.
       let with_formatter = (\<lambda>lad. bind_res (key_string Y a ''formatter'') (\<lambda>fo.
             Inr (Some (case fo of None \<Rightarrow> lad | Some f \<Rightarrow> lad\<lparr>lad_formatter := f\<rparr>))))
       in case t of
            None \<Rightarrow> Inr None
          | Some type \<Rightarrow>
              if type = ''FileLogAppender'' then
                bind_res (key_string Y a ''file'') (\<lambda>fo.
                  case fo of
                    None \<Rightarrow> Inr None
                  | Some file \<Rightarrow> with_formatter \<lparr>lad_type = 1, lad_level = UNKNOW, lad_formatter = [], lad_file = file\<rparr>)
              else if type = ''StdoutLogAppender'' then
                with_formatter \<lparr>lad_type = 2, lad_level = UNKNOW, lad_formatter = [], lad_file = []\<rparr>
              else Inr None)"

fun somes :: "'a option list \<Rightarrow> 'a list" where
  "somes [] = []"
| "somes (None # xs) = somes xs"
| "somes (Some x # xs) = x # somes xs"

definition LogDefine_from :: "yaml_cpp \<Rightarrow> string \<Rightarrow> LogDefine res" where
  "LogDefine_from Y v =
     bind_res (Load Y v) (\<lambda>n.
     bind_res (key_string Y n ''name'') (\<lambda>no.
       case no of
         None \<Rightarrow> Inl (Throw ''log config name is null'')
       | Some name \<Rightarrow>
           bind_res (at_key Y n ''levle'') (\<lambda>l.
           bind_res (if l \<noteq> None then need_string Y n ''level'' else Inr []) (\<lambda>level.
           bind_res (key_string Y n ''formatter'') (\<lambda>fo.
           bind_res (at_key Y n ''appenders'') (\<lambda>ao.
           bind_res (case ao of
                       None \<Rightarrow> Inr []
                     | Some as \<Rightarrow> mapM (\<lambda>x. LogAppenderDfine_from Y (at_index Y as x)) [0..<ysize as]) (\<lambda>lads.
           Inr \<lparr>ld_name = name, ld_level = LogLevel_FromString level,
                ld_formatter = (case fo of None \<Rightarrow> [] | Some f \<Rightarrow> f), ld_appenders = somes lads\<rparr>)))))))"

definition set_if :: "bool \<Rightarrow> string \<Rightarrow> string \<Rightarrow> yaml \<Rightarrow> yaml" where
  "set_if b k str n = (if b then set_key n k (YScalar str) else n)"

definition LogAppenderDfine_node :: "LogAppenderDfine \<Rightarrow> yaml" where
  "LogAppenderDfine_node a =
     set_if (lad_formatter a \<noteq> []) ''formatter'' (lad_formatter a)
       (set_if (lad_level a \<noteq> UNKNOW) ''level'' (LogLevel_toString (lad_level a))
         (if lad_type a = 1
          then set_key (set_key YNull ''type'' (YScalar ''FileLogAppender'')) ''file'' (YScalar (lad_file a))
          else set_if (lad_type a = 2) ''type'' ''StdoutLogAppender'' YNull))"

definition LogDefine_node :: "LogDefine \<Rightarrow> yaml" where
  "LogDefine_node i =
     (let n = set_if (ld_formatter i \<noteq> []) ''formatter'' (ld_formatter i)
                (set_if (ld_level i \<noteq> UNKNOW) ''level'' (LogLevel_toString (ld_level i))
                  (set_key YNull ''name'' (YScalar (ld_name i))))
      in if ld_appenders i = [] then n
         else set_key n ''appenders'' (foldl push_back YNull (map LogAppenderDfine_node (ld_appenders i))))"

definition LogDefine_to :: "yaml_cpp \<Rightarrow> LogDefine \<Rightarrow> string" where
  "LogDefine_to Y i = emit Y (LogDefine_node i)"

section \<open>Printing loggers\<close>

definition StdoutLogAppender_toYamlString :: "yaml_cpp \<Rightarrow> LogAppender \<Rightarrow> string" where
  "StdoutLogAppender_toYamlString Y a =
     emit Y
       (set_if (ap_hasFormatter a \<and> ap_formatter a \<noteq> None) ''formatter''
          (case ap_formatter a of None \<Rightarrow> [] | Some fm \<Rightarrow> m_pattern fm)
         (set_if (ap_level a \<noteq> UNKNOW) ''level'' (LogLevel_toString (ap_level a))
           (set_key YNull ''type'' (YScalar ''StdoutLogAppender''))))"

definition FileLogAppender_toYamlString :: "yaml_cpp \<Rightarrow> LogAppender \<Rightarrow> file_part \<Rightarrow> string" where
  "FileLogAppender_toYamlString Y a f =
     emit Y
       (set_if (ap_hasFormatter a \<and> ap_formatter a \<noteq> None) ''fomatter''
          (case ap_formatter a of None \<Rightarrow> [] | Some fm \<Rightarrow> m_pattern fm)
         (set_if (ap_level a \<noteq> UNKNOW) ''level'' (LogLevel_toString (ap_level a))
           (set_key (set_key YNull ''type'' (YScalar ''FileLogAppender'')) ''file'' (YScalar (m_filename f)))))"

definition appender_toYamlString :: "yaml_cpp \<Rightarrow> LogAppender \<Rightarrow> string" where
  "appender_toYamlString Y a =
     (case ap_sink a of
        StdoutLogAppender \<Rightarrow> StdoutLogAppender_toYamlString Y a
      | FileLogAppender f \<Rightarrow> FileLogAppender_toYamlString Y a f)"

definition Logger_toYamlString :: "yaml_cpp \<Rightarrow> Logger \<Rightarrow> log_state \<Rightarrow> string res" where
  "Logger_toYamlString Y lg s =
     (let n = set_if (lg_formatter lg \<noteq> None) ''formatter''
                (case lg_formatter lg of None \<Rightarrow> [] | Some fm \<Rightarrow> m_pattern fm)
                (set_key (set_key YNull ''name'' (YScalar (lg_name lg))) ''level''
                  (YScalar (LogLevel_toString (lg_level lg))))
      in bind_res (mapM (\<lambda>p. deref ''appender'' (appenders s p) (\<lambda>a. Load Y (appender_toYamlString Y a))) (lg_appenders lg))
           (\<lambda>ns. Inr (emit Y (if ns = [] then n else set_key n ''appenders'' (foldl push_back YNull ns)))))"

text \<open>\<open>names\<close> are the keys of the manager's table in order.\<close>

definition LoggerManager_toYamlString :: "yaml_cpp \<Rightarrow> string list \<Rightarrow> log_state \<Rightarrow> string res" where
  "LoggerManager_toYamlString Y names s =
     bind_res
       (mapM (\<lambda>name. deref ''logger'' (Option.bind (m_loggers s name) (loggers s))
                (\<lambda>lg. bind_res (Logger_toYamlString Y lg s) (Load Y))) names)
       (\<lambda>ns. Inr (emit Y (foldl push_back YNull ns)))"

section \<open>The variable logs\<close>

definition define_lt :: "LogDefine \<Rightarrow> LogDefine \<Rightarrow> bool" where
  "define_lt i j \<longleftrightarrow>
     ord_class.lexordp (map of_char (ld_name i) :: nat list) (map of_char (ld_name j))"

text \<open>How the text of the variable becomes a set of definitions, and the listener.\<close>

definition logs_from :: "yaml_cpp \<Rightarrow> string \<Rightarrow> LogDefine list res" where
  "logs_from Y v = set_from define_lt Y (LogDefine_from Y) v"

definition logs_listener :: "nat \<Rightarrow> log_os \<Rightarrow> LogEvent \<Rightarrow> (LogDefine list, log_state) on_change_cb" where
  "logs_listener n os e old new s =
     (case on_logger_conf_changed n os e old new s of Inr t \<Rightarrow> (t, None) | Inl err \<Rightarrow> (s, Some err))"

section \<open>What survives a round trip\<close>

lemma key_string_map:
  assumes "yaml_access_ok Y"
  shows "key_string Y (YMap kvs) k =
    (case map_of kvs k of None \<Rightarrow> Inr None | Some x \<Rightarrow> bind_res (as_string Y x) (\<lambda>str. Inr (Some str)))"
  using assms by (simp add: key_string_def yaml_access_ok_def)

lemmas yaml_ok_simps = key_string_map yaml_access_ok_def set_if_def

lemma yaml_ok_at:
  assumes "yaml_access_ok Y"
  shows "at_key Y (YMap kvs) k = Inr (map_of kvs k)" and "as_string Y (YScalar str) = Inr str"
    and "i < length ns \<Longrightarrow> at_index Y (YSeq ns) i = ns ! i"
  using assms by (simp_all add: yaml_access_ok_def)

definition readable :: "LogAppenderDfine \<Rightarrow> bool" where
  "readable a \<longleftrightarrow> lad_type a = 1 \<or> lad_type a = 2 \<and> lad_file a = []"

text \<open>The nodes are maps with the expected keys.\<close>

lemma LogAppenderDfine_keys:
  assumes "readable a"
  obtains kvs where "LogAppenderDfine_node a = YMap kvs"
    and "map_of kvs ''type'' = Some (YScalar (if lad_type a = 1 then ''FileLogAppender'' else ''StdoutLogAppender''))"
    and "lad_type a = 1 \<Longrightarrow> map_of kvs ''file'' = Some (YScalar (lad_file a))"
    and "map_of kvs ''formatter'' = (if lad_formatter a = [] then None else Some (YScalar (lad_formatter a)))"
proof -
  let ?lv = "(if lad_level a \<noteq> UNKNOW then [(''level'', YScalar (LogLevel_toString (lad_level a)))] else [])"
  let ?fm = "(if lad_formatter a \<noteq> [] then [(''formatter'', YScalar (lad_formatter a))] else [])"
  let ?kvs = "(if lad_type a = 1 then [(''type'', YScalar ''FileLogAppender''), (''file'', YScalar (lad_file a))]
    else [(''type'', YScalar ''StdoutLogAppender'')]) @ ?lv @ ?fm"
  have "LogAppenderDfine_node a = YMap ?kvs"
    using assms by (auto simp: readable_def LogAppenderDfine_node_def set_if_def)
  then show ?thesis by (rule that) auto
qed

lemma LogAppenderDfine_roundtrip:
  assumes "yaml_access_ok Y" and "readable a"
  shows "LogAppenderDfine_from Y (LogAppenderDfine_node a) = Inr (Some (a\<lparr>lad_level := UNKNOW\<rparr>))"
proof -
  obtain kvs where n: "LogAppenderDfine_node a = YMap kvs"
    and keys: "map_of kvs ''type'' = Some (YScalar (if lad_type a = 1 then ''FileLogAppender'' else ''StdoutLogAppender''))"
      "lad_type a = 1 \<Longrightarrow> map_of kvs ''file'' = Some (YScalar (lad_file a))"
      "map_of kvs ''formatter'' = (if lad_formatter a = [] then None else Some (YScalar (lad_formatter a)))"
    by (rule LogAppenderDfine_keys [OF assms(2)]) blast
  note key = key_string_map [OF assms(1)] and at = yaml_ok_at [OF assms(1)]
  show ?thesis
  proof (cases "lad_type a = 1")
    case True
    then show ?thesis by (simp add: LogAppenderDfine_from_def n keys key at)
  next
    case False
    with assms(2) have "lad_type a = 2" "lad_file a = []" by (simp_all add: readable_def)
    then show ?thesis by (simp add: LogAppenderDfine_from_def n keys(1,3) key at)
  qed
qed

lemma somes_Some [simp]: "somes (map (\<lambda>x. Some (f x)) xs) = map f xs"
  by (induction xs) auto

lemma appenders_from:
  assumes "yaml_access_ok Y" and "\<forall>a\<in>set as. readable a"
  shows "mapM (\<lambda>x. LogAppenderDfine_from Y (at_index Y (YSeq (map LogAppenderDfine_node as)) x)) [0..<length as] =
    Inr (map (\<lambda>a. Some (a\<lparr>lad_level := UNKNOW\<rparr>)) as)"
proof -
  have "LogAppenderDfine_from Y (at_index Y (YSeq (map LogAppenderDfine_node as)) x) =
      Inr (Some ((as ! x)\<lparr>lad_level := UNKNOW\<rparr>))" if "x < length as" for x
    using LogAppenderDfine_roundtrip [OF assms(1), of "as ! x"] assms(2) that by (simp add: yaml_ok_at(3) [OF assms(1)])
  then have "mapM (\<lambda>x. LogAppenderDfine_from Y (at_index Y (YSeq (map LogAppenderDfine_node as)) x)) [0..<length as] =
      Inr (map (\<lambda>x. Some ((as ! x)\<lparr>lad_level := UNKNOW\<rparr>)) [0..<length as])"
    by (intro mapM_Inr) simp
  also have "map (\<lambda>x. Some ((as ! x)\<lparr>lad_level := UNKNOW\<rparr>)) [0..<length as] = map (\<lambda>a. Some (a\<lparr>lad_level := UNKNOW\<rparr>)) as"
    by (rule nth_equalityI) simp_all
  finally show ?thesis .
qed

lemma foldl_appenders:
  "as \<noteq> [] \<Longrightarrow> foldl push_back YNull (map LogAppenderDfine_node as) = YSeq (map LogAppenderDfine_node as)"
  by (simp add: foldl_push_back_YNull seq_node_def)

lemma LogDefine_keys:
  obtains kvs where "LogDefine_node i = YMap kvs" and "map_of kvs ''name'' = Some (YScalar (ld_name i))"
    and "map_of kvs ''levle'' = None"
    and "map_of kvs ''formatter'' = (if ld_formatter i = [] then None else Some (YScalar (ld_formatter i)))"
    and "map_of kvs ''appenders'' =
      (if ld_appenders i = [] then None else Some (YSeq (map LogAppenderDfine_node (ld_appenders i))))"
proof -
  let ?lv = "(if ld_level i \<noteq> UNKNOW then [(''level'', YScalar (LogLevel_toString (ld_level i)))] else [])"
  let ?fm = "(if ld_formatter i \<noteq> [] then [(''formatter'', YScalar (ld_formatter i))] else [])"
  let ?ap = "(if ld_appenders i = [] then [] else [(''appenders'', YSeq (map LogAppenderDfine_node (ld_appenders i)))])"
  have "LogDefine_node i = YMap ((''name'', YScalar (ld_name i)) # ?lv @ ?fm @ ?ap)"
    by (simp add: LogDefine_node_def set_if_def Let_def foldl_appenders)
  then show ?thesis by (rule that) auto
qed

text \<open>
  C40. What survives when a log definition is written as YAML and read again: the name, the formatter, and the
  appenders with their kinds, files and formatters, in order. The levels do not: the reader tests for the
  key \<^verbatim>\<open>levle\<close>, which the writer never writes, and never reads the level of an appender, so every level comes
  back as unknown.
\<close>

theorem LogDefine_roundtrip:
  assumes "yaml_access_ok Y" and "reads_back Y (LogDefine_node i)" and "\<forall>a\<in>set (ld_appenders i). readable a"
  shows "LogDefine_from Y (LogDefine_to Y i) =
    Inr (i\<lparr>ld_level := UNKNOW, ld_appenders := map (\<lambda>a. a\<lparr>lad_level := UNKNOW\<rparr>) (ld_appenders i)\<rparr>)"
proof -
  obtain kvs where n: "LogDefine_node i = YMap kvs" and keys: "map_of kvs ''name'' = Some (YScalar (ld_name i))"
    "map_of kvs ''levle'' = None"
    "map_of kvs ''formatter'' = (if ld_formatter i = [] then None else Some (YScalar (ld_formatter i)))"
    "map_of kvs ''appenders'' = (if ld_appenders i = [] then None else Some (YSeq (map LogAppenderDfine_node (ld_appenders i))))"
    by (rule LogDefine_keys) blast
  show ?thesis
    using assms(2) appenders_from [OF assms(1,3)]
    by (cases "ld_formatter i = []"; cases "ld_appenders i = []")
      (simp_all add: LogDefine_from_def LogDefine_to_def reads_back_def n keys key_string_map [OF assms(1)]
        yaml_ok_at [OF assms(1)] LogLevel_FromString_def comp_def)
qed

definition demo_log_define :: LogDefine where
  "demo_log_define = \<lparr>ld_name = ''root'', ld_level = INFO, ld_formatter = [],
     ld_appenders = [\<lparr>lad_type = 1, lad_level = WARN, lad_formatter = ''%m%n'', lad_file = ''a.log''\<rparr>]\<rparr>"

definition demo_log_yaml :: yaml_cpp where
  "demo_log_yaml = demo_yaml [(''the definition'', LogDefine_node demo_log_define)]"

theorem LogDefine_roundtrip_witness:
  "LogDefine_from demo_log_yaml (LogDefine_to demo_log_yaml demo_log_define) =
    Inr \<lparr>ld_name = ''root'', ld_level = UNKNOW, ld_formatter = [],
     ld_appenders = [\<lparr>lad_type = 1, lad_level = UNKNOW, lad_formatter = ''%m%n'', lad_file = ''a.log''\<rparr>]\<rparr>"
proof -
  have "reads_back demo_log_yaml (LogDefine_node demo_log_define)"
    by (simp add: reads_back_def demo_log_yaml_def demo_yaml_def)
  with LogDefine_roundtrip [of demo_log_yaml demo_log_define] show ?thesis
    by (simp add: demo_log_yaml_def demo_yaml_ok) (simp add: demo_log_define_def readable_def)
qed

section \<open>Errors of the listener\<close>

text \<open>Where the listener fails, it is by undefined behaviour, which no handler can catch.\<close>

definition only_ub :: "'a res \<Rightarrow> bool" where
  "only_ub r \<longleftrightarrow> (\<forall>e. r = Inl e \<longrightarrow> (\<exists>m. e = UB m))"

lemma only_ub_Inr [simp]: "only_ub (Inr x)"
  by (simp add: only_ub_def)

lemma only_ub_deref: "(\<And>x. p = Some x \<Longrightarrow> only_ub (k x)) \<Longrightarrow> only_ub (deref w p k)"
  by (cases p) (auto simp: only_ub_def)

lemma only_ub_bind: "only_ub m \<Longrightarrow> (\<And>x. m = Inr x \<Longrightarrow> only_ub (k x)) \<Longrightarrow> only_ub (bind_res m k)"
  by (cases m) (auto simp: only_ub_def)

lemmas only_ub_intros = only_ub_deref only_ub_bind

lemma follow_all_ub: "only_ub (follow_all val ps s)"
  by (induction ps arbitrary: s) (auto intro: only_ub_intros)

lemma logger_ops_ub:
  "only_ub (SetLevel l level s)" "only_ub (clearAppenders l s)" "only_ub (addAppender l p s)"
  "only_ub (LogAppender_setLevel p level s)" "only_ub (LogAppender_setFormatter p val s)"
  "only_ub (Logger_setFormatter_string l str s)"
  by (auto simp: SetLevel_def clearAppenders_def addAppender_def LogAppender_setLevel_def LogAppender_setFormatter_def
    Logger_setFormatter_string_def Logger_setFormatter_def Let_def follow_all_ub intro!: only_ub_deref)

lemma add_defined_appenders_ub: "only_ub (add_defined_appenders os i l as s)"
proof (induction as arbitrary: s)
  case (Cons a as)
  have "only_ub (set_defined_formatter i a p s)" for p s
    by (simp add: set_defined_formatter_def Let_def logger_ops_ub)
  then have "only_ub (add_defined_appender os i l a s)"
    by (auto simp: add_defined_appender_def case_prod_beta Let_def logger_ops_ub intro!: only_ub_intros)
  with Cons.IH show ?case by (auto intro: only_ub_bind)
qed simp

lemma apply_defines_ub: "only_ub (apply_defines os old new s)"
proof (induction new arbitrary: s)
  case (Cons i new)
  have "only_ub (apply_define os old i s)"
    by (auto simp: apply_define_def case_prod_beta Let_def logger_ops_ub add_defined_appenders_ub intro!: only_ub_intros)
  with Cons.IH show ?case by (auto intro: only_ub_bind)
qed simp

lemma conf_unchanged_ub:
  assumes "log_wf s" and "i \<in> set new" and "define_find old i = Some i"
  shows "\<exists>m. on_logger_conf_changed 2 os e old new s = Inl (UB m)"
proof -
  let ?e = "e\<lparr>ev_ss := ''on_logger_conf_changed''\<rparr>"
  obtain lr where lr: "loggers s (m_root s) = Some lr" using root_logger [OF assms(1)] by blast
  obtain s1 where s1: "DUAN_LOG_LEVEL 2 os (m_root s) INFO ?e s = Inr s1"
    using DUAN_LOG_LEVEL_returns [OF assms(1) lr, of os INFO ?e] by blast
  obtain err where "apply_defines os old new s1 = Inl err"
    using apply_defines_unchanged [OF assms(2,3), of os s1] by (cases "apply_defines os old new s1") auto
  moreover from this obtain m where "err = UB m" using apply_defines_ub [of os old new s1] by (auto simp: only_ub_def)
  ultimately show ?thesis using s1 by (simp add: on_logger_conf_changed_def)
qed

end
