(* ===== verification/Duan_Settings.thy ===== *)
theory Duan_Settings
  imports Duan_Hook_Properties Duan_Log_Config
begin

text \<open>
  The configuration of the whole library: the variables its files register when the program starts,
  \<^verbatim>\<open>fiber.stack_size\<close> of \<^verbatim>\<open>fiber.cc\<close>, \<^verbatim>\<open>tcp.connect.timeout\<close> of \<^verbatim>\<open>hook.cc\<close> and \<^verbatim>\<open>logs\<close> of \<^verbatim>\<open>log.cc\<close>, the listeners two of
  these files add, and what the program does with the configuration later, in any order. The initialisers
  of different files run in an order the language leaves open.
\<close>

section \<open>The registered variables\<close>

text \<open>The values of the three types, and the names \<^verbatim>\<open>typeid\<close> gives the types.\<close>

datatype setting = SUnsigned u32 | SInt int | SDefines "LogDefine list"

fun has_type :: "string \<Rightarrow> setting \<Rightarrow> bool" where
  "has_type T (SUnsigned n) \<longleftrightarrow> T = ''j''"
| "has_type T (SInt n) \<longleftrightarrow> T = ''i''"
| "has_type T (SDefines ds) \<longleftrightarrow> T = ''St3setIN4duan9LogDefineE''"

fun int_of :: "setting \<Rightarrow> int" where
  "int_of (SInt n) = n"
| "int_of _ = 0"

fun defines_of :: "setting \<Rightarrow> LogDefine list" where
  "defines_of (SDefines ds) = ds"
| "defines_of _ = []"

text \<open>What the listeners change: the loggers and the hooked calls; and the pointers to the original functions.\<close>

record 'm outside =
  o_log :: log_state
  o_hook :: "'m hook"
  o_orig :: "bool \<times> (string \<Rightarrow> nat)"

type_synonym 'm settings = "(setting, 'm outside) config"

definition fiber_statics :: "'m settings \<Rightarrow> (nat option \<times> 'm settings) res" where
  "fiber_statics c = Lookup ''j'' ''fiber.stack_size'' (SUnsigned (128 * 1024)) ''fiber stack size'' c"

definition logs_cb :: "log_os \<Rightarrow> LogEvent \<Rightarrow> (setting, 'm outside) on_change_cb" where
  "logs_cb os e old new s =
     (case logs_listener 2 os e (defines_of old) (defines_of new) (o_log s) of
        (lg, err) \<Rightarrow> (s\<lparr>o_log := lg\<rparr>, err))"

definition LogIniter_new :: "log_os \<Rightarrow> LogEvent \<Rightarrow> nat \<Rightarrow> 'm settings \<Rightarrow> 'm settings res" where
  "LogIniter_new os e p c = bind_res (addListener p (logs_cb os e) c) (\<lambda>(k, c'). Inr c')"

definition log_statics :: "log_os \<Rightarrow> LogEvent \<Rightarrow> 'm settings \<Rightarrow> 'm settings res" where
  "log_statics os e c =
     bind_res (Lookup ''St3setIN4duan9LogDefineE'' ''logs'' (SDefines []) ''logs config'' c) (\<lambda>(po, c1).
       deref ''g_log_defines'' po (\<lambda>p. LogIniter_new os e p c1))"

definition timeout_cb :: "(setting, 'm outside) on_change_cb" where
  "timeout_cb old new s =
     (s\<lparr>o_hook := connect_timeout_listener (int_of old) (int_of new) (o_hook s)\<rparr>, None)"

definition HookIniter_new ::
  "(string \<Rightarrow> nat) \<Rightarrow> nat \<Rightarrow> 'm settings \<times> 'm outside \<Rightarrow> ('m settings \<times> 'm outside) res" where
  "HookIniter_new dlsym p cs =
     (let (c, s) = cs in
      deref ''g_tcp_connect_timeout'' (vars c p) (\<lambda>x.
        let s1 = s\<lparr>o_orig := hook_init dlsym (o_orig s),
                   o_hook := (o_hook s)\<lparr>s_connect_timeout := of_int (int_of (getValue x))\<rparr>\<rparr>
        in bind_res (addListener p timeout_cb c) (\<lambda>(k, c'). Inr (c', s1))))"

text \<open>The result has the pointer \<^verbatim>\<open>g_tcp_connect_timeout\<close>.\<close>

definition hook_statics ::
  "(string \<Rightarrow> nat) \<Rightarrow> 'm settings \<times> 'm outside \<Rightarrow> (nat \<times> 'm settings \<times> 'm outside) res" where
  "hook_statics dlsym cs =
     (let (c, s) = cs in
      bind_res (Lookup ''i'' ''tcp.connect.timeout'' (SInt 5000) ''tcp connect timeout'' c) (\<lambda>(po, c1).
        deref ''g_tcp_connect_timeout'' po (\<lambda>p.
          bind_res (HookIniter_new dlsym p (c1, s)) (\<lambda>cs'. Inr (p, cs')))))"

section \<open>The program's use of the configuration\<close>

text \<open>
  Listeners the program adds: they return, and leave the time limit and the pointers of the hooked
  functions alone.
\<close>

definition same_hook :: "'m outside \<Rightarrow> 'm outside \<Rightarrow> bool" where
  "same_hook s s' \<longleftrightarrow> s_connect_timeout (o_hook s') = s_connect_timeout (o_hook s) \<and> o_orig s' = o_orig s"

definition keeps_hook :: "(setting, 'm outside) on_change_cb \<Rightarrow> bool" where
  "keeps_hook cb \<longleftrightarrow> (\<forall>old new s. same_hook s (fst (cb old new s)))"

definition foreign :: "(setting, 'm outside) on_change_cb \<Rightarrow> bool" where
  "foreign cb \<longleftrightarrow> keeps_hook cb \<and> (\<forall>old new s. snd (cb old new s) = None)"

text \<open>What \<^verbatim>\<open>FromStr\<close> of a variable of type \<open>T\<close> returns.\<close>

definition casts_ok :: "(string \<Rightarrow> string \<Rightarrow> setting res) \<Rightarrow> bool" where
  "casts_ok F \<longleftrightarrow> (\<forall>T str v. F T str = Inr v \<longrightarrow> has_type T v)"

text \<open>
  The steps: the initialisers of the three files, that of \<^verbatim>\<open>hook.cc\<close> once; registering and setting variables,
  where the caller catches what a listener throws; loading documents; adding listeners (fewer than \<open>2 ^ 64\<close>) and
  removing those of other variables than \<^verbatim>\<open>tcp.connect.timeout\<close>; and everything else the program does. The first
  part of the state is the pointer \<^verbatim>\<open>g_tcp_connect_timeout\<close>.
\<close>

inductive settings_step ::
  "(string \<Rightarrow> nat) \<Rightarrow> nat option \<times> 'm settings \<times> 'm outside \<Rightarrow> nat option \<times> 'm settings \<times> 'm outside \<Rightarrow> bool"
  for dlsym where
  s_fiber: "fiber_statics c = Inr (po, c') \<Longrightarrow> settings_step dlsym (g, c, s) (g, c', s)"
| s_log: "(\<forall>T. s_fun_id c T \<noteq> - 1) \<Longrightarrow> log_statics os e c = Inr c' \<Longrightarrow> settings_step dlsym (g, c, s) (g, c', s)"
| s_hook: "(\<forall>T. s_fun_id c T \<noteq> - 1) \<Longrightarrow> hook_statics dlsym (c, s) = Inr (p, c', s') \<Longrightarrow>
     settings_step dlsym (None, c, s) (Some p, c', s')"
| s_lookup: "has_type T v \<Longrightarrow> Lookup T name v desc c = Inr (po, c') \<Longrightarrow> settings_step dlsym (g, c, s) (g, c', s)"
| s_set: "vars c p = Some x \<Longrightarrow> has_type (cv_type x) v \<Longrightarrow> setValue v x s = ((x', s'), err) \<Longrightarrow>
     settings_step dlsym (g, c, s) (g, c\<lparr>vars := (vars c)(p \<mapsto> x')\<rparr>, s')"
| s_load: "casts_ok F \<Longrightarrow> LoadFromYaml Y F root (c, s) = Inr (c', s') \<Longrightarrow>
     settings_step dlsym (g, c, s) (g, c', s')"
| s_listen: "(\<forall>T. s_fun_id c T \<noteq> - 1) \<Longrightarrow> foreign cb \<Longrightarrow> addListener p cb c = Inr (k, c') \<Longrightarrow>
     settings_step dlsym (g, c, s) (g, c', s)"
| s_unlisten: "vars c p = Some x \<Longrightarrow> g \<noteq> Some p \<Longrightarrow> x' = delListener key x \<or> x' = clearListener x \<Longrightarrow>
     settings_step dlsym (g, c, s) (g, c\<lparr>vars := (vars c)(p \<mapsto> x')\<rparr>, s)"
| s_other: "same_hook s s' \<Longrightarrow> settings_step dlsym (g, c, s) (g, c, s')"

text \<open>At the start nothing is registered, and no original function is known.\<close>

definition settings_init :: "nat option \<times> 'm settings \<times> 'm outside \<Rightarrow> bool" where
  "settings_init gcs \<longleftrightarrow>
     (let (g, c, s) = gcs in g = None \<and> c = config_empty \<and> o_orig s = (False, originals_null))"

section \<open>The invariant\<close>

text \<open>
  Every variable has a value of its type; keys of listeners are below the counter of their type; only listeners of
  \<^verbatim>\<open>logs\<close> may fail; and \<^verbatim>\<open>tcp.connect.timeout\<close>, once hooked, has the listener that copies its value.
\<close>

definition var_ok :: "nat option \<Rightarrow> (string \<Rightarrow> u64) \<Rightarrow> nat \<Rightarrow> (setting, 'm outside) ConfigVar \<Rightarrow> bool" where
  "var_ok g n p x \<longleftrightarrow>
     has_type (cv_type x) (cv_val x) \<and> (\<forall>kc\<in>set (cv_cbs x). fst kc \<le> n (cv_type x)) \<and>
     (\<forall>cb\<in>snd ` set (cv_cbs x).
        foreign cb \<or> g = Some p \<and> cb = timeout_cb \<or> has_type (cv_type x) (SDefines []) \<and> keeps_hook cb)"

definition timeout_var :: "(setting, 'm outside) ConfigVar \<Rightarrow> 'm outside \<Rightarrow> bool" where
  "timeout_var x s \<longleftrightarrow>
     cv_name x = ''tcp.connect.timeout'' \<and> cv_type x = ''i'' \<and> timeout_cb \<in> snd ` set (cv_cbs x) \<and>
     s_connect_timeout (o_hook s) = of_int (int_of (cv_val x))"

definition settings_inv ::
  "(string \<Rightarrow> nat) \<Rightarrow> nat option \<times> 'm settings \<times> 'm outside \<Rightarrow> bool" where
  "settings_inv dlsym gcs \<longleftrightarrow>
     (let (g, c, s) = gcs in
      config_wf c \<and> (\<forall>p x. vars c p = Some x \<longrightarrow> var_ok g (s_fun_id c) p x) \<and>
      (\<forall>p. g = Some p \<longrightarrow> (\<exists>x. vars c p = Some x \<and> timeout_var x s)) \<and>
      o_orig s = (if g = None then (False, originals_null) else hook_init dlsym (False, originals_null)))"

lemma settings_invD:
  assumes "settings_inv dlsym (g, c, s)"
  shows "config_wf c" and "vars c p = Some x \<Longrightarrow> var_ok g (s_fun_id c) p x"
    and "g = Some p \<Longrightarrow> \<exists>x. vars c p = Some x \<and> timeout_var x s"
    and "o_orig s = (if g = None then (False, originals_null) else hook_init dlsym (False, originals_null))"
  using assms by (simp_all add: settings_inv_def)

lemma same_hook_trans: "same_hook s t \<Longrightarrow> same_hook t u \<Longrightarrow> same_hook s u"
  by (simp add: same_hook_def)

lemma same_hook_inv: "settings_inv dlsym (g, c, s) \<Longrightarrow> same_hook s s' \<Longrightarrow> settings_inv dlsym (g, c, s')"
  by (simp add: settings_inv_def same_hook_def timeout_var_def)

lemma foreign_keeps: "foreign cb \<Longrightarrow> keeps_hook cb"
  by (simp add: foreign_def)

lemma logs_cb_keeps: "keeps_hook (logs_cb os e)"
  by (simp add: keeps_hook_def same_hook_def logs_cb_def split: prod.split)

text \<open>Notification: of listeners that keep the hook, and of those of \<^verbatim>\<open>tcp.connect.timeout\<close>.\<close>

lemma notify_keeps:
  "\<forall>cb\<in>snd ` set kcs. keeps_hook cb \<Longrightarrow> same_hook s (fst (notify kcs old new s))"
proof (induction kcs arbitrary: s)
  case (Cons kc kcs)
  obtain s' e where r: "snd kc old new s = (s', e)" by fastforce
  have "same_hook s s'" using Cons.prems r by (auto simp: keeps_hook_def) (metis fst_conv)
  moreover have "same_hook s' (fst (notify kcs old new s'))" using Cons by simp
  ultimately show ?case using r by (cases e) (auto intro: same_hook_trans)
qed (simp add: same_hook_def)

lemma notify_timeout:
  "\<forall>cb\<in>snd ` set kcs. foreign cb \<or> cb = timeout_cb \<Longrightarrow>
    \<exists>s'. notify kcs old new s = (s', None) \<and> o_orig s' = o_orig s \<and>
      s_connect_timeout (o_hook s') =
        (if timeout_cb \<in> snd ` set kcs then of_int (int_of new) else s_connect_timeout (o_hook s))"
proof (induction kcs arbitrary: s)
  case (Cons kc kcs)
  obtain s1 e where r: "snd kc old new s = (s1, e)" by fastforce
  have e: "e = None" "o_orig s1 = o_orig s"
    using Cons.prems r by (auto simp: foreign_def keeps_hook_def same_hook_def timeout_cb_def) (metis fst_conv snd_conv)+
  have t: "s_connect_timeout (o_hook s1) = (if snd kc = timeout_cb then of_int (int_of new) else s_connect_timeout (o_hook s))"
  proof (cases "snd kc = timeout_cb")
    case True
    then show ?thesis using r by (auto simp: timeout_cb_def connect_timeout_listener_def)
  next
    case False
    then have "foreign (snd kc)" using Cons.prems by simp
    then have "same_hook s (fst (snd kc old new s))" by (simp add: foreign_def keeps_hook_def)
    with r False show ?thesis by (simp add: same_hook_def)
  qed
  from Cons.IH [of s1] Cons.prems obtain s2 where "notify kcs old new s1 = (s2, None)" "o_orig s2 = o_orig s1"
    "s_connect_timeout (o_hook s2) =
      (if timeout_cb \<in> snd ` set kcs then of_int (int_of new) else s_connect_timeout (o_hook s1))" by auto
  with r e t show ?case by auto
qed simp

lemma setValue_inv:
  assumes inv: "settings_inv dlsym (g, c, s)" and x: "vars c p = Some x" and ty: "has_type (cv_type x) v"
    and set: "setValue v x s = ((x', s'), err)"
  shows "settings_inv dlsym (g, c\<lparr>vars := (vars c)(p \<mapsto> x')\<rparr>, s')"
proof -
  have x': "x' = x \<or> x' = x\<lparr>cv_val := v\<rparr>"
    using set by (auto simp: setValue_def split: if_splits prod.splits option.splits)
  have ok: "var_ok g (s_fun_id c) p x" by (rule settings_invD(2) [OF inv x])
  have wf: "config_wf (c\<lparr>vars := (vars c)(p \<mapsto> x')\<rparr>)"
    using settings_invD(1) [OF inv] x x' by (fastforce simp: config_wf_def)
  have "var_ok g (s_fun_id c) p x'" using x' ok ty by (elim disjE) (simp_all add: var_ok_def)
  then have vars: "\<forall>q y. ((vars c)(p \<mapsto> x')) q = Some y \<longrightarrow> var_ok g (s_fun_id c) q y"
    using settings_invD(2) [OF inv] by simp
  have "o_orig s' = o_orig s \<and> (\<forall>q. g = Some q \<longrightarrow> (\<exists>y. ((vars c)(p \<mapsto> x')) q = Some y \<and> timeout_var y s'))"
  proof (cases "g = Some p")
    case True
    then have tv: "timeout_var x s" using settings_invD(3) [OF inv] x by fastforce
    then have "\<forall>cb\<in>snd ` set (cv_cbs x). foreign cb \<or> cb = timeout_cb" using ok by (auto simp: var_ok_def timeout_var_def)
    from notify_timeout [OF this, of "cv_val x" v s] obtain s1 where
      "notify (cv_cbs x) (cv_val x) v s = (s1, None)" "o_orig s1 = o_orig s"
      "s_connect_timeout (o_hook s1) = of_int (int_of v)" using tv by (auto simp: timeout_var_def)
    then have "timeout_var x' s' \<and> o_orig s' = o_orig s"
      using set tv by (auto simp: setValue_def timeout_var_def split: if_splits)
    with True show ?thesis by simp
  next
    case False
    then have "\<forall>cb\<in>snd ` set (cv_cbs x). keeps_hook cb" using ok by (auto simp: var_ok_def foreign_keeps)
    from notify_keeps [OF this] have "same_hook s s'"
      using set by (auto simp: setValue_def same_hook_def split: if_splits prod.splits option.splits) (metis fst_conv)+
    then show ?thesis using settings_invD(3) [OF inv] False by (auto simp: same_hook_def timeout_var_def)
  qed
  then show ?thesis using wf vars settings_invD(4) [OF inv] by (simp add: settings_inv_def)
qed

lemma set_put_cb: "k \<notin> fst ` set kcs \<Longrightarrow> set (put_cb k cb kcs) = insert (k, cb) (set kcs)"
  by (induction kcs) auto

lemma wf_listener:
  assumes "config_wf c" and "vars c p = Some x"
  shows "config_wf (c\<lparr>s_fun_id := n, vars := (vars c)(p \<mapsto> x\<lparr>cv_cbs := kcs\<rparr>)\<rparr>)"
  using assms by (fastforce simp: config_wf_def)

text \<open>A new listener gets a key of its own, and every variable stays as good as it was.\<close>

lemma addListener_effect:
  assumes inv: "settings_inv dlsym (g, c, s)" and n: "\<forall>T. s_fun_id c T \<noteq> - 1" and add: "addListener p cb c = Inr (k, c')"
  shows "\<exists>x kcs. vars c p = Some x \<and> config_wf c' \<and> vars c' = (vars c)(p \<mapsto> x\<lparr>cv_cbs := kcs\<rparr>) \<and>
    snd ` set kcs = insert cb (snd ` set (cv_cbs x)) \<and> (\<forall>kc\<in>set kcs. fst kc \<le> s_fun_id c' (cv_type x)) \<and>
    (\<forall>T. s_fun_id c T \<le> s_fun_id c' T)"
proof -
  obtain x where x: "vars c p = Some x" and k: "k = s_fun_id c (cv_type x) + 1"
    and c': "c' = c\<lparr>s_fun_id := (s_fun_id c)(cv_type x := k), vars := (vars c)(p \<mapsto> x\<lparr>cv_cbs := put_cb k cb (cv_cbs x)\<rparr>)\<rparr>"
    using add by (auto simp: addListener_def res_iffs Let_def)
  have less: "s_fun_id c (cv_type x) < k" using word_less_add_one(2) n k by blast
  have old: "\<forall>kc\<in>set (cv_cbs x). fst kc \<le> s_fun_id c (cv_type x)"
    using settings_invD(2) [OF inv x] by (simp add: var_ok_def)
  then have "k \<notin> fst ` set (cv_cbs x)" using less by auto
  then have set: "set (put_cb k cb (cv_cbs x)) = insert (k, cb) (set (cv_cbs x))" by (rule set_put_cb)
  have le: "s_fun_id c T \<le> s_fun_id c' T" for T using less_imp_le [OF less] by (simp add: c')
  moreover have "\<forall>kc\<in>set (put_cb k cb (cv_cbs x)). fst kc \<le> s_fun_id c' (cv_type x)"
    using old less_imp_le [OF less] unfolding set by (auto simp: c' intro: order_trans)
  moreover have "snd ` set (put_cb k cb (cv_cbs x)) = insert cb (snd ` set (cv_cbs x))" unfolding set by simp
  moreover have "config_wf c'" unfolding c' by (rule wf_listener [OF settings_invD(1) [OF inv] x])
  moreover have "vars c' = (vars c)(p \<mapsto> x\<lparr>cv_cbs := put_cb k cb (cv_cbs x)\<rparr>)" by (simp add: c')
  ultimately show ?thesis using x by blast
qed

lemma var_ok_mono:
  assumes "var_ok g n p x" and "\<forall>T. n T \<le> n' T" and "\<And>q. g = Some q \<Longrightarrow> g' = Some q"
  shows "var_ok g' n' p x"
  using assms unfolding var_ok_def by (meson order_trans)

lemma addListener_inv:
  assumes inv: "settings_inv dlsym (g, c, s)" and n: "\<forall>T. s_fun_id c T \<noteq> - 1" and add: "addListener p cb c = Inr (k, c')"
    and cb: "foreign cb \<or> keeps_hook cb \<and> (\<forall>x. vars c p = Some x \<longrightarrow> has_type (cv_type x) (SDefines []))"
  shows "settings_inv dlsym (g, c', s)"
proof -
  obtain x kcs where x: "vars c p = Some x" and a: "config_wf c'" "vars c' = (vars c)(p \<mapsto> x\<lparr>cv_cbs := kcs\<rparr>)"
    "snd ` set kcs = insert cb (snd ` set (cv_cbs x))" "\<forall>kc\<in>set kcs. fst kc \<le> s_fun_id c' (cv_type x)"
    "\<forall>T. s_fun_id c T \<le> s_fun_id c' T"
    using addListener_effect [OF inv n add] by blast
  have "var_ok g (s_fun_id c') p (x\<lparr>cv_cbs := kcs\<rparr>)"
    using settings_invD(2) [OF inv x] a(3,4) cb x by (auto simp: var_ok_def)
  then have "\<forall>q y. vars c' q = Some y \<longrightarrow> var_ok g (s_fun_id c') q y"
    using var_ok_mono [OF settings_invD(2) [OF inv] a(5)] by (simp add: a(2))
  moreover have "\<forall>q. g = Some q \<longrightarrow> (\<exists>y. vars c' q = Some y \<and> timeout_var y s)"
    using settings_invD(3) [OF inv] x a(3) by (auto simp: a(2) timeout_var_def)
  ultimately show ?thesis using settings_invD(4) [OF inv] a(1) by (simp add: settings_inv_def)
qed

text \<open>The initialiser of \<^verbatim>\<open>hook.cc\<close> hooks the variable it finds or makes.\<close>

lemma Lookup_inv:
  assumes inv: "settings_inv dlsym (g, c, s)" and v: "has_type T v" and l: "Lookup T name v desc c = Inr (po, c')"
  shows "settings_inv dlsym (g, c', s) \<and> s_fun_id c' = s_fun_id c \<and>
    (\<forall>p. po = Some p \<longrightarrow> (\<exists>x. vars c' p = Some x \<and> cv_name x = name \<and> cv_type x = T))"
proof (cases rule: Lookup_cases [OF settings_invD(1) [OF inv], of name T v desc])
  case 4
  note fresh = this
  then have l': "po = Some (next_var c)" "c' = with_var T name v desc c" using l by simp_all
  have wf: "config_wf c'" unfolding l'(2) by (rule fresh_wf [OF settings_invD(1) [OF inv] fresh(1,2)])
  have nm: "cv_name (ConfigVar_new name v desc T) = name" by (simp add: ConfigVar_new_def tolower_name fresh(2))
  have "g \<noteq> Some (next_var c)" using settings_invD(3) [OF inv] config_wfD(4) [OF settings_invD(1) [OF inv]] by blast
  moreover have "var_ok g n p (ConfigVar_new name v desc T)" for n p
    using v by (simp add: var_ok_def ConfigVar_new_def)
  moreover have "s_fun_id c' = s_fun_id c" by (simp add: l'(2) with_var_def)
  ultimately show ?thesis
    using wf nm settings_invD(2-4) [OF inv] by (auto simp: settings_inv_def l' ConfigVar_new_def)
qed (use inv l in auto)

lemma hook_statics_inv:
  assumes inv: "settings_inv dlsym (None, c, s)" and n: "\<forall>T. s_fun_id c T \<noteq> - 1"
    and h: "hook_statics dlsym (c, s) = Inr (p, c', s')"
  shows "settings_inv dlsym (Some p, c', s')"
proof -
  obtain c1 k where l: "Lookup ''i'' ''tcp.connect.timeout'' (SInt 5000) ''tcp connect timeout'' c = Inr (Some p, c1)"
    and i: "HookIniter_new dlsym p (c1, s) = Inr (c', s')"
    using h by (auto simp: hook_statics_def res_iffs)
  from Lookup_inv [OF inv _ l] obtain x where inv1: "settings_inv dlsym (None, c1, s)" "s_fun_id c1 = s_fun_id c"
    and x: "vars c1 p = Some x" "cv_name x = ''tcp.connect.timeout''" "cv_type x = ''i''" by auto
  obtain k where add: "addListener p timeout_cb c1 = Inr (k, c')"
    and s': "s' = s\<lparr>o_orig := hook_init dlsym (o_orig s),
      o_hook := (o_hook s)\<lparr>s_connect_timeout := of_int (int_of (getValue x))\<rparr>\<rparr>"
    using i x(1) by (auto simp: HookIniter_new_def res_iffs Let_def)
  obtain kcs where a: "config_wf c'" "vars c' = (vars c1)(p \<mapsto> x\<lparr>cv_cbs := kcs\<rparr>)"
    "snd ` set kcs = insert timeout_cb (snd ` set (cv_cbs x))" "\<forall>kc\<in>set kcs. fst kc \<le> s_fun_id c' (cv_type x)"
    "\<forall>T. s_fun_id c1 T \<le> s_fun_id c' T"
    using addListener_effect [OF inv1(1) _ add] n inv1(2) x(1) by auto
  have "var_ok (Some p) (s_fun_id c') p (x\<lparr>cv_cbs := kcs\<rparr>)"
    using settings_invD(2) [OF inv1(1) x(1)] a(3,4) by (auto simp: var_ok_def)
  then have "\<forall>q y. vars c' q = Some y \<longrightarrow> var_ok (Some p) (s_fun_id c') q y"
    using var_ok_mono [OF settings_invD(2) [OF inv1(1)] a(5)] by (simp add: a(2))
  moreover have "timeout_var (x\<lparr>cv_cbs := kcs\<rparr>) s'" using x a(3) by (simp add: timeout_var_def s' getValue_def)
  ultimately show ?thesis using settings_invD(4) [OF inv] a(1,2) by (simp add: settings_inv_def s')
qed

text \<open>Loading documents.\<close>

lemma load_member_inv:
  assumes inv: "settings_inv dlsym (g, c, s)" and F: "casts_ok F" and l: "load_member Y F kn (c, s) = Inr (c', s')"
  shows "settings_inv dlsym (g, c', s')"
proof (cases "fst kn = [] \<or> s_datas c (map tolower (fst kn)) = None")
  case True
  then show ?thesis using inv l by (auto simp: load_member_def LookupBase_def Let_def split: if_splits)
next
  case False
  then obtain p where "s_datas c (map tolower (fst kn)) = Some p" by blast
  with False l obtain x b x' where x: "vars c p = Some x"
    and f: "fromString (F (cv_type x)) (node_text Y (snd kn)) x s = Inr (b, x', s')"
    and c': "c' = c\<lparr>vars := (vars c)(p \<mapsto> x')\<rparr>"
    by (auto simp: load_member_def LookupBase_def Let_def res_iffs)
  show ?thesis
  proof (cases "F (cv_type x) (node_text Y (snd kn))")
    case (Inl e)
    then have "x' = x" "s' = s" using f by (auto simp: fromString_def split: error.splits)
    then show ?thesis using inv x by (simp add: c' map_upd_triv)
  next
    case (Inr v)
    then obtain err where "setValue v x s = ((x', s'), err)"
      using f by (auto simp: fromString_def split: prod.splits option.splits error.splits)
    moreover have "has_type (cv_type x) v" using F Inr by (auto simp: casts_ok_def)
    ultimately show ?thesis unfolding c' by (rule setValue_inv [OF inv x, rotated])
  qed
qed

lemma load_members_inv:
  "settings_inv dlsym (g, c, s) \<Longrightarrow> casts_ok F \<Longrightarrow> load_members Y F kns (c, s) = Inr (c', s') \<Longrightarrow>
    settings_inv dlsym (g, c', s')"
proof (induction kns arbitrary: c s)
  case (Cons kn kns)
  then obtain c1 s1 where "load_member Y F kn (c, s) = Inr (c1, s1)" "load_members Y F kns (c1, s1) = Inr (c', s')"
    by (auto simp: res_iffs)
  with Cons show ?case using load_member_inv by blast
qed simp

lemma LoadFromYaml_inv:
  assumes "settings_inv dlsym (g, c, s)" and "casts_ok F" and "LoadFromYaml Y F root (c, s) = Inr (c', s')"
  shows "settings_inv dlsym (g, c', s')"
  using assms load_members_inv by (simp add: LoadFromYaml_def)

lemma unlisten_inv:
  assumes inv: "settings_inv dlsym (g, c, s)" and x: "vars c p = Some x" and g: "g \<noteq> Some p"
    and x': "x' = delListener key x \<or> x' = clearListener x"
  shows "settings_inv dlsym (g, c\<lparr>vars := (vars c)(p \<mapsto> x')\<rparr>, s)"
proof -
  have "config_wf (c\<lparr>vars := (vars c)(p \<mapsto> x')\<rparr>)"
    using settings_invD(1) [OF inv] x x' by (fastforce simp: config_wf_def delListener_def clearListener_def)
  moreover have "var_ok g (s_fun_id c) p x'"
    using settings_invD(2) [OF inv x] x'
    by (elim disjE) (simp_all add: var_ok_def delListener_def clearListener_def)
  ultimately show ?thesis using inv g by (auto simp: settings_inv_def)
qed

interpretation settings: inductive_invariant settings_init "settings_step dlsym" "settings_inv dlsym"
proof
  show "settings_inv dlsym gcs" if "settings_init gcs" for gcs :: "nat option \<times> 'a settings \<times> 'a outside"
    using that config_empty_wf by (auto simp: settings_init_def settings_inv_def config_empty_def split: prod.splits)
next
  show "settings_inv dlsym t" if "settings_inv dlsym u" and "settings_step dlsym u t"
    for u t :: "nat option \<times> 'a settings \<times> 'a outside"
    using that(2,1)
  proof cases
    case (s_fiber c po c' g s)
    then have l: "Lookup ''j'' ''fiber.stack_size'' (SUnsigned (128 * 1024)) ''fiber stack size'' c = Inr (po, c')"
      by (simp add: fiber_statics_def)
    show ?thesis using Lookup_inv [OF _ _ l, of dlsym g s] that(1) s_fiber by simp
  next
    case (s_log c os e c' g s)
    then obtain p k c1 where
      l: "Lookup ''St3setIN4duan9LogDefineE'' ''logs'' (SDefines []) ''logs config'' c = Inr (Some p, c1)"
      and a: "addListener p (logs_cb os e) c1 = Inr (k, c')"
      by (auto simp: log_statics_def LogIniter_new_def res_iffs)
    have inv: "settings_inv dlsym (g, c, s)" using that(1) s_log by simp
    from Lookup_inv [OF inv _ l] have "settings_inv dlsym (g, c1, s)" "s_fun_id c1 = s_fun_id c"
      "\<exists>x. vars c1 p = Some x \<and> cv_type x = ''St3setIN4duan9LogDefineE''" by auto
    then show ?thesis using addListener_inv [OF _ _ a, of dlsym g s] s_log by (auto simp: logs_cb_keeps)
  next
    case (s_hook c s p c' s')
    then show ?thesis using that(1) hook_statics_inv by blast
  next
    case (s_lookup T v name desc c po c' g s)
    then show ?thesis using that(1) Lookup_inv by blast
  next
    case (s_set c p x v s x' s' err g)
    then show ?thesis using that(1) setValue_inv by blast
  next
    case (s_load F Y root c s c' s' g)
    then show ?thesis using that(1) LoadFromYaml_inv by blast
  next
    case (s_listen c cb p k c' g s)
    then show ?thesis using that(1) addListener_inv by blast
  next
    case (s_unlisten c p x g x' key s)
    then show ?thesis using that(1) unlisten_inv by blast
  next
    case (s_other s s' g c)
    then show ?thesis using that(1) same_hook_inv by blast
  qed
qed

section \<open>Properties\<close>



text \<open>
  C19. From the document to the timer: when a document is loaded whose last member \<^verbatim>\<open>tcp.connect.timeout\<close> that
  converts is \<open>n\<close>, the loading returns; a \<^verbatim>\<open>connect\<close> that then has to wait is registered for writing with a timer
  whose deadline is \<open>n\<close> milliseconds from the call. For -1 it waits without a timer, and any other negative
  number is a time limit of many years.
\<close>

theorem loaded_timeout_is_used:
  assumes "reach settings_init (settings_step dlsym) (Some p, c, s)" and "casts_ok F"
    and "\<forall>T str e. F T str = Inl e \<longrightarrow> (\<exists>m. e = Throw m)" and "quiet_on (fst ` set (ListAllMember [] root)) c"
    and "vars c p = Some x" and "loaded Y F (ListAllMember [] root) x = SInt n"
  shows "\<exists>c' s'. LoadFromYaml Y F root (c, s) = Inr (c', s') \<and>
    (\<forall>M a ti fd r gs err cur g io timer h1.
       can_wait a fd WRITE cur g (o_hook s') io \<longrightarrow>
       hook_connect M a ti fd r gs err (o_hook s') = Inr (Yields timer, h1) \<longrightarrow>
       (if (of_int n :: u64) = - 1 then timer = None
        else \<exists>io1 t. mgr h1 = Some io1 \<and> timer = Some (c_timer a) \<and>
          registered io1 = (registered io)((fd, WRITE) \<mapsto> (io_self io, ft_of_fiber (Some cur) (- 1))) \<and>
          armed (timers io1) (c_timer a) = Some t \<and> m_next t = c_now a + of_int n))"
proof -
  have inv: "settings_inv dlsym (Some p, c, s)" by (rule settings.inv_reach [OF assms(1)])
  obtain s' where l: "LoadFromYaml Y F root (c, s) = Inr (with_values (loaded Y F (ListAllMember [] root)) c, s')"
    using LoadFromYaml_effect [OF settings_invD(1) [OF inv] assms(4,3)] by blast
  from LoadFromYaml_inv [OF inv assms(2) this]
  have "settings_inv dlsym (Some p, with_values (loaded Y F (ListAllMember [] root)) c, s')" .
  from settings_invD(3) [OF this refl] have t: "s_connect_timeout (o_hook s') = of_int n"
    using assms(5,6) by (auto simp: with_values_def timeout_var_def)
  have "if (of_int n :: u64) = - 1 then timer = None
        else \<exists>io1 t. mgr h1 = Some io1 \<and> timer = Some (c_timer a) \<and>
          registered io1 = (registered io)((fd, WRITE) \<mapsto> (io_self io, ft_of_fiber (Some cur) (- 1))) \<and>
          armed (timers io1) (c_timer a) = Some t \<and> m_next t = c_now a + of_int n"
    if cw: "can_wait a fd WRITE cur g (o_hook s') io"
      and y: "hook_connect M a ti fd r gs err (o_hook s') = Inr (Yields timer, h1)"
    for M a ti fd r gs err cur g io timer h1
  proof (cases "(of_int n :: u64) = - 1")
    case True
    then show ?thesis using connect_no_timer y by (simp add: hook_connect_def t)
  next
    case False
    have "connect_with_timeout M a ti fd r (of_int n) gs err (o_hook s') = Inr (Yields timer, h1)"
      using y by (simp add: hook_connect_def t)
    from connect_yields [OF cw False this] False show ?thesis by (auto simp: Timer_new_def)
  qed
  with l show ?thesis by blast
qed

section \<open>The theorems on a small program\<close>

text \<open>The program hooks its functions first, and then loads the document of \<^term>\<open>demo_document\<close>.\<close>

definition demo_outside :: "(bool \<times> u64) outside" where
  "demo_outside = \<lparr>o_log = demo_log, o_hook = demo_hook, o_orig = (False, originals_null)\<rparr>"

definition demo_hooked :: "(bool \<times> u64) settings" where
  "demo_hooked =
     (with_var ''i'' ''tcp.connect.timeout'' (SInt 5000) ''tcp connect timeout'' config_empty)
       \<lparr>s_fun_id := (\<lambda>T. 0)(''i'' := 1),
        vars := [0 \<mapsto> (ConfigVar_new ''tcp.connect.timeout'' (SInt 5000) ''tcp connect timeout'' ''i'')
          \<lparr>cv_cbs := [(1, timeout_cb)]\<rparr>]\<rparr>"

definition demo_settings_cast :: "string \<Rightarrow> string \<Rightarrow> setting res" where
  "demo_settings_cast T str =
     (if T = ''i'' \<and> str = ''7'' then Inr (SInt 7) else Inl (Throw ''bad lexical cast''))"

definition demo_started :: "(bool \<times> u64) outside" where
  "demo_started = demo_outside\<lparr>o_orig := hook_init (\<lambda>name. 1) (False, originals_null)\<rparr>"

lemma demo_hooked_reach: "reach settings_init (settings_step (\<lambda>name. 1)) (Some 0, demo_hooked, demo_started)"
proof -
  have n: "list_all (\<lambda>ch. ch \<in> set lookup_chars) ''tcp.connect.timeout''" by (simp add: lookup_chars_def)
  have "Lookup ''i'' ''tcp.connect.timeout'' (SInt 5000) ''tcp connect timeout'' (config_empty :: (bool \<times> u64) settings) =
      Inr (Some 0, with_var ''i'' ''tcp.connect.timeout'' (SInt 5000) ''tcp connect timeout'' config_empty)"
    unfolding Lookup_def by (subst n) (simp add: config_empty_def with_var_def)
  then have "hook_statics (\<lambda>name. 1) (config_empty, demo_outside) = Inr (0, demo_hooked, demo_started)"
    by (simp add: hook_statics_def HookIniter_new_def config_empty_def addListener_def ConfigVar_new_def
        demo_hooked_def with_var_def demo_started_def demo_outside_def demo_hook_def getValue_def)
  moreover have "\<forall>T. s_fun_id (config_empty :: (bool \<times> u64) settings) T \<noteq> - 1" by (simp add: config_empty_def)
  ultimately have "settings_step (\<lambda>name. 1) (None, config_empty, demo_outside) (Some 0, demo_hooked, demo_started)"
    by (intro s_hook)
  moreover have "reach settings_init (settings_step (\<lambda>name. 1)) (None, config_empty, demo_outside)"
    by (rule reach_init) (simp add: settings_init_def demo_outside_def)
  ultimately show ?thesis by (rule reach_step [rotated])
qed



text \<open>Loading changes the hook's time limit only.\<close>

lemma demo_loaded:
  "\<exists>c'. LoadFromYaml demo_seq demo_settings_cast demo_document (demo_hooked, demo_started) =
     Inr (c', demo_started\<lparr>o_hook := demo_hook\<lparr>s_connect_timeout := 7\<rparr>\<rparr>)"
  by (simp add: LoadFromYaml_def demo_members load_member_def LookupBase_def demo_hooked_def with_var_def config_empty_def
      fromString_def setValue_def timeout_cb_def demo_settings_cast_def ConfigVar_new_def tolower_def node_text_def
      connect_timeout_listener_def demo_started_def demo_outside_def)

theorem loaded_timeout_is_used_witness:
  "\<exists>c' s' timer h1 io1 t. LoadFromYaml demo_seq demo_settings_cast demo_document (demo_hooked, demo_started) = Inr (c', s') \<and>
     hook_connect demo_fdmgr demo_call 4 5 (- 1, EINPROGRESS) (0, 0) 0 (o_hook s') = Inr (Yields timer, h1) \<and>
     mgr h1 = Some io1 \<and> armed (timers io1) 1 = Some t \<and> m_next t = 107"
proof -
  let ?x = "(ConfigVar_new ''tcp.connect.timeout'' (SInt 5000) ''tcp connect timeout'' ''i'')\<lparr>cv_cbs := [(1, timeout_cb)]\<rparr>"
  let ?s = "demo_started\<lparr>o_hook := demo_hook\<lparr>s_connect_timeout := 7\<rparr>\<rparr>"
  have F: "casts_ok demo_settings_cast" "\<forall>T str e. demo_settings_cast T str = Inl e \<longrightarrow> (\<exists>m. e = Throw m)"
    by (auto simp: casts_ok_def demo_settings_cast_def split: if_splits)
  have q: "quiet_on (fst ` set (ListAllMember [] demo_document)) demo_hooked"
    by (auto simp: quiet_on_def demo_hooked_def timeout_cb_def split: if_splits)
  have x: "vars demo_hooked 0 = Some ?x" by (simp add: demo_hooked_def)
  have n: "loaded demo_seq demo_settings_cast (ListAllMember [] demo_document) ?x = SInt 7"
    by (simp add: demo_members loaded_def node_text_def demo_settings_cast_def ConfigVar_new_def tolower_def)
  obtain c' where l: "LoadFromYaml demo_seq demo_settings_cast demo_document (demo_hooked, demo_started) = Inr (c', ?s)"
    using demo_loaded by blast
  have cw: "can_wait demo_call 5 WRITE 1 demo_gt (o_hook ?s) demo_io"
    using demo_can_wait demo_io_inv(2) by (simp add: can_wait_def is_event_def)
  let ?h = "demo_hook\<lparr>s_connect_timeout := 7, errno := EINPROGRESS, cancelled := [4 \<mapsto> 0]\<rparr>"
  have "demo_io = demo_io\<lparr>timers := timers demo_io\<rparr>" by (cases demo_io) simp
  then have "mgr ?h = Some (demo_io\<lparr>timers := timers demo_io\<rparr>)" by simp
  from demo_wait_for [OF _ _ this, of WRITE 7] obtain h1 where "wait_for demo_call 4 7 5 WRITE ?h = Inr (0, Some 1, h1)"
    by (auto simp: is_event_def)
  then have y: "hook_connect demo_fdmgr demo_call 4 5 (- 1, EINPROGRESS) (0, 0) 0 (o_hook ?s) = Inr (Yields (Some 1), h1)"
    by (simp add: hook_connect_def connect_with_timeout_def demo_fdmgr_def get_ctx_def sys_call_def demo_hook_def)
  from loaded_timeout_is_used [OF demo_hooked_reach F q x n] l cw y show ?thesis by fastforce
qed

end
