(* ===== verification/Duan_Lock.thy ===== *)
theory Duan_Lock
  imports Duan_Prelude
begin

text \<open>
  \<^verbatim>\<open>thread.h\<close>, first part: the mutexes and the scoped locks. What the pthread functions do is their
  documented behaviour: a lock is free or held, a call that cannot get it waits, and releasing a lock
  one does not hold is undefined. A scoped lock is a guard object with the flag \<^verbatim>\<open>m_locked\<close>; any
  number of threads, each with a guard of its own, use one mutex in any order.
\<close>

section \<open>Mutexes\<close>

datatype 'm attempt = Waits | Acquired 'm

text \<open>\<^verbatim>\<open>Mutex\<close>: the thread that holds it. The default type is not recursive: locking it again waits forever.\<close>

type_synonym mutex = "int option"

definition Mutex_new :: mutex where
  "Mutex_new = None"

definition Mutex_lock :: "int \<Rightarrow> mutex \<Rightarrow> mutex attempt" where
  "Mutex_lock i m = (case m of None \<Rightarrow> Acquired (Some i) | Some j \<Rightarrow> Waits)"

definition Mutex_unlock :: "int \<Rightarrow> mutex \<Rightarrow> mutex res" where
  "Mutex_unlock i m = (if m = Some i then Inr None else Inl (UB ''unlock of a mutex not held''))"

definition Mutex_delete :: "mutex \<Rightarrow> unit res" where
  "Mutex_delete m = (if m = None then Inr () else Inl (UB ''destroy of a held mutex''))"

text \<open>\<^verbatim>\<open>Spinlock\<close>.\<close>

definition Spinlock_new :: mutex where
  "Spinlock_new = None"

definition Spinlock_delete :: "mutex \<Rightarrow> unit res" where
  "Spinlock_delete m = (if m = None then Inr () else Inl (UB ''destroy of a held spinlock''))"

definition Spinlock_lock :: "int \<Rightarrow> mutex \<Rightarrow> mutex attempt" where
  "Spinlock_lock i m = (if m = None then Acquired (Some i) else Waits)"

definition Spinlock_unlock :: "int \<Rightarrow> mutex \<Rightarrow> mutex res" where
  "Spinlock_unlock i m = (if m = Some i then Inr None else Inl (UB ''unlock of a spinlock not held''))"

text \<open>\<^verbatim>\<open>CASLock\<close>: an atomic flag. One turn of the loop in \<^verbatim>\<open>lock\<close> sets the flag and looks at its old value.\<close>

definition test_and_set :: "bool \<Rightarrow> bool \<times> bool" where
  "test_and_set flag = (flag, True)"

definition CASLock_new :: bool where
  "CASLock_new = False"

definition CASLock_delete :: "bool \<Rightarrow> unit res" where
  "CASLock_delete flag = Inr ()"

definition CASLock_lock :: "int \<Rightarrow> bool \<Rightarrow> bool attempt" where
  "CASLock_lock i flag = (let (old, flag') = test_and_set flag in if old then Waits else Acquired flag')"

definition CASLock_unlock :: "int \<Rightarrow> bool \<Rightarrow> bool res" where
  "CASLock_unlock i flag = Inr False"

text \<open>\<^verbatim>\<open>RWMutex\<close>: a writer or any number of readers.\<close>

record RWMutex =
  rw_writer :: "int option"
  rw_readers :: "int list"

definition RWMutex_new :: RWMutex where
  "RWMutex_new = \<lparr>rw_writer = None, rw_readers = []\<rparr>"

definition rdlock :: "int \<Rightarrow> RWMutex \<Rightarrow> RWMutex attempt" where
  "rdlock i m = (if rw_writer m = None then Acquired (m\<lparr>rw_readers := i # rw_readers m\<rparr>) else Waits)"

definition wrlock :: "int \<Rightarrow> RWMutex \<Rightarrow> RWMutex attempt" where
  "wrlock i m = (if rw_writer m = None \<and> rw_readers m = [] then Acquired (m\<lparr>rw_writer := Some i\<rparr>) else Waits)"

definition RWMutex_unlock :: "int \<Rightarrow> RWMutex \<Rightarrow> RWMutex res" where
  "RWMutex_unlock i m =
     (if rw_writer m = Some i then Inr (m\<lparr>rw_writer := None\<rparr>)
      else if i \<in> set (rw_readers m) then Inr (m\<lparr>rw_readers := remove1 i (rw_readers m)\<rparr>)
      else Inl (UB ''unlock of a lock not held''))"

definition RWMutex_delete :: "RWMutex \<Rightarrow> unit res" where
  "RWMutex_delete m =
     (if rw_writer m = None \<and> rw_readers m = [] then Inr () else Inl (UB ''destroy of a held lock''))"

text \<open>\<^verbatim>\<open>NullMutex\<close> and \<^verbatim>\<open>NullRWMutex\<close> never wait.\<close>

definition NullMutex_lock :: "int \<Rightarrow> unit \<Rightarrow> unit attempt" where
  "NullMutex_lock i m = Acquired m"

definition NullMutex_unlock :: "int \<Rightarrow> unit \<Rightarrow> unit res" where
  "NullMutex_unlock i m = Inr m"

definition NullRWMutex_rdlock :: "int \<Rightarrow> unit \<Rightarrow> unit attempt" where
  "NullRWMutex_rdlock i m = Acquired m"

definition NullRWMutex_wrlock :: "int \<Rightarrow> unit \<Rightarrow> unit attempt" where
  "NullRWMutex_wrlock i m = Acquired m"

definition NullRWMutex_unlock :: "int \<Rightarrow> unit \<Rightarrow> unit res" where
  "NullRWMutex_unlock i m = Inr m"

section \<open>Scoped locks\<close>

text \<open>
  The three templates, with the operations of the mutex as arguments: \<open>lockf\<close> is \<^verbatim>\<open>lock\<close>, or \<^verbatim>\<open>wrlock\<close> in
  \<^verbatim>\<open>WriteScopedLockImpl\<close>. \<^verbatim>\<open>ReadScopedLockImpl\<close> constructs with \<^verbatim>\<open>rdlock\<close>; its own \<^verbatim>\<open>lock\<close> calls \<^verbatim>\<open>lock\<close>, which an
  \<^verbatim>\<open>RWMutex\<close> does not have.
\<close>

definition ScopedLock_new :: "(int \<Rightarrow> 'm \<Rightarrow> 'm attempt) \<Rightarrow> int \<Rightarrow> 'm \<Rightarrow> ('m \<times> bool) attempt" where
  "ScopedLock_new lockf i m = (case lockf i m of Waits \<Rightarrow> Waits | Acquired m' \<Rightarrow> Acquired (m', True))"

definition ScopedLock_lock :: "(int \<Rightarrow> 'm \<Rightarrow> 'm attempt) \<Rightarrow> int \<Rightarrow> 'm \<times> bool \<Rightarrow> ('m \<times> bool) attempt" where
  "ScopedLock_lock lockf i mb =
     (let (m, m_locked) = mb in
      if \<not> m_locked then case lockf i m of Waits \<Rightarrow> Waits | Acquired m' \<Rightarrow> Acquired (m', True)
      else Acquired (m, m_locked))"

definition ScopedLock_unlock :: "(int \<Rightarrow> 'm \<Rightarrow> 'm res) \<Rightarrow> int \<Rightarrow> 'm \<times> bool \<Rightarrow> ('m \<times> bool) res" where
  "ScopedLock_unlock unlockf i mb =
     (let (m, m_locked) = mb in
      if m_locked then bind_res (unlockf i m) (\<lambda>m'. Inr (m', False)) else Inr (m, m_locked))"

definition ScopedLock_delete :: "(int \<Rightarrow> 'm \<Rightarrow> 'm res) \<Rightarrow> int \<Rightarrow> 'm \<times> bool \<Rightarrow> 'm res" where
  "ScopedLock_delete unlockf i mb = bind_res (ScopedLock_unlock unlockf i mb) (\<lambda>mb'. Inr (fst mb'))"

definition ReadScopedLock_new :: "(int \<Rightarrow> 'm \<Rightarrow> 'm attempt) \<Rightarrow> int \<Rightarrow> 'm \<Rightarrow> ('m \<times> bool) attempt" where
  "ReadScopedLock_new rdlockf i m = (case rdlockf i m of Waits \<Rightarrow> Waits | Acquired m' \<Rightarrow> Acquired (m', True))"

definition ReadScopedLock_lock :: "(int \<Rightarrow> 'm \<Rightarrow> 'm attempt) \<Rightarrow> int \<Rightarrow> 'm \<times> bool \<Rightarrow> ('m \<times> bool) attempt" where
  "ReadScopedLock_lock lockf i mb =
     (let (m, m_locked) = mb in
      if \<not> m_locked then case lockf i m of Waits \<Rightarrow> Waits | Acquired m' \<Rightarrow> Acquired (m', True)
      else Acquired (m, m_locked))"

definition ReadScopedLock_unlock :: "(int \<Rightarrow> 'm \<Rightarrow> 'm res) \<Rightarrow> int \<Rightarrow> 'm \<times> bool \<Rightarrow> ('m \<times> bool) res" where
  "ReadScopedLock_unlock unlockf i mb =
     (let (m, m_locked) = mb in
      if m_locked then bind_res (unlockf i m) (\<lambda>m'. Inr (m', False)) else Inr (m, m_locked))"

definition ReadScopedLock_delete :: "(int \<Rightarrow> 'm \<Rightarrow> 'm res) \<Rightarrow> int \<Rightarrow> 'm \<times> bool \<Rightarrow> 'm res" where
  "ReadScopedLock_delete unlockf i mb = bind_res (ReadScopedLock_unlock unlockf i mb) (\<lambda>mb'. Inr (fst mb'))"

definition WriteScopedLock_new :: "(int \<Rightarrow> 'm \<Rightarrow> 'm attempt) \<Rightarrow> int \<Rightarrow> 'm \<Rightarrow> ('m \<times> bool) attempt" where
  "WriteScopedLock_new wrlockf i m = (case wrlockf i m of Waits \<Rightarrow> Waits | Acquired m' \<Rightarrow> Acquired (m', True))"

definition WriteScopedLock_lock :: "(int \<Rightarrow> 'm \<Rightarrow> 'm attempt) \<Rightarrow> int \<Rightarrow> 'm \<times> bool \<Rightarrow> ('m \<times> bool) attempt" where
  "WriteScopedLock_lock wrlockf i mb =
     (let (m, m_locked) = mb in
      if \<not> m_locked then case wrlockf i m of Waits \<Rightarrow> Waits | Acquired m' \<Rightarrow> Acquired (m', True)
      else Acquired (m, m_locked))"

definition WriteScopedLock_unlock :: "(int \<Rightarrow> 'm \<Rightarrow> 'm res) \<Rightarrow> int \<Rightarrow> 'm \<times> bool \<Rightarrow> ('m \<times> bool) res" where
  "WriteScopedLock_unlock unlockf i mb =
     (let (m, m_locked) = mb in
      if m_locked then bind_res (unlockf i m) (\<lambda>m'. Inr (m', False)) else Inr (m, m_locked))"

definition WriteScopedLock_delete :: "(int \<Rightarrow> 'm \<Rightarrow> 'm res) \<Rightarrow> int \<Rightarrow> 'm \<times> bool \<Rightarrow> 'm res" where
  "WriteScopedLock_delete unlockf i mb = bind_res (WriteScopedLock_unlock unlockf i mb) (\<lambda>mb'. Inr (fst mb'))"

text \<open>The three templates do the same with the operations they are given.\<close>

lemma scoped_lock_templates:
  "ReadScopedLock_new = ScopedLock_new" "ReadScopedLock_unlock = ScopedLock_unlock"
  "ReadScopedLock_delete = ScopedLock_delete" "WriteScopedLock_new = ScopedLock_new"
  "WriteScopedLock_lock = ScopedLock_lock" "WriteScopedLock_unlock = ScopedLock_unlock"
  "WriteScopedLock_delete = ScopedLock_delete"
  by (simp_all add: fun_eq_iff ReadScopedLock_new_def ReadScopedLock_unlock_def ReadScopedLock_delete_def
      WriteScopedLock_new_def WriteScopedLock_lock_def WriteScopedLock_unlock_def WriteScopedLock_delete_def
      ScopedLock_new_def ScopedLock_lock_def ScopedLock_unlock_def ScopedLock_delete_def)

section \<open>Threads with guards on one mutex\<close>

text \<open>\<open>g i\<close> is the guard of thread \<open>i\<close>, if it exists: its flag \<^verbatim>\<open>m_locked\<close>.\<close>

inductive guard_step ::
  "(int \<Rightarrow> 'm \<Rightarrow> 'm attempt) \<Rightarrow> (int \<Rightarrow> 'm \<Rightarrow> 'm res) \<Rightarrow> 'm \<times> (int \<Rightarrow> bool option) \<Rightarrow> 'm \<times> (int \<Rightarrow> bool option) \<Rightarrow> bool"
  for lockf unlockf where
  guard_new: "g i = None \<Longrightarrow> ScopedLock_new lockf i m = Acquired (m', b) \<Longrightarrow>
     guard_step lockf unlockf (m, g) (m', g(i \<mapsto> b))"
| guard_lock: "g i = Some b \<Longrightarrow> ScopedLock_lock lockf i (m, b) = Acquired (m', b') \<Longrightarrow>
     guard_step lockf unlockf (m, g) (m', g(i \<mapsto> b'))"
| guard_unlock: "g i = Some b \<Longrightarrow> ScopedLock_unlock unlockf i (m, b) = Inr (m', b') \<Longrightarrow>
     guard_step lockf unlockf (m, g) (m', g(i \<mapsto> b'))"
| guard_delete: "g i = Some b \<Longrightarrow> ScopedLock_delete unlockf i (m, b) = Inr m' \<Longrightarrow>
     guard_step lockf unlockf (m, g) (m', g(i := None))"

definition guard_init :: "'m \<Rightarrow> 'm \<times> (int \<Rightarrow> bool option) \<Rightarrow> bool" where
  "guard_init m0 s \<longleftrightarrow> s = (m0, Map.empty)"

text \<open>
  What the users of a scoped lock rely on: at most one guard is locked; unlocking and destroying a guard
  never releases a mutex that is not held; and when no guard is locked a waiting thread gets the mutex, and
  destroying it is defined.
\<close>

definition lock_system_safe ::
  "'m \<Rightarrow> (int \<Rightarrow> 'm \<Rightarrow> 'm attempt) \<Rightarrow> (int \<Rightarrow> 'm \<Rightarrow> 'm res) \<Rightarrow> ('m \<Rightarrow> unit res) \<Rightarrow> bool" where
  "lock_system_safe m0 lockf unlockf deletef \<longleftrightarrow>
     (\<forall>m g. reach (guard_init m0) (guard_step lockf unlockf) (m, g) \<longrightarrow>
        (\<forall>i j. g i = Some True \<longrightarrow> g j = Some True \<longrightarrow> i = j) \<and>
        (\<forall>i b. g i = Some b \<longrightarrow>
           (\<exists>m'. ScopedLock_unlock unlockf i (m, b) = Inr (m', False)) \<and>
           (\<exists>m'. ScopedLock_delete unlockf i (m, b) = Inr m')) \<and>
        ((\<forall>i. g i \<noteq> Some True) \<longrightarrow>
           (\<forall>i. \<exists>m'. ScopedLock_new lockf i m = Acquired (m', True)) \<and> deletef m = Inr ()))"

text \<open>The laws of a mutex.\<close>

locale lockable =
  fixes m0 :: 'm
    and lockf :: "int \<Rightarrow> 'm \<Rightarrow> 'm attempt"
    and unlockf :: "int \<Rightarrow> 'm \<Rightarrow> 'm res"
    and deletef :: "'m \<Rightarrow> unit res"
    and free :: "'m \<Rightarrow> bool"
    and held :: "int \<Rightarrow> 'm \<Rightarrow> bool"
  assumes free_init: "free m0"
    and lock_free: "free m \<Longrightarrow> \<exists>m'. lockf i m = Acquired m' \<and> held i m'"
    and lock_held: "held i m \<Longrightarrow> lockf j m = Waits"
    and unlock_held: "held i m \<Longrightarrow> \<exists>m'. unlockf i m = Inr m' \<and> free m'"
    and delete_free: "free m \<Longrightarrow> deletef m = Inr ()"
begin

definition inv :: "'m \<times> (int \<Rightarrow> bool option) \<Rightarrow> bool" where
  "inv s \<longleftrightarrow>
     (free (fst s) \<and> (\<forall>i. snd s i \<noteq> Some True)) \<or>
     (\<exists>i. held i (fst s) \<and> (\<forall>j. snd s j = Some True \<longleftrightarrow> j = i))"

lemma inv_cases:
  assumes "inv (m, g)"
  obtains (free) "free m" "\<And>i. g i \<noteq> Some True" | (held) i where "held i m" "\<And>j. g j = Some True \<longleftrightarrow> j = i"
  using assms by (auto simp: inv_def)

text \<open>Taking the lock for a guard, and giving it back.\<close>

lemma inv_acquire:
  assumes "inv (m, g)" and "lockf i m = Acquired m'"
  shows "inv (m', g(i \<mapsto> True))"
  using assms(1)
proof (cases rule: inv_cases)
  case free
  with lock_free [of m i] assms(2) show ?thesis by (auto simp: inv_def)
next
  case (held j)
  with lock_held [of j m i] assms(2) show ?thesis by simp
qed

lemma inv_release:
  assumes "inv (m, g)" and "g i = Some True"
  shows "\<exists>m'. unlockf i m = Inr m' \<and> free m' \<and> (\<forall>j. j \<noteq> i \<longrightarrow> g j \<noteq> Some True)"
  using assms(1)
proof (cases rule: inv_cases)
  case (held j)
  with assms(2) unlock_held [of j m] show ?thesis by auto
qed (use assms(2) in simp)

lemma inv_unlocked:
  assumes "inv (m, g)" and "g i \<noteq> Some True" and "b \<noteq> Some True"
  shows "inv (m, g(i := b))"
  using assms(1)
proof (cases rule: inv_cases)
  case free
  then show ?thesis using assms(3) by (auto simp: inv_def)
next
  case (held j)
  then have "j \<noteq> i" using assms(2) by auto
  then have "\<forall>k. (g(i := b)) k = Some True \<longleftrightarrow> k = j" using held(2) assms(3) by auto
  with held(1) show ?thesis unfolding inv_def by auto
qed

lemma inv_unlock:
  assumes "inv (m, g)" and "g i = Some b"
  shows "\<exists>m'. ScopedLock_unlock unlockf i (m, b) = Inr (m', False) \<and>
    (\<forall>b'. b' \<noteq> Some True \<longrightarrow> inv (m', g(i := b')))"
proof (cases b)
  case True
  with inv_release [of m g i] assms obtain m' where "unlockf i m = Inr m'" "free m'" "\<forall>j. j \<noteq> i \<longrightarrow> g j \<noteq> Some True"
    by auto
  with True show ?thesis by (auto simp: ScopedLock_unlock_def inv_def)
next
  case False
  with assms inv_unlocked [of m g i] show ?thesis by (auto simp: ScopedLock_unlock_def)
qed

lemma inv_step: "inv s \<Longrightarrow> guard_step lockf unlockf s t \<Longrightarrow> inv t"
proof (erule guard_step.cases)
  fix g i m m' b
  assume "inv s" "s = (m, g)" "t = (m', g(i \<mapsto> b))" "ScopedLock_new lockf i m = Acquired (m', b)"
  then show "inv t" by (auto simp: ScopedLock_new_def intro: inv_acquire split: attempt.splits)
next
  fix g i b m m' b'
  assume a: "inv s" "s = (m, g)" "t = (m', g(i \<mapsto> b'))" "g i = Some b" "ScopedLock_lock lockf i (m, b) = Acquired (m', b')"
  show "inv t"
  proof (cases b)
    case True
    then have "t = s" using a by (auto simp: ScopedLock_lock_def)
    with a show ?thesis by simp
  next
    case False
    with a show ?thesis by (auto simp: ScopedLock_lock_def intro: inv_acquire split: attempt.splits)
  qed
next
  fix g i b m m' b'
  assume "inv s" "s = (m, g)" "t = (m', g(i \<mapsto> b'))" "g i = Some b" "ScopedLock_unlock unlockf i (m, b) = Inr (m', b')"
  then show "inv t" using inv_unlock [of m g i b] by auto
next
  fix g i b m m'
  assume "inv s" "s = (m, g)" "t = (m', g(i := None))" "g i = Some b" "ScopedLock_delete unlockf i (m, b) = Inr m'"
  then show "inv t" using inv_unlock [of m g i b] by (auto simp: ScopedLock_delete_def)
qed

lemma inv_init: "guard_init m0 s \<Longrightarrow> inv s"
  by (simp add: guard_init_def inv_def free_init)

end

sublocale lockable \<subseteq> guards: inductive_invariant "guard_init m0" "guard_step lockf unlockf" inv
  by unfold_locales (auto intro: inv_init inv_step)

context lockable
begin

lemma system_safe: "lock_system_safe m0 lockf unlockf deletef"
  unfolding lock_system_safe_def
proof (intro allI impI conjI)
  fix m g
  assume "reach (guard_init m0) (guard_step lockf unlockf) (m, g)"
  then have inv: "inv (m, g)" by (rule guards.inv_reach)
  show "i = j" if "g i = Some True" "g j = Some True" for i j
    using inv that by (cases rule: inv_cases) auto
  show "\<exists>m'. ScopedLock_unlock unlockf i (m, b) = Inr (m', False)" if "g i = Some b" for i b
    using inv_unlock [OF inv that] by blast
  show "\<exists>m'. ScopedLock_delete unlockf i (m, b) = Inr m'" if "g i = Some b" for i b
    using inv_unlock [OF inv that] by (auto simp: ScopedLock_delete_def)
  show "\<exists>m'. ScopedLock_new lockf i m = Acquired (m', True)" if "\<forall>i. g i \<noteq> Some True" for i
    using inv
  proof (cases rule: inv_cases)
    case free
    with lock_free [of m i] show ?thesis by (auto simp: ScopedLock_new_def)
  qed (use that in auto)
  show "deletef m = Inr ()" if "\<forall>i. g i \<noteq> Some True"
    using inv that by (cases rule: inv_cases) (auto intro: delete_free)
qed

end

interpretation mutex_lock: lockable Mutex_new Mutex_lock Mutex_unlock Mutex_delete "\<lambda>m. m = None" "\<lambda>i m. m = Some i"
  by unfold_locales (auto simp: Mutex_new_def Mutex_lock_def Mutex_unlock_def Mutex_delete_def)

interpretation spin_lock: lockable Spinlock_new Spinlock_lock Spinlock_unlock Spinlock_delete
    "\<lambda>m. m = None" "\<lambda>i m. m = Some i"
  by unfold_locales (auto simp: Spinlock_new_def Spinlock_lock_def Spinlock_unlock_def Spinlock_delete_def)

interpretation cas_lock: lockable CASLock_new CASLock_lock CASLock_unlock CASLock_delete
    "\<lambda>flag. \<not> flag" "\<lambda>i flag. flag"
  by unfold_locales (auto simp: CASLock_new_def CASLock_lock_def CASLock_unlock_def CASLock_delete_def test_and_set_def)

interpretation write_lock: lockable RWMutex_new wrlock RWMutex_unlock RWMutex_delete "\<lambda>m. m = RWMutex_new"
    "\<lambda>i m. m = \<lparr>rw_writer = Some i, rw_readers = []\<rparr>"
  by unfold_locales (auto simp: RWMutex_new_def wrlock_def RWMutex_unlock_def RWMutex_delete_def)

text \<open>
  C22. Scoped locks exclude each other. With any number of threads, each constructing, locking, unlocking and
  destroying guards in any order and as often as it likes, on a Mutex, a Spinlock, a CASLock or (for
  writing) an RWMutex: at most one guard is locked, no guard ever releases a mutex that it does not hold, in
  particular not twice, and when no guard is locked every thread can get the mutex at once, and destroying
  the mutex is defined.
\<close>

theorem scoped_locks_exclude:
  "lock_system_safe Mutex_new Mutex_lock Mutex_unlock Mutex_delete \<and>
   lock_system_safe Spinlock_new Spinlock_lock Spinlock_unlock Spinlock_delete \<and>
   lock_system_safe CASLock_new CASLock_lock CASLock_unlock CASLock_delete \<and>
   lock_system_safe RWMutex_new wrlock RWMutex_unlock RWMutex_delete"
  using mutex_lock.system_safe spin_lock.system_safe cas_lock.system_safe write_lock.system_safe by blast

section \<open>Readers and writers\<close>

text \<open>Guards of both kinds on one \<^verbatim>\<open>RWMutex\<close>: whether it is for writing, and its flag.\<close>

type_synonym rw_guards = "int \<Rightarrow> (bool \<times> bool) option"

inductive rw_step :: "RWMutex \<times> rw_guards \<Rightarrow> RWMutex \<times> rw_guards \<Rightarrow> bool" where
  read_new: "g i = None \<Longrightarrow> ReadScopedLock_new rdlock i m = Acquired (m', b) \<Longrightarrow>
     rw_step (m, g) (m', g(i \<mapsto> (False, b)))"
| write_new: "g i = None \<Longrightarrow> WriteScopedLock_new wrlock i m = Acquired (m', b) \<Longrightarrow>
     rw_step (m, g) (m', g(i \<mapsto> (True, b)))"
| write_lock: "g i = Some (True, b) \<Longrightarrow> WriteScopedLock_lock wrlock i (m, b) = Acquired (m', b') \<Longrightarrow>
     rw_step (m, g) (m', g(i \<mapsto> (True, b')))"
| read_unlock: "g i = Some (False, b) \<Longrightarrow> ReadScopedLock_unlock RWMutex_unlock i (m, b) = Inr (m', b') \<Longrightarrow>
     rw_step (m, g) (m', g(i \<mapsto> (False, b')))"
| write_unlock: "g i = Some (True, b) \<Longrightarrow> WriteScopedLock_unlock RWMutex_unlock i (m, b) = Inr (m', b') \<Longrightarrow>
     rw_step (m, g) (m', g(i \<mapsto> (True, b')))"
| read_delete: "g i = Some (False, b) \<Longrightarrow> ReadScopedLock_delete RWMutex_unlock i (m, b) = Inr m' \<Longrightarrow>
     rw_step (m, g) (m', g(i := None))"
| write_delete: "g i = Some (True, b) \<Longrightarrow> WriteScopedLock_delete RWMutex_unlock i (m, b) = Inr m' \<Longrightarrow>
     rw_step (m, g) (m', g(i := None))"

text \<open>The lock operation of a guard's kind.\<close>

definition rw_lock :: "bool \<Rightarrow> int \<Rightarrow> RWMutex \<Rightarrow> RWMutex attempt" where
  "rw_lock write = (if write then wrlock else rdlock)"

definition rw_init :: "RWMutex \<times> rw_guards \<Rightarrow> bool" where
  "rw_init s \<longleftrightarrow> s = (RWMutex_new, Map.empty)"

text \<open>The lock knows exactly the locked guards.\<close>

definition rw_inv :: "RWMutex \<times> rw_guards \<Rightarrow> bool" where
  "rw_inv s \<longleftrightarrow>
     (\<forall>i. rw_writer (fst s) = Some i \<longleftrightarrow> snd s i = Some (True, True)) \<and>
     (\<forall>i. i \<in> set (rw_readers (fst s)) \<longleftrightarrow> snd s i = Some (False, True)) \<and>
     distinct (rw_readers (fst s)) \<and> (rw_writer (fst s) \<noteq> None \<longrightarrow> rw_readers (fst s) = [])"

lemma rw_inv_acquire:
  assumes "rw_inv (m, g)" and "\<And>w. g i \<noteq> Some (w, True)" and "rw_lock w i m = Acquired m'"
  shows "rw_inv (m', g(i \<mapsto> (w, True)))"
proof (cases w)
  case True
  with assms show ?thesis
    by (auto simp: rw_inv_def rw_lock_def wrlock_def split: if_splits)
next
  case False
  with assms(3) have m': "m' = m\<lparr>rw_readers := i # rw_readers m\<rparr>" "rw_writer m = None"
    by (auto simp: rw_lock_def rdlock_def split: if_splits)
  with False assms(1,2) show ?thesis by (auto simp: rw_inv_def)
qed

lemma rw_inv_unlock:
  assumes "rw_inv (m, g)" and "g i = Some (w, b)"
  shows "\<exists>m'. ScopedLock_unlock RWMutex_unlock i (m, b) = Inr (m', False) \<and>
    (\<forall>x. (\<forall>w. x \<noteq> Some (w, True)) \<longrightarrow> rw_inv (m', g(i := x)))"
proof (cases b)
  case False
  with assms show ?thesis by (auto simp: ScopedLock_unlock_def rw_inv_def)
next
  case b: True
  show ?thesis
  proof (cases w)
    case True
    with b assms have m: "rw_writer m = Some i" "rw_readers m = []" by (auto simp: rw_inv_def)
    with b assms(1) show ?thesis by (auto simp: ScopedLock_unlock_def RWMutex_unlock_def rw_inv_def)
  next
    case False
    with b assms have m: "rw_writer m \<noteq> Some i" "i \<in> set (rw_readers m)" "distinct (rw_readers m)"
      by (auto simp: rw_inv_def)
    then have "ScopedLock_unlock RWMutex_unlock i (m, b) = Inr (m\<lparr>rw_readers := remove1 i (rw_readers m)\<rparr>, False)"
      using b by (simp add: ScopedLock_unlock_def RWMutex_unlock_def)
    moreover have "rw_inv (m\<lparr>rw_readers := remove1 i (rw_readers m)\<rparr>, g(i := x))" if "\<forall>w. x \<noteq> Some (w, True)" for x
      using assms(1) m that by (auto simp: rw_inv_def)
    ultimately show ?thesis by blast
  qed
qed

interpretation rw_system: inductive_invariant rw_init rw_step rw_inv
proof
  show "rw_inv s" if "rw_init s" for s using that by (simp add: rw_init_def rw_inv_def RWMutex_new_def)
  show "rw_inv t" if "rw_inv s" and "rw_step s t" for s t
    using that(2,1)
  proof cases
    case (read_new g i m m' b)
    with \<open>rw_inv s\<close> rw_inv_acquire [of m g i False m'] show ?thesis
      by (auto simp: scoped_lock_templates ScopedLock_new_def rw_lock_def split: attempt.splits)
  next
    case (write_new g i m m' b)
    with \<open>rw_inv s\<close> rw_inv_acquire [of m g i True m'] show ?thesis
      by (auto simp: scoped_lock_templates ScopedLock_new_def rw_lock_def split: attempt.splits)
  next
    case (write_lock g i b m m' b')
    show ?thesis
    proof (cases b)
      case True
      with write_lock have "t = s" by (auto simp: scoped_lock_templates ScopedLock_lock_def)
      with \<open>rw_inv s\<close> show ?thesis by simp
    next
      case False
      with write_lock \<open>rw_inv s\<close> show ?thesis
        using rw_inv_acquire [of m g i True m']
        by (auto simp: scoped_lock_templates ScopedLock_lock_def rw_lock_def split: attempt.splits)
    qed
  next
    case (read_unlock g i b m m' b')
    with \<open>rw_inv s\<close> rw_inv_unlock [of m g i False b] show ?thesis by (auto simp: scoped_lock_templates)
  next
    case (write_unlock g i b m m' b')
    with \<open>rw_inv s\<close> rw_inv_unlock [of m g i True b] show ?thesis by (auto simp: scoped_lock_templates)
  next
    case (read_delete g i b m m')
    with \<open>rw_inv s\<close> rw_inv_unlock [of m g i False b] show ?thesis
      by (auto simp: scoped_lock_templates ScopedLock_delete_def)
  next
    case (write_delete g i b m m')
    with \<open>rw_inv s\<close> rw_inv_unlock [of m g i True b] show ?thesis
      by (auto simp: scoped_lock_templates ScopedLock_delete_def)
  qed
qed

text \<open>
  C39. Readers and writers. A locked write guard is the only locked guard of its RWMutex; unlocking and
  destroying guards is always defined; a reader waits only for a locked write guard, and a writer only for
  some locked guard; and when no guard is locked the RWMutex can be destroyed.
\<close>

theorem rw_locks_exclude:
  assumes "reach rw_init rw_step (m, g)"
  shows "(\<forall>i j w. g i = Some (True, True) \<longrightarrow> g j = Some (w, True) \<longrightarrow> j = i) \<and>
    (\<forall>i b. g i = Some (False, b) \<longrightarrow> (\<exists>m'. ReadScopedLock_delete RWMutex_unlock i (m, b) = Inr m')) \<and>
    (\<forall>i b. g i = Some (True, b) \<longrightarrow> (\<exists>m'. WriteScopedLock_delete RWMutex_unlock i (m, b) = Inr m')) \<and>
    (\<forall>i. ReadScopedLock_new rdlock i m = Waits \<longrightarrow> (\<exists>j. g j = Some (True, True))) \<and>
    (\<forall>i. WriteScopedLock_new wrlock i m = Waits \<longrightarrow> (\<exists>j w. g j = Some (w, True))) \<and>
    ((\<forall>j w. g j \<noteq> Some (w, True)) \<longrightarrow> RWMutex_delete m = Inr ())"
proof (intro conjI allI impI)
  have inv: "rw_inv (m, g)" by (rule rw_system.inv_reach [OF assms])
  then have wr: "rw_writer m = Some i \<longleftrightarrow> g i = Some (True, True)" for i by (simp add: rw_inv_def)
  have rd: "i \<in> set (rw_readers m) \<longleftrightarrow> g i = Some (False, True)" for i using inv by (simp add: rw_inv_def)
  show "j = i" if "g i = Some (True, True)" "g j = Some (w, True)" for i j w
  proof (cases w)
    case True
    with that wr [of i] wr [of j] show ?thesis by simp
  next
    case False
    with that wr [of i] rd [of j] inv show ?thesis by (simp add: rw_inv_def)
  qed
  show "\<exists>m'. ReadScopedLock_delete RWMutex_unlock i (m, b) = Inr m'" if "g i = Some (False, b)" for i b
    using rw_inv_unlock [OF inv that] by (auto simp: scoped_lock_templates ScopedLock_delete_def)
  show "\<exists>m'. WriteScopedLock_delete RWMutex_unlock i (m, b) = Inr m'" if "g i = Some (True, b)" for i b
    using rw_inv_unlock [OF inv that] by (auto simp: scoped_lock_templates ScopedLock_delete_def)
  show "RWMutex_delete m = Inr ()" if "\<forall>j w. g j \<noteq> Some (w, True)"
  proof -
    have "rw_writer m = None" using that wr by (cases "rw_writer m") auto
    moreover have "rw_readers m = []" using that rd by (metis list.set_intros(1) neq_Nil_conv)
    ultimately show ?thesis by (simp add: RWMutex_delete_def)
  qed
  show "\<exists>j. g j = Some (True, True)" if "ReadScopedLock_new rdlock i m = Waits" for i
    using that wr by (auto simp: scoped_lock_templates ScopedLock_new_def rdlock_def split: attempt.splits if_splits)
  show "\<exists>j w. g j = Some (w, True)" if "WriteScopedLock_new wrlock i m = Waits" for i
  proof (cases "rw_writer m")
    case None
    with that have "rw_readers m \<noteq> []" by (auto simp: scoped_lock_templates ScopedLock_new_def wrlock_def)
    then show ?thesis using rd by (metis list.set_intros(1) neq_Nil_conv)
  next
    case (Some j)
    with wr show ?thesis by blast
  qed
qed

theorem rw_locks_exclude_witness:
  "\<exists>m'. ReadScopedLock_delete RWMutex_unlock 7 (\<lparr>rw_writer = None, rw_readers = [7]\<rparr>, True) = Inr m'"
proof -
  have "rw_step (RWMutex_new, Map.empty) (\<lparr>rw_writer = None, rw_readers = [7]\<rparr>, [7 \<mapsto> (False, True)])"
    by (rule read_new) (simp_all add: ReadScopedLock_new_def rdlock_def RWMutex_new_def)
  then have "reach rw_init rw_step (\<lparr>rw_writer = None, rw_readers = [7]\<rparr>, [7 \<mapsto> (False, True)])"
    by (rule reach_step [OF reach_init, rotated]) (simp add: rw_init_def)
  from rw_locks_exclude [OF this, THEN conjunct2, THEN conjunct1, rule_format, of 7 True] show ?thesis by simp
qed

end
