(* ===== verification/Sylar_Mutex.thy ===== *)
theory Sylar_Mutex
  imports Duan_Lock
begin

text \<open>
  \<^verbatim>\<open>mutex.h\<close>, \<^verbatim>\<open>mutex.cc\<close>: the locks of the namespace \<^verbatim>\<open>sylar\<close>, from which those of \<^verbatim>\<open>thread.h\<close> were made. No other
  file includes them, and they do not compile as they are: the destructor of \<^verbatim>\<open>WriteScopedLockImpl\<close> is
  misspelt and has no parameter list. They are modelled with that destructor as it is meant, over the
  same behaviour of pthreads as in \<^verbatim>\<open>Duan_Lock\<close>. Unlike there, \<^verbatim>\<open>RWMutex\<close> has no \<^verbatim>\<open>rdlock\<close>, so a read guard for it
  cannot be constructed.
\<close>

section \<open>Semaphores\<close>

text \<open>
  A semaphore by its value; \<open>rt\<close> is what the function of the system returned, and \<open>vmax\<close> is \<^verbatim>\<open>SEM_VALUE_MAX\<close>. A
  \<^verbatim>\<open>sem_wait\<close> that a signal interrupts fails, which \<^verbatim>\<open>wait\<close> turns into an exception.
\<close>

definition sylar_Semaphore_new :: "nat \<Rightarrow> u32 \<Rightarrow> nat res" where
  "sylar_Semaphore_new vmax count = (if vmax < unat count then Inl (Throw ''sem_init error'') else Inr (unat count))"

definition sylar_Semaphore_wait :: "bool \<Rightarrow> nat \<Rightarrow> nat attempt res" where
  "sylar_Semaphore_wait interrupted v =
     (if interrupted then Inl (Throw ''sem_wait error'') else if v = 0 then Inr Waits else Inr (Acquired (v - 1)))"

definition sylar_Semaphore_notify :: "nat \<Rightarrow> nat \<Rightarrow> nat res" where
  "sylar_Semaphore_notify vmax v = (if v = vmax then Inl (Throw ''sem_post error'') else Inr (v + 1))"

section \<open>Mutexes\<close>

definition sylar_Mutex_new :: "mutex" where
  "sylar_Mutex_new = None"

definition sylar_Mutex_lock :: "int \<Rightarrow> mutex \<Rightarrow> mutex attempt" where
  "sylar_Mutex_lock i m = (case m of None \<Rightarrow> Acquired (Some i) | Some j \<Rightarrow> Waits)"

definition sylar_Mutex_unlock :: "int \<Rightarrow> mutex \<Rightarrow> mutex res" where
  "sylar_Mutex_unlock i m = (if m = Some i then Inr None else Inl (UB ''unlock of a mutex not held''))"

definition sylar_Mutex_delete :: "mutex \<Rightarrow> unit res" where
  "sylar_Mutex_delete m = (if m = None then Inr () else Inl (UB ''destroy of a held mutex''))"

definition sylar_Spinlock_new :: "mutex" where
  "sylar_Spinlock_new = None"

definition sylar_Spinlock_lock :: "int \<Rightarrow> mutex \<Rightarrow> mutex attempt" where
  "sylar_Spinlock_lock i m = (if m = None then Acquired (Some i) else Waits)"

definition sylar_Spinlock_unlock :: "int \<Rightarrow> mutex \<Rightarrow> mutex res" where
  "sylar_Spinlock_unlock i m = (if m = Some i then Inr None else Inl (UB ''unlock of a spinlock not held''))"

definition sylar_Spinlock_delete :: "mutex \<Rightarrow> unit res" where
  "sylar_Spinlock_delete m = (if m = None then Inr () else Inl (UB ''destroy of a held spinlock''))"

definition sylar_CASLock_new :: "bool" where
  "sylar_CASLock_new = False"

definition sylar_CASLock_lock :: "int \<Rightarrow> bool \<Rightarrow> bool attempt" where
  "sylar_CASLock_lock i flag = (let (old, flag') = test_and_set flag in if old then Waits else Acquired flag')"

definition sylar_CASLock_unlock :: "int \<Rightarrow> bool \<Rightarrow> bool res" where
  "sylar_CASLock_unlock i flag = Inr False"

definition sylar_CASLock_delete :: "bool \<Rightarrow> unit res" where
  "sylar_CASLock_delete flag = Inr ()"

text \<open>\<^verbatim>\<open>RWMutex\<close>: only writers.\<close>

definition sylar_RWMutex_new :: "mutex" where
  "sylar_RWMutex_new = None"

definition sylar_wrlock :: "int \<Rightarrow> mutex \<Rightarrow> mutex attempt" where
  "sylar_wrlock i m = (if m = None then Acquired (Some i) else Waits)"

definition sylar_RWMutex_unlock :: "int \<Rightarrow> mutex \<Rightarrow> mutex res" where
  "sylar_RWMutex_unlock i m = (if m = Some i then Inr None else Inl (UB ''unlock of a lock not held''))"

definition sylar_RWMutex_delete :: "mutex \<Rightarrow> unit res" where
  "sylar_RWMutex_delete m = (if m = None then Inr () else Inl (UB ''destroy of a held lock''))"

text \<open>The null locks.\<close>

definition sylar_NullMutex_lock :: "int \<Rightarrow> unit \<Rightarrow> unit attempt" where
  "sylar_NullMutex_lock i m = Acquired m"

definition sylar_NullMutex_unlock :: "int \<Rightarrow> unit \<Rightarrow> unit res" where
  "sylar_NullMutex_unlock i m = Inr m"

definition sylar_NullRWMutex_rdlock :: "int \<Rightarrow> unit \<Rightarrow> unit attempt" where
  "sylar_NullRWMutex_rdlock i m = Acquired m"

definition sylar_NullRWMutex_wrlock :: "int \<Rightarrow> unit \<Rightarrow> unit attempt" where
  "sylar_NullRWMutex_wrlock i m = Acquired m"

definition sylar_NullRWMutex_unlock :: "int \<Rightarrow> unit \<Rightarrow> unit res" where
  "sylar_NullRWMutex_unlock i m = Inr m"

section \<open>Scoped locks\<close>

definition sylar_ScopedLock_new :: "(int \<Rightarrow> 'm \<Rightarrow> 'm attempt) \<Rightarrow> int \<Rightarrow> 'm \<Rightarrow> ('m \<times> bool) attempt" where
  "sylar_ScopedLock_new lockf i m = (case lockf i m of Waits \<Rightarrow> Waits | Acquired m' \<Rightarrow> Acquired (m', True))"

definition sylar_ScopedLock_lock :: "(int \<Rightarrow> 'm \<Rightarrow> 'm attempt) \<Rightarrow> int \<Rightarrow> 'm \<times> bool \<Rightarrow> ('m \<times> bool) attempt" where
  "sylar_ScopedLock_lock lockf i mb = 
     (let (m, m_locked) = mb in
      if \<not> m_locked then case lockf i m of Waits \<Rightarrow> Waits | Acquired m' \<Rightarrow> Acquired (m', True)
      else Acquired (m, m_locked))"

definition sylar_ScopedLock_unlock :: "(int \<Rightarrow> 'm \<Rightarrow> 'm res) \<Rightarrow> int \<Rightarrow> 'm \<times> bool \<Rightarrow> ('m \<times> bool) res" where
  "sylar_ScopedLock_unlock unlockf i mb = 
     (let (m, m_locked) = mb in
      if m_locked then bind_res (unlockf i m) (\<lambda>m'. Inr (m', False)) else Inr (m, m_locked))"

definition sylar_ScopedLock_delete :: "(int \<Rightarrow> 'm \<Rightarrow> 'm res) \<Rightarrow> int \<Rightarrow> 'm \<times> bool \<Rightarrow> 'm res" where
  "sylar_ScopedLock_delete unlockf i mb = bind_res (sylar_ScopedLock_unlock unlockf i mb) (\<lambda>mb'. Inr (fst mb'))"

definition sylar_ReadScopedLock_new :: "(int \<Rightarrow> 'm \<Rightarrow> 'm attempt) \<Rightarrow> int \<Rightarrow> 'm \<Rightarrow> ('m \<times> bool) attempt" where
  "sylar_ReadScopedLock_new lockf i m = (case lockf i m of Waits \<Rightarrow> Waits | Acquired m' \<Rightarrow> Acquired (m', True))"

definition sylar_ReadScopedLock_unlock :: "(int \<Rightarrow> 'm \<Rightarrow> 'm res) \<Rightarrow> int \<Rightarrow> 'm \<times> bool \<Rightarrow> ('m \<times> bool) res" where
  "sylar_ReadScopedLock_unlock unlockf i mb = 
     (let (m, m_locked) = mb in
      if m_locked then bind_res (unlockf i m) (\<lambda>m'. Inr (m', False)) else Inr (m, m_locked))"

definition sylar_ReadScopedLock_delete :: "(int \<Rightarrow> 'm \<Rightarrow> 'm res) \<Rightarrow> int \<Rightarrow> 'm \<times> bool \<Rightarrow> 'm res" where
  "sylar_ReadScopedLock_delete unlockf i mb = bind_res (sylar_ReadScopedLock_unlock unlockf i mb) (\<lambda>mb'. Inr (fst mb'))"

definition sylar_WriteScopedLock_new :: "(int \<Rightarrow> 'm \<Rightarrow> 'm attempt) \<Rightarrow> int \<Rightarrow> 'm \<Rightarrow> ('m \<times> bool) attempt" where
  "sylar_WriteScopedLock_new lockf i m = (case lockf i m of Waits \<Rightarrow> Waits | Acquired m' \<Rightarrow> Acquired (m', True))"

definition sylar_WriteScopedLock_lock :: "(int \<Rightarrow> 'm \<Rightarrow> 'm attempt) \<Rightarrow> int \<Rightarrow> 'm \<times> bool \<Rightarrow> ('m \<times> bool) attempt" where
  "sylar_WriteScopedLock_lock lockf i mb = 
     (let (m, m_locked) = mb in
      if \<not> m_locked then case lockf i m of Waits \<Rightarrow> Waits | Acquired m' \<Rightarrow> Acquired (m', True)
      else Acquired (m, m_locked))"

definition sylar_WriteScopedLock_unlock :: "(int \<Rightarrow> 'm \<Rightarrow> 'm res) \<Rightarrow> int \<Rightarrow> 'm \<times> bool \<Rightarrow> ('m \<times> bool) res" where
  "sylar_WriteScopedLock_unlock unlockf i mb = 
     (let (m, m_locked) = mb in
      if m_locked then bind_res (unlockf i m) (\<lambda>m'. Inr (m', False)) else Inr (m, m_locked))"

definition sylar_WriteScopedLock_delete :: "(int \<Rightarrow> 'm \<Rightarrow> 'm res) \<Rightarrow> int \<Rightarrow> 'm \<times> bool \<Rightarrow> 'm res" where
  "sylar_WriteScopedLock_delete unlockf i mb = bind_res (sylar_WriteScopedLock_unlock unlockf i mb) (\<lambda>mb'. Inr (fst mb'))"

section \<open>The same guarantees\<close>

lemma sylar_templates:
  "sylar_ScopedLock_new = ScopedLock_new" "sylar_ScopedLock_lock = ScopedLock_lock"
  "sylar_ScopedLock_unlock = ScopedLock_unlock" "sylar_ScopedLock_delete = ScopedLock_delete"
  "sylar_WriteScopedLock_new = WriteScopedLock_new" "sylar_WriteScopedLock_lock = WriteScopedLock_lock"
  "sylar_WriteScopedLock_unlock = WriteScopedLock_unlock" "sylar_WriteScopedLock_delete = WriteScopedLock_delete"
  "sylar_ReadScopedLock_new = ReadScopedLock_new" "sylar_ReadScopedLock_unlock = ReadScopedLock_unlock"
  "sylar_ReadScopedLock_delete = ReadScopedLock_delete"
  by (simp_all add: fun_eq_iff scoped_lock_templates sylar_ScopedLock_new_def sylar_ScopedLock_lock_def
      sylar_ScopedLock_unlock_def sylar_ScopedLock_delete_def sylar_WriteScopedLock_new_def
      sylar_WriteScopedLock_lock_def sylar_WriteScopedLock_unlock_def sylar_WriteScopedLock_delete_def
      sylar_ReadScopedLock_new_def sylar_ReadScopedLock_unlock_def sylar_ReadScopedLock_delete_def
      ScopedLock_new_def ScopedLock_lock_def ScopedLock_unlock_def ScopedLock_delete_def)

interpretation sylar_mutex: lockable sylar_Mutex_new sylar_Mutex_lock sylar_Mutex_unlock sylar_Mutex_delete
    "\<lambda>m. m = None" "\<lambda>i m. m = Some i"
  by unfold_locales (auto simp: sylar_Mutex_new_def sylar_Mutex_lock_def sylar_Mutex_unlock_def sylar_Mutex_delete_def)

interpretation sylar_spin: lockable sylar_Spinlock_new sylar_Spinlock_lock sylar_Spinlock_unlock
    sylar_Spinlock_delete "\<lambda>m. m = None" "\<lambda>i m. m = Some i"
  by unfold_locales
    (auto simp: sylar_Spinlock_new_def sylar_Spinlock_lock_def sylar_Spinlock_unlock_def sylar_Spinlock_delete_def)

interpretation sylar_cas: lockable sylar_CASLock_new sylar_CASLock_lock sylar_CASLock_unlock sylar_CASLock_delete
    "\<lambda>flag. \<not> flag" "\<lambda>i flag. flag"
  by unfold_locales
    (auto simp: sylar_CASLock_new_def sylar_CASLock_lock_def sylar_CASLock_unlock_def sylar_CASLock_delete_def
      test_and_set_def)

interpretation sylar_write: lockable sylar_RWMutex_new sylar_wrlock sylar_RWMutex_unlock sylar_RWMutex_delete
    "\<lambda>m. m = None" "\<lambda>i m. m = Some i"
  by unfold_locales
    (auto simp: sylar_RWMutex_new_def sylar_wrlock_def sylar_RWMutex_unlock_def sylar_RWMutex_delete_def)

text \<open>The locks of this file keep the promise of those of \<^verbatim>\<open>thread.h\<close>, for guards of the equal templates.\<close>

lemma sylar_locks_exclude:
  "lock_system_safe sylar_Mutex_new sylar_Mutex_lock sylar_Mutex_unlock sylar_Mutex_delete"
  "lock_system_safe sylar_Spinlock_new sylar_Spinlock_lock sylar_Spinlock_unlock sylar_Spinlock_delete"
  "lock_system_safe sylar_CASLock_new sylar_CASLock_lock sylar_CASLock_unlock sylar_CASLock_delete"
  "lock_system_safe sylar_RWMutex_new sylar_wrlock sylar_RWMutex_unlock sylar_RWMutex_delete"
  by (rule sylar_mutex.system_safe sylar_spin.system_safe sylar_cas.system_safe sylar_write.system_safe)+

text \<open>A semaphore counts its permits: what was given and not yet taken is its value.\<close>

inductive sylar_sem_run :: "nat \<Rightarrow> nat \<Rightarrow> nat \<Rightarrow> nat \<Rightarrow> nat \<Rightarrow> bool" for vmax v0 where
  sem_start: "sylar_sem_run vmax v0 v0 0 0"
| sem_waited: "sylar_sem_run vmax v0 v w n \<Longrightarrow> sylar_Semaphore_wait False v = Inr (Acquired v') \<Longrightarrow>
     sylar_sem_run vmax v0 v' (w + 1) n"
| sem_posted: "sylar_sem_run vmax v0 v w n \<Longrightarrow> sylar_Semaphore_notify vmax v = Inr v' \<Longrightarrow>
     sylar_sem_run vmax v0 v' w (n + 1)"

lemma sylar_sem_permits:
  assumes "sylar_sem_run vmax v0 v w n"
  shows "v + w = v0 + n"
  using assms
proof induction
  case (sem_waited v w n v')
  then show ?case by (simp add: sylar_Semaphore_wait_def split: if_splits)
next
  case (sem_posted v w n v')
  then show ?case by (auto simp: sylar_Semaphore_notify_def split: if_splits)
qed simp

end
