(* ===== verification/Duan_Thread.thy ===== *)
theory Duan_Thread
  imports Duan_Prelude
begin

text \<open>
  \<^verbatim>\<open>thread.h\<close>, \<^verbatim>\<open>thread.cc\<close>, second part: semaphores and the class \<^verbatim>\<open>Thread\<close>. The constructor creates a
  POSIX thread and waits on the semaphore of the object until the new thread has filled in its
  identity; the two sides are the steps of one transition system. What pthread calls return is an
  argument.
\<close>

section \<open>Semaphores\<close>

text \<open>
  \<^verbatim>\<open>sem_t\<close> by its value; \<open>vmax\<close> is \<^verbatim>\<open>SEM_VALUE_MAX\<close>. \<^term>\<open>Inr None\<close>: the call waits. A \<^verbatim>\<open>sem_wait\<close> that a signal handler
  interrupts fails.
\<close>

type_synonym semaphore = nat

definition Semaphore_new :: "nat \<Rightarrow> u32 \<Rightarrow> semaphore res" where
  "Semaphore_new vmax count =
     (if unat count > vmax then Inl (Throw ''sem_init error'') else Inr (unat count))"

definition wait :: "bool \<Rightarrow> semaphore \<Rightarrow> semaphore option res" where
  "wait interrupted v =
     (if interrupted then Inl (Throw ''sem_wait error'') else Inr (if v = 0 then None else Some (v - 1)))"

definition notify_sem :: "nat \<Rightarrow> semaphore \<Rightarrow> semaphore res" where
  "notify_sem vmax v = (if v = vmax then Inl (Throw ''sem_post error'') else Inr (v + 1))"

section \<open>Threads\<close>

record Thread =
  th_id :: int
  th_thread :: nat
  th_cb :: "callback option"
  th_name :: string
  th_semaphore :: semaphore

text \<open>The thread-local variables \<^verbatim>\<open>t_thread\<close> (whether it is set to this object) and \<^verbatim>\<open>t_thread_name\<close>.\<close>

record thread_tls =
  t_thread :: bool
  t_thread_name :: string

definition tls_init :: thread_tls where
  "tls_init = \<lparr>t_thread = False, t_thread_name = ''UNKNOW''\<rparr>"

definition GetName :: "thread_tls \<Rightarrow> string" where
  "GetName t = t_thread_name t"

definition SetName :: "string \<Rightarrow> Thread \<times> thread_tls \<Rightarrow> Thread \<times> thread_tls" where
  "SetName name xt =
     (let (x, t) = xt in
      if name = [] then (x, t)
      else (if t_thread t then x\<lparr>th_name := name\<rparr> else x, t\<lparr>t_thread_name := name\<rparr>))"

text \<open>The constructor up to \<^verbatim>\<open>pthread_create\<close>.\<close>

definition Thread_new :: "callback option \<Rightarrow> string \<Rightarrow> Thread" where
  "Thread_new cb name =
     \<lparr>th_id = - 1, th_thread = 0, th_cb = cb, th_name = (if name = [] then ''UNKNOW'' else name), th_semaphore = 0\<rparr>"

text \<open>\<^verbatim>\<open>run\<close> up to the notification: it sets its thread-local variables, the id and the kernel's thread name, and takes the function.\<close>

definition run_prologue :: "int \<Rightarrow> Thread \<times> thread_tls \<Rightarrow> (callback option \<times> string) \<times> Thread \<times> thread_tls" where
  "run_prologue tid xt =
     (let (x, t) = xt
      in ((th_cb x, take 15 (th_name x)), x\<lparr>th_id := tid, th_cb := None\<rparr>, t\<lparr>t_thread := True, t_thread_name := th_name x\<rparr>))"

definition join :: "int \<Rightarrow> Thread \<Rightarrow> Thread res" where
  "join rt x =
     (if th_thread x \<noteq> 0 then if rt \<noteq> 0 then Inl (Throw ''pthread_join error'') else Inr (x\<lparr>th_thread := 0\<rparr>)
      else Inr x)"

text \<open>The destructor; the result says whether the thread is detached.\<close>

definition Thread_delete :: "Thread \<Rightarrow> bool" where
  "Thread_delete x \<longleftrightarrow> th_thread x \<noteq> 0"

section \<open>Starting a thread\<close>

datatype parent_pc = PCreate | PWait | PReturned | PThrew
datatype child_pc = CNone | CStart | CNotify "callback option" | CRun "callback option" | CDone | CTerminated | CCrashed

text \<open>\<open>alive\<close>: the object has not been destroyed, which happens when its constructor throws.\<close>

record starting =
  obj :: Thread
  alive :: bool
  tls :: thread_tls
  parent :: parent_pc
  child :: child_pc
  kernel_name :: string
  called :: "callback list"

definition start_init :: "callback option \<Rightarrow> string \<Rightarrow> starting \<Rightarrow> bool" where
  "start_init cb name s \<longleftrightarrow>
     s = \<lparr>obj = Thread_new cb name, alive = True, tls = tls_init, parent = PCreate, child = CNone, kernel_name = [], called = []\<rparr>"

text \<open>
  The steps of the two sides, for a \<^verbatim>\<open>pthread_create\<close> that returned \<open>rt\<close> and the handle \<open>h\<close>, and the kernel's thread id
  \<open>tid\<close>; \<open>signals\<close> says whether a signal handler may run while the constructor waits. The new thread uses the object
  by its address, which is undefined behaviour once the object is gone. Calling an empty function throws in
  the new thread, which terminates the process.
\<close>

inductive start_step :: "bool \<Rightarrow> nat \<Rightarrow> int \<Rightarrow> nat \<Rightarrow> int \<Rightarrow> starting \<Rightarrow> starting \<Rightarrow> bool"
  for signals vmax rt h tid where
  create_fails: "parent s = PCreate \<Longrightarrow> rt \<noteq> 0 \<Longrightarrow>
     start_step signals vmax rt h tid s (s\<lparr>parent := PThrew, alive := False\<rparr>)"
| create: "parent s = PCreate \<Longrightarrow> rt = 0 \<Longrightarrow>
     start_step signals vmax rt h tid s (s\<lparr>parent := PWait, child := CStart, obj := (obj s)\<lparr>th_thread := h\<rparr>\<rparr>)"
| prologue: "child s = CStart \<Longrightarrow> alive s \<Longrightarrow> run_prologue tid (obj s, tls s) = ((cb, nm), x, t) \<Longrightarrow>
     start_step signals vmax rt h tid s (s\<lparr>obj := x, tls := t, child := CNotify cb, kernel_name := nm\<rparr>)"
| notify: "child s = CNotify cb \<Longrightarrow> alive s \<Longrightarrow> notify_sem vmax (th_semaphore (obj s)) = Inr v \<Longrightarrow>
     start_step signals vmax rt h tid s (s\<lparr>obj := (obj s)\<lparr>th_semaphore := v\<rparr>, child := CRun cb\<rparr>)"
| waited: "parent s = PWait \<Longrightarrow> wait False (th_semaphore (obj s)) = Inr (Some v) \<Longrightarrow>
     start_step signals vmax rt h tid s (s\<lparr>obj := (obj s)\<lparr>th_semaphore := v\<rparr>, parent := PReturned\<rparr>)"
| interrupted: "signals \<Longrightarrow> parent s = PWait \<Longrightarrow> wait True (th_semaphore (obj s)) = Inl e \<Longrightarrow>
     start_step signals vmax rt h tid s (s\<lparr>parent := PThrew, alive := False\<rparr>)"
| run: "child s = CRun (Some f) \<Longrightarrow> start_step signals vmax rt h tid s (s\<lparr>child := CDone, called := called s @ [f]\<rparr>)"
| run_empty: "child s = CRun None \<Longrightarrow> start_step signals vmax rt h tid s (s\<lparr>child := CTerminated\<rparr>)"
| use_of_destroyed: "child s = CStart \<or> child s = CNotify cb \<Longrightarrow> \<not> alive s \<Longrightarrow>
     start_step signals vmax rt h tid s (s\<lparr>child := CCrashed\<rparr>)"

text \<open>What is true at each pair of positions.\<close>

definition new_name :: "string \<Rightarrow> string" where
  "new_name name = (if name = [] then ''UNKNOW'' else name)"

definition identified :: "string \<Rightarrow> int \<Rightarrow> starting \<Rightarrow> bool" where
  "identified name tid s \<longleftrightarrow>
     alive s \<and> th_id (obj s) = tid \<and> th_cb (obj s) = None \<and> th_name (obj s) = new_name name \<and>
     t_thread (tls s) \<and> GetName (tls s) = new_name name \<and> kernel_name s = take 15 (new_name name)"

definition untouched :: "callback option \<Rightarrow> string \<Rightarrow> starting \<Rightarrow> bool" where
  "untouched cb name s \<longleftrightarrow>
     alive s \<and> th_cb (obj s) = cb \<and> th_name (obj s) = new_name name \<and> th_semaphore (obj s) = 0 \<and> called s = []"

fun after_notify :: "callback option \<Rightarrow> callback list \<Rightarrow> child_pc \<Rightarrow> bool" where
  "after_notify cb calls (CRun f) = (f = cb \<and> calls = [])"
| "after_notify cb calls CDone = (\<exists>f. cb = Some f \<and> calls = [f])"
| "after_notify cb calls CTerminated = (cb = None \<and> calls = [])"
| "after_notify cb calls _ = False"

fun start_inv_at :: "callback option \<Rightarrow> string \<Rightarrow> int \<Rightarrow> int \<Rightarrow> parent_pc \<Rightarrow> child_pc \<Rightarrow> starting \<Rightarrow> bool" where
  "start_inv_at cb name rt tid PCreate c s \<longleftrightarrow> c = CNone \<and> untouched cb name s"
| "start_inv_at cb name rt tid PThrew c s \<longleftrightarrow> c = CNone \<and> rt \<noteq> 0 \<and> called s = []"
| "start_inv_at cb name rt tid PWait CNone s \<longleftrightarrow> False"
| "start_inv_at cb name rt tid PWait CStart s \<longleftrightarrow> rt = 0 \<and> untouched cb name s"
| "start_inv_at cb name rt tid PWait (CNotify f) s \<longleftrightarrow>
     rt = 0 \<and> f = cb \<and> identified name tid s \<and> th_semaphore (obj s) = 0 \<and> called s = []"
| "start_inv_at cb name rt tid PWait c s \<longleftrightarrow>
     rt = 0 \<and> after_notify cb (called s) c \<and> identified name tid s \<and> th_semaphore (obj s) = 1"
| "start_inv_at cb name rt tid PReturned c s \<longleftrightarrow>
     rt = 0 \<and> after_notify cb (called s) c \<and> identified name tid s \<and> th_semaphore (obj s) = 0"

definition start_inv :: "callback option \<Rightarrow> string \<Rightarrow> int \<Rightarrow> int \<Rightarrow> starting \<Rightarrow> bool" where
  "start_inv cb name rt tid s \<longleftrightarrow> start_inv_at cb name rt tid (parent s) (child s) s"

lemma start_inv_init: "start_init cb name s \<Longrightarrow> start_inv cb name rt tid s"
  by (simp add: start_init_def start_inv_def Thread_new_def new_name_def untouched_def)

text \<open>The conditions do not depend on the positions.\<close>

lemma at_updates [simp]:
  "identified name tid (s\<lparr>parent := a\<rparr>) = identified name tid s"
  "identified name tid (s\<lparr>child := c\<rparr>) = identified name tid s"
  "identified name tid (s\<lparr>called := k\<rparr>) = identified name tid s"
  "identified name tid (s\<lparr>obj := (obj s)\<lparr>th_semaphore := v\<rparr>\<rparr>) = identified name tid s"
  "untouched cb name (s\<lparr>parent := a\<rparr>) = untouched cb name s"
  "untouched cb name (s\<lparr>child := c\<rparr>) = untouched cb name s"
  "untouched cb name (s\<lparr>obj := (obj s)\<lparr>th_thread := h\<rparr>\<rparr>) = untouched cb name s"
  by (simp_all add: identified_def untouched_def)

lemma start_inv_alive: "start_inv cb name rt tid s \<Longrightarrow> child s = CStart \<or> child s = CNotify f \<Longrightarrow> alive s"
  by (cases "parent s") (auto simp: start_inv_def untouched_def identified_def)

lemma start_inv_step:
  assumes inv: "start_inv cb name rt tid s" and step: "start_step False vmax rt h tid s t"
  shows "start_inv cb name rt tid t"
  using step
proof cases
  case (prologue f nm x u)
  then have "parent s = PWait" using inv by (cases "parent s") (auto simp: start_inv_def)
  then show ?thesis
    using prologue inv by (auto simp: start_inv_def run_prologue_def untouched_def identified_def GetName_def)
next
  case (notify f v)
  then have p: "parent s = PWait" using inv by (cases "parent s") (auto simp: start_inv_def)
  then have "v = 1" using notify inv by (auto simp: start_inv_def notify_sem_def split: if_splits)
  then show ?thesis using notify p inv by (simp add: start_inv_def identified_def)
next
  case (waited v)
  then have "v = 0" using inv by (cases "child s") (auto simp: start_inv_def wait_def untouched_def split: if_splits)
  then show ?thesis
    using waited inv by (cases "child s") (auto simp: start_inv_def wait_def untouched_def identified_def split: if_splits)
next
  case (run f)
  then show ?thesis using inv by (cases "parent s") (auto simp: start_inv_def identified_def)
next
  case run_empty
  then show ?thesis using inv by (cases "parent s") (auto simp: start_inv_def identified_def)
next
  case (use_of_destroyed f)
  then show ?thesis using start_inv_alive [OF inv] by blast
qed (use inv in \<open>auto simp: start_inv_def untouched_def\<close>)

interpretation thread_start: inductive_invariant "start_init cb name" "start_step False vmax rt h tid" "start_inv cb name rt tid"
  by unfold_locales (auto intro: start_inv_init start_inv_step)

text \<open>Every step goes forward.\<close>

fun parent_left :: "parent_pc \<Rightarrow> nat" where
  "parent_left PCreate = 5"
| "parent_left PWait = 1"
| "parent_left _ = 0"

fun child_left :: "child_pc \<Rightarrow> nat" where
  "child_left CStart = 3"
| "child_left (CNotify f) = 2"
| "child_left (CRun f) = 1"
| "child_left _ = 0"

definition steps_left :: "starting \<Rightarrow> nat" where
  "steps_left s = parent_left (parent s) + child_left (child s)"

lemma start_step_decreases:
  assumes "start_inv cb name rt tid s" and "start_step False vmax rt h tid s t"
  shows "steps_left t < steps_left s"
  using assms(2)
proof cases
  case create
  then show ?thesis using assms(1) by (simp add: steps_left_def start_inv_def)
next
  case (use_of_destroyed f)
  then show ?thesis using start_inv_alive [OF assms(1)] by blast
qed (simp_all add: steps_left_def)

lemma start_progress:
  assumes "start_inv cb name rt tid s" and "0 < vmax" and "\<nexists>t. start_step False vmax rt h tid s t"
  shows "parent s = PThrew \<or> parent s = PReturned \<and> child s \<in> {CDone, CTerminated}"
proof -
  have "parent s \<noteq> PCreate" using assms(3) create [of s rt] create_fails [of s rt] by blast
  moreover have "child s \<noteq> CStart"
  proof
    assume c: "child s = CStart"
    obtain f nm x t where "run_prologue tid (obj s, tls s) = ((f, nm), x, t)" by (metis surj_pair)
    from prologue [OF c _ this] start_inv_alive [OF assms(1)] c assms(3) show False by blast
  qed
  moreover have "child s \<noteq> CRun f" for f using assms(3) run [of s] run_empty [of s] by (cases f) blast+
  moreover have "child s \<noteq> CNotify f" for f
  proof
    assume c: "child s = CNotify f"
    then have "th_semaphore (obj s) = 0" using assms(1) by (cases "parent s") (simp_all add: start_inv_def)
    then have "notify_sem vmax (th_semaphore (obj s)) = Inr 1" using assms(2) by (simp add: notify_sem_def)
    from notify [OF c _ this] start_inv_alive [OF assms(1)] c assms(3) show False by blast
  qed
  moreover have "\<not> (parent s = PWait \<and> th_semaphore (obj s) = 1)"
    using assms(3) waited [of s 0 False vmax rt h tid] by (auto simp: wait_def)
  ultimately show ?thesis
    using assms(1) by (cases "parent s"; cases "child s") (simp_all add: start_inv_def)
qed

text \<open>
  Starting a thread. When the constructor has returned, the object is complete, whatever the order in
  which the two threads ran: the id is that of the new thread, the function has been taken out of the object,
  and in the new thread the current thread and its name are set. When pthread_create fails the constructor
  throws and no thread runs; the new thread never uses a destroyed object. All this is without signal handlers
  that interrupt the constructor's wait.
\<close>

theorem thread_started:
  assumes "reach (start_init cb name) (start_step False vmax rt h tid) s"
  shows "(parent s = PReturned \<longrightarrow> rt = 0 \<and> identified name tid s \<and> th_semaphore (obj s) = 0) \<and>
    (parent s = PThrew \<longrightarrow> rt \<noteq> 0 \<and> child s = CNone) \<and>
    (called s \<noteq> [] \<longrightarrow> child s = CDone \<and> cb = Some (hd (called s)) \<and> length (called s) = 1) \<and>
    child s \<noteq> CCrashed"
proof -
  have inv: "start_inv cb name rt tid s" by (rule thread_start.inv_reach [OF assms])
  then have "called s \<noteq> [] \<Longrightarrow> child s = CDone \<and> cb = Some (hd (called s)) \<and> length (called s) = 1"
    by (cases "parent s"; cases "child s") (auto simp: start_inv_def untouched_def)
  moreover have "parent s = PThrew \<Longrightarrow> rt \<noteq> 0 \<and> child s = CNone"
    "parent s = PReturned \<Longrightarrow> rt = 0 \<and> identified name tid s \<and> th_semaphore (obj s) = 0"
    using inv by (simp_all add: start_inv_def)
  moreover have "child s \<noteq> CCrashed" using inv by (cases "parent s") (auto simp: start_inv_def)
  ultimately show ?thesis by blast
qed

definition demo_start :: starting where
  "demo_start = \<lparr>obj = Thread_new (Some (Fn 1)) ''worker'', alive = True, tls = tls_init, parent = PCreate, child = CNone, kernel_name = [],
     called = []\<rparr>"

theorem thread_started_witness:
  "\<exists>s. reach (start_init (Some (Fn 1)) ''worker'') (start_step False 9 5 1 77) s \<and> parent s = PThrew \<and> child s = CNone"
proof -
  have "reach (start_init (Some (Fn 1)) ''worker'') (start_step False 9 5 1 77) demo_start"
    by (rule reach_init) (simp add: start_init_def demo_start_def)
  moreover have "start_step False 9 5 1 77 demo_start (demo_start\<lparr>parent := PThrew, alive := False\<rparr>)"
    by (rule create_fails) (simp_all add: demo_start_def)
  ultimately have r: "reach (start_init (Some (Fn 1)) ''worker'') (start_step False 9 5 1 77) (demo_start\<lparr>parent := PThrew, alive := False\<rparr>)"
    by (rule reach_step)
  with thread_started [OF r] show ?thesis by (intro exI [of _ "demo_start\<lparr>parent := PThrew, alive := False\<rparr>"]) simp
qed



text \<open>
  C24. A signal handler breaks the start-up. \<^verbatim>\<open>Semaphore::wait\<close> throws when \<^verbatim>\<open>sem_wait\<close> is interrupted, so the constructor
  throws and the object is destroyed while the thread it has created still has its address: for every function
  and name there is an order of the two sides in which the new thread uses the destroyed object, before it
  has taken its function out.
\<close>

theorem interrupted_start_crashes:
  "\<exists>s. reach (start_init cb name) (start_step True vmax 0 h tid) s \<and>
     parent s = PThrew \<and> child s = CCrashed \<and> called s = [] \<and> th_thread (obj s) = h"
proof -
  let ?s0 = "\<lparr>obj = Thread_new cb name, alive = True, tls = tls_init, parent = PCreate, child = CNone, kernel_name = [],
    called = []\<rparr>"
  let ?s1 = "?s0\<lparr>parent := PWait, child := CStart, obj := (Thread_new cb name)\<lparr>th_thread := h\<rparr>\<rparr>"
  let ?s2 = "?s1\<lparr>parent := PThrew, alive := False\<rparr>"
  note step = reach.reach_step [where step = "start_step True vmax 0 h tid"]
  have "reach (start_init cb name) (start_step True vmax 0 h tid) ?s0"
    by (rule reach_init) (simp add: start_init_def)
  then have "reach (start_init cb name) (start_step True vmax 0 h tid) ?s1"
    by (rule step) (use create [of ?s0 0 True vmax h tid] in simp)
  then have "reach (start_init cb name) (start_step True vmax 0 h tid) ?s2"
    by (rule step) (rule interrupted, simp_all add: wait_def)
  then have "reach (start_init cb name) (start_step True vmax 0 h tid) (?s2\<lparr>child := CCrashed\<rparr>)"
    by (rule step) (rule use_of_destroyed, simp_all)
  then show ?thesis by (intro exI [of _ "?s2\<lparr>child := CCrashed\<rparr>"]) simp
qed

text \<open>Joining twice is harmless, and a joined thread is not detached again.\<close>

lemma join_once:
  assumes "join 0 x = Inr y"
  shows "join rt y = Inr y" and "\<not> Thread_delete y"
  using assms by (auto simp: join_def Thread_delete_def split: if_splits)

end
