(* ===== verification/Duan_Util.thy ===== *)
theory Duan_Util
  imports Duan_Prelude
begin

text \<open>
  \<^verbatim>\<open>util.cc\<close>: the parts that compute. \<^verbatim>\<open>gettimeofday\<close>, \<^verbatim>\<open>backtrace\<close> and \<^verbatim>\<open>backtrace_symbols\<close> answer through
  arguments.
\<close>

text \<open>\<open>sec\<close> and \<open>usec\<close> are the fields of \<^verbatim>\<open>struct timeval\<close>; products and sums are unsigned 64-bit.\<close>

definition GetCurrentMS :: "u64 \<Rightarrow> u64 \<Rightarrow> u64" where
  "GetCurrentMS sec usec = sec * 1000 + usec div 1000"

definition GetCurrentUS :: "u64 \<Rightarrow> u64 \<Rightarrow> u64" where
  "GetCurrentUS sec usec = sec * 1000 * 1000 + usec"

text \<open>
  \<open>symbols\<close> is what \<^verbatim>\<open>backtrace_symbols\<close> returned for at most \<open>n\<close> frames, \<^term>\<open>None\<close> for a null pointer.
\<close>

definition Backtrace :: "string list option \<Rightarrow> nat \<Rightarrow> nat \<Rightarrow> string list \<Rightarrow> string list" where
  "Backtrace symbols n skip bt = (case symbols of None \<Rightarrow> bt | Some strings \<Rightarrow> bt @ drop skip (take n strings))"

definition BacktraceToString :: "string list option \<Rightarrow> nat \<Rightarrow> nat \<Rightarrow> string \<Rightarrow> string" where
  "BacktraceToString symbols n skip prefix =
     concat (map (\<lambda>str. prefix @ str @ [CHR 0x0A]) (Backtrace symbols n skip []))"

section \<open>Singletons\<close>

text \<open>
  \<^verbatim>\<open>singleton.h\<close>: a static local is constructed by the first call that gets to it, with \<open>make\<close>, the constructor, and
  stays unconstructed when the constructor throws. The state is the instance, if it exists; the object (of
  \<^verbatim>\<open>GetInstance\<close>) or the pointer to it (of \<^verbatim>\<open>SingletonPtr\<close>).
\<close>

definition GetInstanceX :: "'a res \<Rightarrow> 'a option \<Rightarrow> ('a \<times> 'a option) res" where
  "GetInstanceX make v = (case v of None \<Rightarrow> bind_res make (\<lambda>x. Inr (x, Some x)) | Some x \<Rightarrow> Inr (x, v))"

definition GetInstancePtr :: "'a res \<Rightarrow> 'a option \<Rightarrow> ('a \<times> 'a option) res" where
  "GetInstancePtr make v = (case v of None \<Rightarrow> bind_res make (\<lambda>x. Inr (x, Some x)) | Some x \<Rightarrow> Inr (x, v))"

definition Singleton_GetInstance :: "'a res \<Rightarrow> 'a option \<Rightarrow> ('a \<times> 'a option) res" where
  "Singleton_GetInstance make v = (case v of None \<Rightarrow> bind_res make (\<lambda>x. Inr (x, Some x)) | Some x \<Rightarrow> Inr (x, v))"

definition SingletonPtr_GetInstance :: "'a res \<Rightarrow> 'a option \<Rightarrow> ('a \<times> 'a option) res" where
  "SingletonPtr_GetInstance make v = (case v of None \<Rightarrow> bind_res make (\<lambda>x. Inr (x, Some x)) | Some x \<Rightarrow> Inr (x, v))"

text \<open>After the first call, every call gives the same instance and constructs nothing.\<close>

lemma Singleton_once:
  assumes "Singleton_GetInstance make v = Inr (x, v')"
  shows "Singleton_GetInstance make' v' = Inr (x, v')"
  using assms by (auto simp: Singleton_GetInstance_def res_iffs split: option.splits)

section \<open>Clocks\<close>

text \<open>The two clocks agree, as long as the microseconds do not overflow.\<close>

lemma GetCurrentMS_of_US:
  assumes "unat sec * 1000000 + unat usec < 2 ^ 64"
  shows "GetCurrentMS sec usec = GetCurrentUS sec usec div 1000"
proof -
  have s: "unat (sec * 1000) = unat sec * 1000" "unat (sec * 1000 * 1000) = unat sec * 1000000"
    using assms by (simp_all add: unat_word_ariths)
  have d: "unat (usec div 1000) = unat usec div 1000" by (simp add: unat_div)
  have "unat (GetCurrentUS sec usec) = unat sec * 1000000 + unat usec"
    unfolding GetCurrentUS_def using s assms by (subst unat_add_no_wrap) simp_all
  moreover have "unat (GetCurrentMS sec usec) = unat sec * 1000 + unat usec div 1000"
    unfolding GetCurrentMS_def using s d assms by (subst unat_add_no_wrap) simp_all
  moreover have "(unat sec * 1000000 + unat usec) div 1000 = unat sec * 1000 + unat usec div 1000"
    by (simp add: div_add1_eq mult.assoc [symmetric])
  ultimately show ?thesis by (simp add: word_unat_eq_iff unat_div)
qed

end
