(* ===== verification/Spec2Isabelle.thy ===== *)
theory Spec2Isabelle
  imports Duan_Sleep Duan_Interleave Duan_Settings Sylar_Mutex Duan_Thread Duan_Util
begin

text \<open>
  \<^bold>\<open>Verification of the duan coroutine library.\<close>

  The library under \<^verbatim>\<open>src/duan_src\<close> runs coroutines on a pool of threads. A \<^verbatim>\<open>Fiber\<close> is a \<^verbatim>\<open>ucontext\<close> with
  a state and a function; a \<^verbatim>\<open>Scheduler\<close> keeps a queue of fibers and functions that any number of threads
  serve in \<^verbatim>\<open>Scheduler::run\<close>; an \<^verbatim>\<open>IOManager\<close> is a scheduler and a \<^verbatim>\<open>TimerManager\<close> whose idle fibers wait
  in \<^verbatim>\<open>epoll_wait\<close> and put the tasks of ready descriptors and due timers into the queue. Beside these stand
  the logging system, the configuration module, from which it takes its settings, and the locks and
  threads all of them use.

  \<^bold>\<open>Theories and sources.\<close>

  \<^item> \<open>Duan_Prelude\<close>: results with the three ways a call can fail (\<^verbatim>\<open>DUAN_ASSERT\<close> of \<^verbatim>\<open>macro.h\<close>, an exception,
    undefined behaviour), function objects, words, and the locale \<open>inductive_invariant\<close>, through
    which every transition system below gets its invariant. \<open>Std_Set\<close>: \<^verbatim>\<open>std::set\<close> over a comparator, a
    locale that \<open>Duan_Timer\<close> interprets on \<^verbatim>\<open>Timer::Comparator\<close>. \<open>Name_Table\<close>: a registry that creates an
    object on first use of a name, interpreted on \<^verbatim>\<open>LoggerManager\<close> and on \<^verbatim>\<open>Config\<close>.
  \<^item> \<open>Duan_Timer\<close> (\<^verbatim>\<open>timer.h\<close>, \<^verbatim>\<open>timer.cc\<close>): timers in a heap, the ordered set of their addresses, all
    operations of \<^verbatim>\<open>Timer\<close> and \<^verbatim>\<open>TimerManager\<close>. The invariant \<open>timers_wf\<close>, the refinement of
    \<^verbatim>\<open>listExpiredCb\<close> to the sorted due timers, cancellation, the next deadline.
  \<^item> \<open>Duan_Fiber\<close> (\<^verbatim>\<open>fiber.h\<close>, \<^verbatim>\<open>fiber.cc\<close>): fibers in a heap, thread-local pointers and a CPU per thread;
    the switches, both main functions, the yields. Counting and ids of fibers; a switch and the yield
    that answers it; what a switch into a finished fiber does.
  \<^item> \<open>Duan_Scheduler\<close>, \<open>Duan_Scheduler_Drain\<close> (\<^verbatim>\<open>scheduler.h\<close>, \<^verbatim>\<open>scheduler.cc\<close>): construction, start, stop, the
    queue, and the loop of \<^verbatim>\<open>run\<close> cut where threads interleave. The exact values of both counters in
    every reachable state, with the consequence for \<^verbatim>\<open>stop\<close>; which task a thread takes; a function task from
    start to end; the queue is served in order.
  \<^item> \<open>Duan_IOManager\<close>, \<open>Duan_IO_Properties\<close> (\<^verbatim>\<open>iomanager.h\<close>, \<^verbatim>\<open>iomanager.cc\<close>): registration, deletion,
    cancellation and triggering of events, the turn of the idle loop, over a store of schedulers and a timer
    manager; \<^verbatim>\<open>epoll\<close> is an argument with the documented behaviour \<open>os_ok\<close>. The refinement to a table of
    registrations, and each operation as a change of this table.
  \<^item> \<open>Duan_System\<close>: a worker thread of \<^verbatim>\<open>Scheduler::run\<close> whose idle fiber executes \<^verbatim>\<open>IOManager::idle\<close>, as one system
    over the two models. From a timer to its function, from an event to the fiber that waits for it, from
    \<^verbatim>\<open>stop\<close> to the end of the loop; and a yield in two parts beside a second worker.
  \<^item> \<open>Duan_Lifecycle\<close>: the loop of \<^verbatim>\<open>run\<close> as one function, one input per turn, \<^verbatim>\<open>stop\<close> as the destructor of an I/O manager
    calls it, and a manager that uses its caller from its constructor to the end of its destructor. \<open>Duan_Interleave\<close>: a
    manager with any number of threads and clients, step by step; its invariant joins those of the scheduler, the I/O
    manager and the timers, and \<^verbatim>\<open>stopping()\<close> tells the truth in every reachable state.
  \<^item> \<open>Duan_Hook\<close>, \<open>Duan_Hook_Properties\<close> (\<^verbatim>\<open>hook.h\<close>, \<^verbatim>\<open>hook.cc\<close>): system calls that give up the thread, over timers and the
    I/O manager. How a waiting call ends when its event occurs and when its time is over, sleeping, and the
    two views of \<^verbatim>\<open>O_NONBLOCK\<close>. The file is not part of the build; the missing descriptor manager is an argument
    with the laws \<open>fd_documented\<close>, the missing \<^verbatim>\<open>Fiber::yield\<close> the place where a call is cut.
    \<open>Duan_Sleep\<close> puts the sleeping calls on a worker of \<open>Duan_System\<close>: the fiber that sleeps is executed again after its
    deadline.
  \<^item> \<open>Duan_Log_Format\<close>, \<open>Duan_Log\<close>, \<open>Duan_Log_Properties\<close> (\<^verbatim>\<open>log.h\<close>, \<^verbatim>\<open>log.cc\<close>): the pattern parser on indices
    as in the code, formatters, file streams, appenders, loggers, the manager and the listener that
    applies a configuration. The parser recovers what a pattern was written from; the invariant \<open>log_wf\<close>
    makes every logging call return; delivery, files, formatters, the manager's table.
  \<^item> \<open>Duan_Config\<close>, \<open>Duan_Config_Properties\<close> (\<^verbatim>\<open>config.h\<close>, \<^verbatim>\<open>config.cc\<close>): the conversions of containers to and
    from YAML text, variables with listeners, the registry, loading of a document. Round trips, listeners,
    the registry, the members of a document against its key paths, the values after loading.
  \<^item> \<open>Duan_Log_Config\<close> (\<^verbatim>\<open>log.cc\<close>): log definitions as YAML text and the variable \<^verbatim>\<open>logs\<close>. The last section of
    this theory composes it with loading.
  \<^item> \<open>Duan_Settings\<close> (the static variables of \<^verbatim>\<open>fiber.cc\<close>, \<^verbatim>\<open>hook.cc\<close>, \<^verbatim>\<open>log.cc\<close>): the configuration of the whole library, with
    the initialisers of the three files in any order and everything the program may do with it later. Lookups by
    type are safe, and the time limit of \<^verbatim>\<open>connect\<close> is always the configured one, from the document to the timer.
  \<^item> \<open>Duan_Lock\<close>, \<open>Duan_Thread\<close> (\<^verbatim>\<open>thread.h\<close>, \<^verbatim>\<open>thread.cc\<close>), \<open>Duan_Util\<close> (\<^verbatim>\<open>util.h\<close>, \<^verbatim>\<open>util.cc\<close>): mutexes and scoped
    locks with one contract (locale \<open>lockable\<close>) for the four exclusive locks, reader-writer guards,
    semaphores, the start of a thread as a protocol of two threads, also when a signal interrupts it, clocks,
    backtraces and singletons. \<open>Sylar_Mutex\<close> (\<^verbatim>\<open>mutex.h\<close>, \<^verbatim>\<open>mutex.cc\<close>): the locks these were made from, under the
    same contract.

  \<^bold>\<open>Interfaces.\<close> The loop and the I/O manager use the queue through \<open>task_sink\<close>; the idle loop uses the timers
  through \<open>timer_service\<close>; both are interpreted on the model of the code. Systems of steps are
  interpretations of \<open>inductive_invariant\<close>: \<open>timer_system\<close>, \<open>fiber_system\<close>, \<open>sched_system\<close>, \<open>io_system\<close>,
  \<open>manager_system\<close>, \<open>log_system\<close>, \<open>settings\<close>, the lock systems and \<open>thread_start\<close>. In \<open>Duan_System\<close> the state is the pair of the two
  components' states; \<open>manager\<close> gives the I/O manager the scheduler object of the loop, and \<open>on_io\<close> puts it back, so the
  lemmas of both components apply to their parts of a turn.

  \<^bold>\<open>Conventions and bounds.\<close> Shared objects live in heaps and are named by addresses; an address for a new
  object is an argument. Reference counts are not modelled: an object stays until its destructor is
  called explicitly. An operation that holds a lock throughout is one step; where the code releases a lock
  in between (\<^verbatim>\<open>listExpiredCb\<close>, \<^verbatim>\<open>addEvent\<close>, \<^verbatim>\<open>run\<close>) the parts are separate functions and other threads may act
  between them. \<^verbatim>\<open>Logger::log\<close> calls the root logger at most once, and the argument 2 bounds this chain;
  \<open>logging_never_null\<close> shows that it is enough in every reachable state. The other loops are total functions: over
  lists, or with a measure (the two loops of the pattern parser). Counters, deadlines and event masks are
  words of their width.

  \<^bold>\<open>Arguments of the model\<close> stand for code outside the repository: \<^verbatim>\<open>epoll\<close> and the wake-up pipe, pthreads and
  semaphores by their documented results, \<^verbatim>\<open>swapcontext\<close> by its result, the clock, \<^verbatim>\<open>strftime\<close>, yaml-cpp,
  \<^verbatim>\<open>boost::lexical_cast\<close>, and what the functions given to the scheduler do, the original system calls behind the
  hooks and the descriptor manager of the hooks.

  \<^bold>\<open>Not modelled.\<close> \<^verbatim>\<open>noncopyable.h\<close> and \<^verbatim>\<open>duan.h\<close> have no behaviour, and what the other headers only declare is modelled
  where it is defined. Messages that the components write to the log or to \<^verbatim>\<open>std::cout\<close> are left out of their models. The tests are example
  programs.
\<close>

section \<open>Configuration and logging together\<close>

text \<open>
  C28. Loading a document that changes the log configuration and keeps one of the old definitions as it is
  stops the process: the conversion gives the new set, the set differs from the old one, the listener of
  the variable is called and uses a null pointer. The handler in \<^verbatim>\<open>fromString\<close> catches exceptions only, so the
  load does not return.
\<close>

theorem reload_keeping_a_definition_crashes:
  fixes c :: "(LogDefine list, log_state) config"
  assumes "s_datas c ''logs'' = Some p" and "vars c p = Some x" and "cv_cbs x = [(k, logs_listener 2 os e)]"
    and "F (cv_type x) = logs_from Y" and "logs_from Y (node_text Y node) = Inr new" and "new \<noteq> cv_val x"
    and "i \<in> set new" and "define_find (cv_val x) i = Some i" and "log_wf s"
  shows "\<exists>m. LoadFromYaml Y F (YMap [(''logs'', node)]) (c, s) = Inl (UB m)"
proof -
  obtain m where m: "on_logger_conf_changed 2 os e (cv_val x) new s = Inl (UB m)"
    using conf_unchanged_ub [OF assms(9,7,8)] by blast
  have "setValue new x s = ((x, s), Some (UB m))"
    using assms(3,6) m by (simp add: setValue_def logs_listener_def)
  then have "fromString (F (cv_type x)) (node_text Y node) x s = Inl (UB m)"
    using assms(4,5) by (simp add: fromString_def)
  then have "load_member Y F (''logs'', node) (c, s) = Inl (UB m)"
    using assms(1,2) by (simp add: load_member_def LookupBase_def tolower_def)
  then show ?thesis
    by (simp add: LoadFromYaml_def ListAllMember_pairs member_name_def member_chars_def key_prefix_def load_member_def)
qed

definition plain_define :: "string \<Rightarrow> LogDefine" where
  "plain_define name = \<lparr>ld_name = name, ld_level = UNKNOW, ld_formatter = [], ld_appenders = []\<rparr>"

definition demo_logs_var :: "(LogDefine list, log_state) ConfigVar" where
  "demo_logs_var = \<lparr>cv_name = ''logs'', cv_description = [], cv_type = ''set'', cv_val = [plain_define ''root''],
     cv_cbs = [(1, logs_listener 2 demo_log_os demo_event)]\<rparr>"

definition demo_logs :: "(LogDefine list, log_state) config" where
  "demo_logs = \<lparr>s_datas = [''logs'' \<mapsto> 0], vars = [0 \<mapsto> demo_logs_var], next_var = 1, s_fun_id = \<lambda>T. 1\<rparr>"

definition demo_logs_node :: yaml where
  "demo_logs_node = YSeq [YMap [(''name'', YScalar ''root'')], YMap [(''name'', YScalar ''system'')]]"

definition demo_logs_yaml :: yaml_cpp where
  "demo_logs_yaml = demo_yaml [(''- name: root'', YMap [(''name'', YScalar ''root'')]),
     (''- name: system'', YMap [(''name'', YScalar ''system'')]), (''both'', demo_logs_node)]"

lemma demo_logs_from:
  "logs_from demo_logs_yaml (node_text demo_logs_yaml demo_logs_node) = Inr [plain_define ''root'', plain_define ''system'']"
proof -
  have "LogDefine_from demo_logs_yaml ''- name: root'' = Inr (plain_define ''root'')"
    "LogDefine_from demo_logs_yaml ''- name: system'' = Inr (plain_define ''system'')"
    by (simp_all add: LogDefine_from_def demo_logs_yaml_def demo_yaml_def key_string_def plain_define_def
      LogLevel_FromString_def)
  then have "elements_from demo_logs_yaml (LogDefine_from demo_logs_yaml) ''both'' =
      Inr [plain_define ''root'', plain_define ''system'']"
    by (simp add: elements_from_def demo_logs_yaml_def demo_yaml_def demo_logs_node_def upt_rec numeral_2_eq_2)
  moreover have "node_text demo_logs_yaml demo_logs_node = ''both''"
    by (simp add: node_text_def demo_logs_yaml_def demo_yaml_def demo_logs_node_def)
  moreover have "define_lt (plain_define ''root'') (plain_define ''system'')"
    by (simp add: define_lt_def plain_define_def)
  ultimately show ?thesis by (simp add: logs_from_def set_from_def set_insert_def lower_bound_def)
qed

theorem reload_keeping_a_definition_crashes_witness:
  "\<exists>m. LoadFromYaml demo_logs_yaml (\<lambda>T. logs_from demo_logs_yaml) (YMap [(''logs'', demo_logs_node)])
     (demo_logs, demo_log) = Inl (UB m)"
  by (rule reload_keeping_a_definition_crashes [where i = "plain_define ''root''" and x = demo_logs_var and p = 0
        and k = 1 and os = demo_log_os and e = demo_event, OF _ _ _ _ demo_logs_from _ _ _ demo_log_wf])
    (simp_all add: demo_logs_def demo_logs_var_def define_find_def)

end
